(* ===== verification/Prelude.thy ===== *)
theory Prelude
  imports Main "HOL-Library.Word" "HOL-Library.Char_ord" "HOL-Library.List_Lexorder"
    "HOL-Library.Sublist"
begin

text \<open>
  The vocabulary every component shares. A Go \<open>string\<close> or \<open>[]byte\<close> is a list of bytes, and
  HOL's \<open>char\<close> is a byte; \<open>bytes\<close> names that type. Go's \<open>int64\<close> and \<open>uint64\<close> are
  64-bit words (read with \<open>sint\<close> and \<open>unat\<close>). The theory holds the generic list facts about
  the last \<open>n\<close> elements of a sequence and about Go's builtin \<open>copy\<close>, which the ring
  buffer of the usage capture uses, and facts about association of list elements by a key.
\<close>

type_synonym bytes = string
type_synonym int64 = "64 word"
type_synonym uint64 = "64 word"

named_theorems go_defs \<comment> \<open>definitions of Go's library functions, for evaluation on concrete inputs\<close>

subsection \<open>The last elements of a list\<close>

definition last_n :: "nat \<Rightarrow> 'a list \<Rightarrow> 'a list" where
  "last_n n xs = drop (length xs - n) xs"

lemma last_n_short [simp]: "length xs \<le> n \<Longrightarrow> last_n n xs = xs"
  by (simp add: last_n_def)

lemma length_last_n [simp]: "length (last_n n xs) = min n (length xs)"
  by (simp add: last_n_def)

lemma last_n_append_long: "n \<le> length ys \<Longrightarrow> last_n n (xs @ ys) = last_n n ys"
  by (simp add: last_n_def)

lemma last_n_append_short:
  "length ys \<le> n \<Longrightarrow> last_n n (xs @ ys) = last_n (n - length ys) xs @ ys"
  by (simp add: last_n_def)

lemma last_n_last_n [simp]: "last_n n (last_n n xs @ ys) = last_n n (xs @ ys)"
proof (cases "n \<le> length ys")
  case True
  then show ?thesis by (simp add: last_n_append_long)
next
  case False
  have "last_n m (last_n n xs) = last_n m xs" if "m \<le> n" for m
    using that by (simp add: last_n_def) (rule arg_cong [where f = "\<lambda>k. drop k xs"], linarith)
  then have "last_n (n - length ys) (last_n n xs) = last_n (n - length ys) xs"
    by simp
  with False show ?thesis by (simp add: last_n_append_short)
qed

lemma last_n_suffix: "suffix (last_n n xs) xs"
  by (simp add: last_n_def suffix_drop)

lemma suffix_last_n:
  assumes "length ys \<le> n"
  shows "suffix ys (last_n n xs) \<longleftrightarrow> suffix ys xs"
proof
  assume "suffix ys (last_n n xs)"
  then show "suffix ys xs"
    using last_n_suffix by (rule suffix_order.trans)
next
  assume "suffix ys xs"
  then obtain zs where "xs = zs @ ys" by (auto simp: suffix_def)
  with assms show "suffix ys (last_n n xs)"
    by (simp add: last_n_append_short suffix_def)
qed

subsection \<open>Go's builtin copy\<close>

text \<open>
  \<open>copy(dst[off:], src)\<close> overwrites \<open>dst\<close> from \<open>off\<close> on with as much of \<open>src\<close> as
  fits. The slice expression needs \<open>off \<le> len(dst)\<close>, which the ring's invariant gives.
\<close>

definition copy_at :: "'a list \<Rightarrow> nat \<Rightarrow> 'a list \<Rightarrow> 'a list" where
  "copy_at dst off src =
     take off dst @ take (length dst - off) src @ drop (off + length src) dst"

lemma length_copy_at [simp]: "off \<le> length dst \<Longrightarrow> length (copy_at dst off src) = length dst"
  by (simp add: copy_at_def)

lemma copy_at_Nil [simp]: "copy_at dst off [] = dst"
  by (simp add: copy_at_def)

lemma copy_at_fits:
  "off + length src \<le> length dst \<Longrightarrow>
    copy_at dst off src = take off dst @ src @ drop (off + length src) dst"
  by (simp add: copy_at_def)

lemma copy_at_over:
  "off \<le> length dst \<Longrightarrow> length dst \<le> off + length src \<Longrightarrow>
    copy_at dst off src = take off dst @ take (length dst - off) src"
  by (simp add: copy_at_def)

lemma distinct_map_eq:
  "distinct (map f xs) \<Longrightarrow> x \<in> set xs \<Longrightarrow> y \<in> set xs \<Longrightarrow> f x = f y \<Longrightarrow> x = y"
  by (metis distinct_map inj_onD)

lemma find_unique:
  assumes "distinct (map f xs)" and "x \<in> set xs" and "P x" and "\<And>y. y \<in> set xs \<Longrightarrow> P y \<Longrightarrow> f y = f x"
  shows "find P xs = Some x"
proof -
  obtain y where "find P xs = Some y" using assms(2,3) by (cases "find P xs") (auto simp: find_None_iff)
  moreover then have "y \<in> set xs" "P y" by (auto simp: find_Some_iff)
  ultimately show ?thesis using distinct_map_eq [OF assms(1), of y x] assms(2,4) by blast
qed

lemma find_SomeD: "find P xs = Some x \<Longrightarrow> x \<in> set xs \<and> P x"
  by (auto simp: find_Some_iff)

end
