(* ===== verification/Go_Strings.thy ===== *)
theory Go_Strings
  imports Prelude
begin

text \<open>
  The functions of Go's \<open>strings\<close> and \<open>bytes\<close> packages that the gateway calls, byte for
  byte: \<open>HasPrefix\<close>, \<open>HasSuffix\<close>, \<open>TrimPrefix\<close>, \<open>TrimSuffix\<close>, \<open>Split\<close> at one byte,
  \<open>Cut\<close>, \<open>TrimSpace\<close>, \<open>Fields\<close> and \<open>EqualFold\<close> against an ASCII letter word.
  \<open>TrimSpace\<close> and \<open>Fields\<close> know the UTF-8 encodings of every rune that
  \<open>unicode.IsSpace\<close> accepts; because none of these encodings starts with a continuation
  byte, recognising the byte sequences is the same as decoding runes.
\<close>

subsection \<open>Prefixes and suffixes\<close>

definition hasPrefix :: "bytes \<Rightarrow> bytes \<Rightarrow> bool" where
  [go_defs]: "hasPrefix s p \<longleftrightarrow> take (length p) s = p"

definition hasSuffix :: "bytes \<Rightarrow> bytes \<Rightarrow> bool" where
  [go_defs]: "hasSuffix s p \<longleftrightarrow> length p \<le> length s \<and> drop (length s - length p) s = p"

definition trimPrefix :: "bytes \<Rightarrow> bytes \<Rightarrow> bytes" where
  [go_defs]: "trimPrefix s p = (if hasPrefix s p then drop (length p) s else s)"

definition trimSuffix :: "bytes \<Rightarrow> bytes \<Rightarrow> bytes" where
  [go_defs]: "trimSuffix s p = (if hasSuffix s p then take (length s - length p) s else s)"

lemma hasPrefix_iff: "hasPrefix s p \<longleftrightarrow> prefix p s"
  by (metis append_eq_conv_conj append_take_drop_id hasPrefix_def prefixE prefixI)

lemma hasSuffix_iff: "hasSuffix s p \<longleftrightarrow> suffix p s"
proof
  assume "hasSuffix s p"
  then have "p = drop (length s - length p) s" by (simp add: hasSuffix_def)
  then show "suffix p s" by (metis suffix_drop)
next
  assume "suffix p s"
  then show "hasSuffix s p" by (auto simp: hasSuffix_def suffix_def)
qed

lemma hasSuffix_append [simp]: "hasSuffix (s @ p) p"
  by (simp add: hasSuffix_def)

lemma trimSuffix_append [simp]: "trimSuffix (s @ p) p = s"
  by (simp add: trimSuffix_def)

subsection \<open>Splitting at a byte\<close>

fun split_on :: "char \<Rightarrow> bytes \<Rightarrow> bytes list" where
  "split_on c [] = [[]]"
| "split_on c (x # xs) =
     (case split_on c xs of
        [] \<Rightarrow> []
      | l # ls \<Rightarrow> if x = c then [] # l # ls else (x # l) # ls)"

lemma split_on_not_Nil [simp]: "split_on c s \<noteq> []"
  by (induction s) (auto split: list.split)

lemma split_on_append:
  "split_on c (xs @ ys) =
     butlast (split_on c xs) @ (last (split_on c xs) @ hd (split_on c ys)) # tl (split_on c ys)"
proof (induction xs)
  case Nil
  show ?case by (cases "split_on c ys") (simp_all add: split_on_not_Nil [THEN notE])
next
  case (Cons x xs)
  obtain l ls where "split_on c xs = l # ls" by (cases "split_on c xs") auto
  with Cons show ?case by simp
qed

lemma split_on_append_sep: "split_on c (xs @ c # ys) = split_on c xs @ split_on c ys"
  using split_on_not_Nil [of c ys] by (subst split_on_append) (auto split: list.split)

lemma split_on_none: "c \<notin> set xs \<Longrightarrow> split_on c xs = [xs]"
  by (induction xs) auto

lemma tl_split_on_suffix: "suffix ys xs \<Longrightarrow> suffix (tl (split_on c ys)) (split_on c xs)"
  by (auto simp: suffix_def split_on_append)

lemma last_split_on_sep [simp]: "last (split_on c (xs @ [c])) = []"
  by (simp add: split_on_append_sep)

lemma last_split_on_suffix_sep: "suffix [c] s \<Longrightarrow> last (split_on c s) = []"
  by (auto simp: suffix_def)

subsection \<open>White space\<close>

text \<open>
  The UTF-8 encodings of the runes of \<open>unicode.IsSpace\<close>: the six ASCII ones, U+0085,
  U+00A0, U+1680, U+2000 to U+200A, U+2028, U+2029, U+202F, U+205F and U+3000.
\<close>

definition space_runes :: "bytes list" where
  [go_defs]: "space_runes =
     [[CHR 0x09], [CHR 0x0A], [CHR 0x0B], [CHR 0x0C], [CHR 0x0D], [CHR 0x20],
      [CHR 0xC2, CHR 0x85], [CHR 0xC2, CHR 0xA0], [CHR 0xE1, CHR 0x9A, CHR 0x80],
      [CHR 0xE2, CHR 0x80, CHR 0x80], [CHR 0xE2, CHR 0x80, CHR 0x81],
      [CHR 0xE2, CHR 0x80, CHR 0x82], [CHR 0xE2, CHR 0x80, CHR 0x83],
      [CHR 0xE2, CHR 0x80, CHR 0x84], [CHR 0xE2, CHR 0x80, CHR 0x85],
      [CHR 0xE2, CHR 0x80, CHR 0x86], [CHR 0xE2, CHR 0x80, CHR 0x87],
      [CHR 0xE2, CHR 0x80, CHR 0x88], [CHR 0xE2, CHR 0x80, CHR 0x89],
      [CHR 0xE2, CHR 0x80, CHR 0x8A], [CHR 0xE2, CHR 0x80, CHR 0xA8],
      [CHR 0xE2, CHR 0x80, CHR 0xA9], [CHR 0xE2, CHR 0x80, CHR 0xAF],
      [CHR 0xE2, CHR 0x81, CHR 0x9F], [CHR 0xE3, CHR 0x80, CHR 0x80]]"

text \<open>Repeatedly drop a leading word of \<open>ws\<close>; only nonempty words count.\<close>

function strip :: "bytes list \<Rightarrow> bytes \<Rightarrow> bytes" where
  "strip ws s =
     (case find (\<lambda>w. w \<noteq> [] \<and> hasPrefix s w) ws of
        None \<Rightarrow> s
      | Some w \<Rightarrow> strip ws (drop (length w) s))"
  by pat_completeness auto
termination
  by (relation "measure (\<lambda>(ws, s). length s)")
    (auto simp: find_Some_iff hasPrefix_iff prefix_def)

declare strip.simps [simp del, go_defs]

text \<open>\<open>TrimSpace\<close> strips from the left, then from the right (the reversed text).\<close>

definition trimSpace :: "bytes \<Rightarrow> bytes" where
  [go_defs]: "trimSpace s = rev (strip (map rev space_runes) (rev (strip space_runes s)))"

lemma strip_stop:
  "(\<And>w. w \<in> set ws \<Longrightarrow> w \<noteq> [] \<Longrightarrow> \<not> hasPrefix s w) \<Longrightarrow> strip ws s = s"
  by (subst strip.simps) (auto split: option.split simp: find_Some_iff)

lemma strip_suffix: "suffix (strip ws s) s"
proof (induction ws s rule: strip.induct)
  case (1 ws s)
  then show ?case
    by (subst strip.simps) (auto split: option.split intro: suffix_order.trans suffix_drop)
qed

lemma strip_no_prefix: "w \<in> set ws \<Longrightarrow> w \<noteq> [] \<Longrightarrow> \<not> hasPrefix (strip ws s) w"
proof (induction ws s rule: strip.induct)
  case (1 ws s)
  show ?case
  proof (cases "find (\<lambda>w. w \<noteq> [] \<and> hasPrefix s w) ws")
    case None
    then have "strip ws s = s" by (subst strip.simps) simp
    with None "1.prems" show ?thesis by (auto simp: find_None_iff)
  next
    case (Some v)
    with "1" show ?thesis by (subst strip.simps) simp
  qed
qed

subsection \<open>Cut\<close>

text \<open>
  \<open>strings.Cut(s, sep)\<close> for a one-byte separator: the text before and after the first
  occurrence, or the whole string, the empty string and \<open>false\<close>.
\<close>

fun cut :: "bytes \<Rightarrow> char \<Rightarrow> bytes \<times> bytes \<times> bool" where
  "cut [] c = ([], [], False)"
| "cut (x # xs) c =
     (if x = c then ([], xs, True)
      else case cut xs c of (before, after, found) \<Rightarrow> (x # before, after, found))"

lemma cut_append: "c \<notin> set xs \<Longrightarrow> cut (xs @ c # ys) c = (xs, ys, True)"
  by (induction xs) auto

lemma cut_join: "cut s c = (a, b, True) \<Longrightarrow> s = a @ c # b"
  by (induction s arbitrary: a) (auto split: if_splits prod.splits)

subsection \<open>Fields and EqualFold\<close>

text \<open>
  \<open>strings.Fields\<close> cuts around runs of white space. A byte that starts no white-space
  encoding belongs to a field; scanning byte by byte gives the same fields as scanning rune by
  rune, since no white-space encoding begins with a continuation byte.
\<close>

function fields_from :: "bytes \<Rightarrow> bytes \<Rightarrow> bytes list" where
  "fields_from acc [] = (if acc = [] then [] else [rev acc])"
| "fields_from acc (x # xs) =
     (case find (\<lambda>w. w \<noteq> [] \<and> hasPrefix (x # xs) w) space_runes of
        Some w \<Rightarrow> (if acc = [] then [] else [rev acc]) @ fields_from [] (drop (length w) (x # xs))
      | None \<Rightarrow> fields_from (x # acc) xs)"
  by pat_completeness auto
termination
  by (relation "measure (\<lambda>(acc, s). length s)")
    (auto simp: find_Some_iff hasPrefix_iff prefix_def)

definition fields :: "bytes \<Rightarrow> bytes list" where
  [go_defs]: "fields s = fields_from [] s"

definition ascii_lower :: "char \<Rightarrow> char" where
  [go_defs]: "ascii_lower c =
     (if 65 \<le> (of_char c :: nat) \<and> (of_char c :: nat) \<le> 90
      then char_of ((of_char c :: nat) + 32) else c)"

text \<open>
  \<open>strings.EqualFold\<close> with a word of ASCII letters other than \<open>k\<close> and \<open>s\<close>: these are
  the only ASCII letters with a non-ASCII rune in their folding orbit (the Kelvin sign and the
  long s), so for other words folding compares ASCII case-insensitively.
\<close>

definition equalFold_ascii :: "bytes \<Rightarrow> bytes \<Rightarrow> bool" where
  [go_defs]: "equalFold_ascii s w \<longleftrightarrow> map ascii_lower s = map ascii_lower w"

end
