(* ===== verification/Registry.thy ===== *)
theory Registry
  imports Go_Strings "HOL-Library.AList" "HOL-Library.Multiset"
begin

text \<open>
  The model registry (\<open>gateway/server.go\<close>, \<open>gateway/membership.go\<close>): the \<open>Model\<close> entries,
  their validation by \<open>loadModels\<close>, the catalog of model names and metadata, the list of priced
  models and the fingerprint of the membership.
  Parameters: \<open>parse\<close> is \<open>url.Parse\<close>, whose result is the record \<open>goURL\<close> of the fields
  and methods the gateway reads; \<open>decode\<close> is the JSON decoder run twice on the file, giving
  \<open>None\<close> for a decoding error or the decoded slice (\<open>None\<close> for the nil slice) and whether the
  second \<open>Decode\<close> found the end of the input; \<open>sha256\<close> is the digest function.
\<close>

subsection \<open>Data\<close>

record ModelPricing =
  InputRateMicroPerMillion :: int64
  OutputRateMicroPerMillion :: int64
  Example :: bool

record Model =
  Name :: bytes
  URL :: bytes
  DisplayName :: bytes
  Pricing :: "ModelPricing option"

text \<open>
  A parsed URL: \<open>Hostname\<close> and \<open>URLString\<close> are the results of the methods of that name,
  \<open>HasUser\<close> says whether \<open>User\<close> is not nil.
\<close>

record goURL =
  Scheme :: bytes
  Host :: bytes
  Hostname :: bytes
  HasUser :: bool
  Path :: bytes
  RawQuery :: bytes
  ForceQuery :: bool
  Fragment :: bytes
  URLString :: bytes

type_synonym url_parser = "bytes \<Rightarrow> goURL option"

datatype registry_error =
    ReadFailed
  | DecodeFailed
  | TrailingData
  | NotAnArray
  | NameRequired nat
  | BlankDisplayName nat
  | NegativePricing nat
  | MetadataMismatch nat bytes
  | NotAbsoluteURL nat
  | NotAnOrigin nat
  | DuplicateDestination nat bytes

subsection \<open>Validation\<close>

definition samePricing :: "ModelPricing option \<Rightarrow> ModelPricing option \<Rightarrow> bool" where
  "samePricing a b =
     (if a = None \<or> b = None then a = None \<and> b = None else the a = the b)"

lemma samePricing_eq [simp]: "samePricing a b \<longleftrightarrow> a = b"
  by (auto simp: samePricing_def)

definition origin :: "goURL \<Rightarrow> bytes" where
  "origin u = trimSuffix (URLString u) ''/''"

definition absolute_http :: "goURL \<Rightarrow> bool" where
  "absolute_http u \<longleftrightarrow> (Scheme u = ''http'' \<or> Scheme u = ''https'') \<and> Hostname u \<noteq> []"

definition origin_only :: "goURL \<Rightarrow> bytes \<Rightarrow> bool" where
  "origin_only u raw \<longleftrightarrow>
     \<not> (HasUser u \<or> (Path u \<noteq> [] \<and> Path u \<noteq> ''/'') \<or> RawQuery u \<noteq> [] \<or> ForceQuery u \<or>
        Fragment u \<noteq> [] \<or> CHR ''#'' \<in> set raw)"

text \<open>
  One turn of the validation loop: the error of model \<open>i\<close>, or the updated maps
  \<open>destinations\<close> and \<open>metadata\<close>.
\<close>

definition check_model ::
    "url_parser \<Rightarrow> nat \<Rightarrow> (bytes \<times> bytes) set \<times> (bytes \<rightharpoonup> Model) \<Rightarrow> Model \<Rightarrow>
     registry_error + (bytes \<times> bytes) set \<times> (bytes \<rightharpoonup> Model)" where
  "check_model parse i st model =
     (case st of (destinations, metadata) \<Rightarrow>
      if trimSpace (Name model) = [] then Inl (NameRequired i)
      else if DisplayName model \<noteq> [] \<and> trimSpace (DisplayName model) = []
      then Inl (BlankDisplayName i)
      else if (case Pricing model of None \<Rightarrow> False
               | Some p \<Rightarrow> sint (InputRateMicroPerMillion p) < 0 \<or> sint (OutputRateMicroPerMillion p) < 0)
      then Inl (NegativePricing i)
      else if (case metadata (Name model) of None \<Rightarrow> False
               | Some previous \<Rightarrow> DisplayName previous \<noteq> DisplayName model \<or>
                   \<not> samePricing (Pricing previous) (Pricing model))
      then Inl (MetadataMismatch i (Name model))
      else let metadata' = metadata(Name model \<mapsto> model) in
        case parse (URL model) of
          None \<Rightarrow> Inl (NotAbsoluteURL i)
        | Some target \<Rightarrow>
            if \<not> absolute_http target then Inl (NotAbsoluteURL i)
            else if \<not> origin_only target (URL model) then Inl (NotAnOrigin i)
            else let key = (Name model, origin target) in
              if key \<in> destinations then Inl (DuplicateDestination i (Name model))
              else Inr (insert key destinations, metadata'))"

fun check_models ::
    "url_parser \<Rightarrow> nat \<Rightarrow> (bytes \<times> bytes) set \<times> (bytes \<rightharpoonup> Model) \<Rightarrow> Model list \<Rightarrow>
     registry_error option" where
  "check_models parse i st [] = None"
| "check_models parse i st (model # models) =
     (case check_model parse i st model of
        Inl e \<Rightarrow> Some e
      | Inr st' \<Rightarrow> check_models parse (Suc i) st' models)"

definition loadModels ::
    "url_parser \<Rightarrow> (bytes \<Rightarrow> (Model list option \<times> bool) option) \<Rightarrow> bytes option \<Rightarrow>
     registry_error + Model list" where
  "loadModels parse decode file =
     (case file of
        None \<Rightarrow> Inl ReadFailed
      | Some data \<Rightarrow>
          (case decode data of
             None \<Rightarrow> Inl DecodeFailed
           | Some (models, at_end) \<Rightarrow>
               if \<not> at_end then Inl TrailingData
               else (case models of
                       None \<Rightarrow> Inl NotAnArray
                     | Some ms \<Rightarrow>
                         (case check_models parse 0 ({}, Map.empty) ms of
                            Some e \<Rightarrow> Inl e
                          | None \<Rightarrow> Inr ms))))"

subsection \<open>Catalog, priced models, fingerprint\<close>

text \<open>Go maps with an observed size or iteration are association lists with distinct keys.\<close>

definition modelCatalog :: "Model list \<Rightarrow> (bytes \<times> Model) list" where
  "modelCatalog models = fold (\<lambda>model catalog. AList.update (Name model) model catalog) models []"

definition sameCatalog :: "(bytes \<times> Model) list \<Rightarrow> Model list \<Rightarrow> bool" where
  "sameCatalog catalog models =
     (let next = modelCatalog models in
      length next = length catalog \<and>
      list_all (\<lambda>(name, previous).
        case map_of next name of
          None \<Rightarrow> False
        | Some model \<Rightarrow> DisplayName previous = DisplayName model \<and>
            samePricing (Pricing previous) (Pricing model)) catalog)"

fun priced_from :: "bytes set \<Rightarrow> Model list \<Rightarrow> Model list" where
  "priced_from seen [] = []"
| "priced_from seen (model # models) =
     (if Pricing model \<noteq> None \<and> Name model \<notin> seen
      then model # priced_from (insert (Name model) seen) models
      else priced_from seen models)"

definition PricedModels :: "Model list \<Rightarrow> Model list" where
  "PricedModels models = priced_from {} models"

definition routingVersion :: bytes where
  "routingVersion = ''consistent-xxhash-4093-20-1.25-v1''"

text \<open>The key of a member; \<open>None\<close> is the nil dereference of an unparsable URL.\<close>

definition member_key :: "url_parser \<Rightarrow> Model \<Rightarrow> bytes option" where
  "member_key parse model =
     map_option (\<lambda>target. Name model @ [CHR 0x00] @ origin target) (parse (URL model))"

fun join :: "bytes \<Rightarrow> bytes list \<Rightarrow> bytes" where
  "join sep [] = []"
| "join sep [x] = x"
| "join sep (x # y # ys) = x @ sep @ join sep (y # ys)"

definition hex_digit :: "nat \<Rightarrow> char" where
  "hex_digit n = ''0123456789abcdef'' ! n"

definition hex_encode :: "bytes \<Rightarrow> bytes" where
  "hex_encode bs =
     concat (map (\<lambda>b. [hex_digit (of_char b div 16), hex_digit (of_char b mod 16)]) bs)"

definition fingerprint_text :: "url_parser \<Rightarrow> Model list \<Rightarrow> bytes option" where
  "fingerprint_text parse models =
     (case those (map (member_key parse) models) of
        None \<Rightarrow> None
      | Some members \<Rightarrow> Some (routingVersion @ [CHR 0x0A] @ join [CHR 0x0A] (sort members)))"

definition membershipFingerprint ::
    "(bytes \<Rightarrow> bytes) \<Rightarrow> url_parser \<Rightarrow> Model list \<Rightarrow> bytes option" where
  "membershipFingerprint sha256 parse models =
     map_option (\<lambda>t. hex_encode (take 8 (sha256 t))) (fingerprint_text parse models)"

subsection \<open>What a valid registry is\<close>

definition model_ok :: "url_parser \<Rightarrow> Model \<Rightarrow> bool" where
  "model_ok parse m \<longleftrightarrow>
     trimSpace (Name m) \<noteq> [] \<and> (DisplayName m = [] \<or> trimSpace (DisplayName m) \<noteq> []) \<and>
     pred_option (\<lambda>p. 0 \<le> sint (InputRateMicroPerMillion p) \<and> 0 \<le> sint (OutputRateMicroPerMillion p))
       (Pricing m) \<and>
     (case parse (URL m) of None \<Rightarrow> False | Some u \<Rightarrow> absolute_http u \<and> origin_only u (URL m))"

definition model_origin :: "url_parser \<Rightarrow> Model \<Rightarrow> bytes" where
  "model_origin parse m = (case parse (URL m) of None \<Rightarrow> [] | Some u \<Rightarrow> origin u)"

definition dest :: "url_parser \<Rightarrow> Model \<Rightarrow> bytes \<times> bytes" where
  "dest parse m = (Name m, model_origin parse m)"

text \<open>Replicas of a model share its metadata.\<close>

definition shared_metadata :: "Model list \<Rightarrow> bool" where
  "shared_metadata ms \<longleftrightarrow>
     (\<forall>a \<in> set ms. \<forall>b \<in> set ms. Name a = Name b \<longrightarrow>
        DisplayName a = DisplayName b \<and> Pricing a = Pricing b)"

definition valid_registry :: "url_parser \<Rightarrow> Model list \<Rightarrow> bool" where
  "valid_registry parse ms \<longleftrightarrow>
     list_all (model_ok parse) ms \<and> distinct (map (dest parse) ms) \<and> shared_metadata ms"

fun error_index :: "registry_error \<Rightarrow> nat option" where
  "error_index (NameRequired i) = Some i"
| "error_index (BlankDisplayName i) = Some i"
| "error_index (NegativePricing i) = Some i"
| "error_index (MetadataMismatch i _) = Some i"
| "error_index (NotAbsoluteURL i) = Some i"
| "error_index (NotAnOrigin i) = Some i"
| "error_index (DuplicateDestination i _) = Some i"
| "error_index _ = None"

text \<open>The loop variables after the models \<open>pre\<close>: in the map the last model of a name wins.\<close>

definition scanned :: "url_parser \<Rightarrow> Model list \<Rightarrow> (bytes \<times> bytes) set \<times> (bytes \<rightharpoonup> Model)" where
  "scanned parse pre = (dest parse ` set pre, map_of (rev (map (\<lambda>m. (Name m, m)) pre)))"

lemma scanned_Nil [simp]: "scanned parse [] = ({}, Map.empty)"
  by (simp add: scanned_def)

lemma scanned_snoc:
  "scanned parse (pre @ [m]) =
     (insert (dest parse m) (fst (scanned parse pre)), (snd (scanned parse pre))(Name m \<mapsto> m))"
  by (simp add: scanned_def)

lemma scanned_metadata_Some:
  "snd (scanned parse pre) n = Some m \<Longrightarrow> m \<in> set pre \<and> Name m = n"
  by (auto simp: scanned_def dest!: map_of_SomeD)

lemma scanned_metadata_None:
  "snd (scanned parse pre) n = None \<longleftrightarrow> n \<notin> Name ` set pre"
  by (auto simp: scanned_def map_of_eq_None_iff image_iff)

lemma shared_metadata_snoc_iff:
  "shared_metadata (pre @ [m]) \<longleftrightarrow> shared_metadata pre \<and>
     (\<forall>a \<in> set pre. Name a = Name m \<longrightarrow> DisplayName a = DisplayName m \<and> Pricing a = Pricing m)"
  unfolding shared_metadata_def set_append list.set ball_Un by (simp add: eq_commute ball_conj_distrib)

lemma shared_metadata_snoc:
  "shared_metadata (pre @ [m]) \<longleftrightarrow> shared_metadata pre \<and>
     (case snd (scanned parse pre) (Name m) of None \<Rightarrow> True
      | Some p \<Rightarrow> DisplayName p = DisplayName m \<and> Pricing p = Pricing m)"
proof (cases "snd (scanned parse pre) (Name m)")
  case None
  then have "Name m \<notin> Name ` set pre" by (simp add: scanned_metadata_None)
  then show ?thesis using None by (auto simp: shared_metadata_snoc_iff image_iff)
next
  case (Some p)
  from scanned_metadata_Some [OF this] have p: "p \<in> set pre" "Name p = Name m" by simp_all
  have "DisplayName a = DisplayName p \<and> Pricing a = Pricing p"
    if "shared_metadata pre" "a \<in> set pre" "Name a = Name m" for a
    using that p unfolding shared_metadata_def by metis
  with p Some show ?thesis by (auto simp: shared_metadata_snoc_iff)
qed

lemma scanned_dests: "fst (scanned parse pre) = dest parse ` set pre"
  by (simp add: scanned_def)

text \<open>A turn succeeds exactly when the model is acceptable after \<open>pre\<close>.\<close>

lemma check_model_Inr:
  "check_model parse i (scanned parse pre) m = Inr st \<longleftrightarrow>
     model_ok parse m \<and>
     (case snd (scanned parse pre) (Name m) of None \<Rightarrow> True
      | Some p \<Rightarrow> DisplayName p = DisplayName m \<and> Pricing p = Pricing m) \<and>
     dest parse m \<notin> dest parse ` set pre \<and> st = scanned parse (pre @ [m])"
proof -
  obtain D M where sc: "scanned parse pre = (D, M)" by (cases "scanned parse pre")
  have D: "dest parse ` set pre = D" using scanned_dests [of parse pre] by (simp add: sc)
  define priced where "priced = pred_option (\<lambda>p. 0 \<le> sint (InputRateMicroPerMillion p) \<and>
    0 \<le> sint (OutputRateMicroPerMillion p)) (Pricing m)"
  have neg: "(case Pricing m of None \<Rightarrow> False
      | Some p \<Rightarrow> sint (InputRateMicroPerMillion p) < 0 \<or> sint (OutputRateMicroPerMillion p) < 0)
      \<longleftrightarrow> \<not> priced"
    by (auto simp: priced_def split: option.split)
  define meta where "meta = (case M (Name m) of None \<Rightarrow> True
      | Some p \<Rightarrow> DisplayName p = DisplayName m \<and> Pricing p = Pricing m)"
  have mismatch: "(case M (Name m) of None \<Rightarrow> False
      | Some p \<Rightarrow> DisplayName p \<noteq> DisplayName m \<or> \<not> samePricing (Pricing p) (Pricing m))
      \<longleftrightarrow> \<not> meta"
    by (auto simp: meta_def split: option.split)
  show ?thesis
    unfolding scanned_snoc sc D check_model_def model_ok_def fst_conv snd_conv prod.case
      neg mismatch meta_def [symmetric] priced_def [symmetric]
    by (cases "parse (URL m)") (auto simp: dest_def model_origin_def Let_def)
qed

lemma check_model_error_index:
  "check_model parse i st m = Inl e \<Longrightarrow> error_index e = Some i"
  by (auto simp: check_model_def Let_def split: prod.splits if_splits option.splits)

lemma valid_registry_snoc:
  "valid_registry parse (pre @ [m]) \<longleftrightarrow> valid_registry parse pre \<and> model_ok parse m \<and>
     (case snd (scanned parse pre) (Name m) of None \<Rightarrow> True
      | Some p \<Rightarrow> DisplayName p = DisplayName m \<and> Pricing p = Pricing m) \<and>
     dest parse m \<notin> dest parse ` set pre"
  unfolding valid_registry_def shared_metadata_snoc [of pre m parse] by auto

text \<open>One turn: the registry stays valid exactly when the turn succeeds.\<close>

lemma check_model_step:
  "valid_registry parse pre \<Longrightarrow>
     check_model parse i (scanned parse pre) m = Inr st \<longleftrightarrow>
     valid_registry parse (pre @ [m]) \<and> st = scanned parse (pre @ [m])"
  by (auto simp: check_model_Inr valid_registry_snoc)

lemma valid_registry_prefix: "valid_registry parse (xs @ ys) \<Longrightarrow> valid_registry parse xs"
  by (auto simp: valid_registry_def shared_metadata_def)

lemma check_models_None:
  "valid_registry parse pre \<Longrightarrow>
     check_models parse i (scanned parse pre) ms = None \<longleftrightarrow> valid_registry parse (pre @ ms)"
proof (induction ms arbitrary: pre i)
  case Nil
  then show ?case by simp
next
  case (Cons m ms)
  show ?case
  proof (cases "check_model parse i (scanned parse pre) m")
    case (Inl e)
    then have "\<not> valid_registry parse (pre @ [m])"
      using check_model_step [OF Cons.prems, of i m "scanned parse (pre @ [m])"] by simp
    then have "\<not> valid_registry parse (pre @ m # ms)"
      using valid_registry_prefix [of parse "pre @ [m]" ms] by auto
    with Inl show ?thesis by simp
  next
    case (Inr st)
    then have "valid_registry parse (pre @ [m])" "st = scanned parse (pre @ [m])"
      using check_model_step [OF Cons.prems] by blast+
    with Inr Cons.IH [of "pre @ [m]"] show ?thesis by simp
  qed
qed

lemma check_models_Some:
  assumes "valid_registry parse pre" "check_models parse i (scanned parse pre) ms = Some e"
  shows "\<exists>k < length ms. error_index e = Some (i + k) \<and>
    valid_registry parse (pre @ take k ms) \<and> \<not> valid_registry parse (pre @ take (Suc k) ms)"
  using assms
proof (induction ms arbitrary: pre i)
  case Nil
  then show ?case by simp
next
  case (Cons m ms)
  show ?case
  proof (cases "check_model parse i (scanned parse pre) m")
    case (Inl e')
    with Cons.prems have "error_index e = Some i" by (simp add: check_model_error_index)
    moreover from Inl have "\<not> valid_registry parse (pre @ [m])"
      using check_model_step [OF Cons.prems(1), of i m "scanned parse (pre @ [m])"] by simp
    ultimately show ?thesis
      using Cons.prems(1) by (intro exI [of _ 0]) simp
  next
    case (Inr st)
    then have v: "valid_registry parse (pre @ [m])" and st: "st = scanned parse (pre @ [m])"
      using check_model_step [OF Cons.prems(1)] by blast+
    with Cons.prems(2) Inr have "check_models parse (Suc i) (scanned parse (pre @ [m])) ms = Some e"
      by simp
    from Cons.IH [OF v this] obtain k where "k < length ms" "error_index e = Some (Suc i + k)"
      "valid_registry parse ((pre @ [m]) @ take k ms)"
      "\<not> valid_registry parse ((pre @ [m]) @ take (Suc k) ms)" by blast
    then show ?thesis by (intro exI [of _ "Suc k"]) simp
  qed
qed

subsection \<open>The catalog as a map of the models\<close>

lemma modelCatalog_snoc:
  "modelCatalog (ms @ [m]) = AList.update (Name m) m (modelCatalog ms)"
  by (simp add: modelCatalog_def)

lemma modelCatalog_Nil [simp]: "modelCatalog [] = []"
  by (simp add: modelCatalog_def)

lemma distinct_modelCatalog [simp]: "distinct (map fst (modelCatalog ms))"
  by (induction ms rule: rev_induct) (auto simp: modelCatalog_snoc distinct_update)

lemma keys_modelCatalog [simp]: "fst ` set (modelCatalog ms) = Name ` set ms"
  by (induction ms rule: rev_induct)
    (auto simp: modelCatalog_snoc update_conv' simp flip: dom_map_of_conv_image_fst)

lemma map_of_modelCatalog: "map_of (modelCatalog ms) = snd (scanned parse ms)"
  by (induction ms rule: rev_induct) (simp_all add: modelCatalog_snoc update_conv' scanned_snoc)

lemma modelCatalog_Some:
  "map_of (modelCatalog ms) n = Some m \<Longrightarrow> m \<in> set ms \<and> Name m = n"
  by (metis map_of_modelCatalog scanned_metadata_Some)

lemma modelCatalog_ex:
  "n \<in> Name ` set ms \<Longrightarrow> \<exists>m. map_of (modelCatalog ms) n = Some m"
  by (metis keys_modelCatalog map_of_eq_None_iff not_None_eq)

lemma length_modelCatalog: "length (modelCatalog ms) = card (Name ` set ms)"
  using distinct_card [OF distinct_modelCatalog [of ms]] by simp

text \<open>Name and metadata of a model: what the catalog is about.\<close>

definition catalog_entry :: "Model \<Rightarrow> bytes \<times> bytes \<times> ModelPricing option" where
  "catalog_entry m = (Name m, DisplayName m, Pricing m)"

lemma shared_metadata_entry:
  "shared_metadata ms \<Longrightarrow> a \<in> set ms \<Longrightarrow> b \<in> set ms \<Longrightarrow> Name a = Name b \<Longrightarrow>
     catalog_entry a = catalog_entry b"
  unfolding shared_metadata_def catalog_entry_def prod.inject by blast

text \<open>The catalog's model of a name carries that name's metadata.\<close>

lemma modelCatalog_entry:
  assumes "shared_metadata ms" "m \<in> set ms"
  shows "\<exists>p. map_of (modelCatalog ms) (Name m) = Some p \<and> catalog_entry p = catalog_entry m"
proof -
  from assms(2) obtain p where p: "map_of (modelCatalog ms) (Name m) = Some p"
    using modelCatalog_ex by blast
  with modelCatalog_Some [OF p] shared_metadata_entry [OF assms(1) _ assms(2)] show ?thesis by auto
qed

lemma sameCatalog_entries:
  "sameCatalog (modelCatalog old) new \<longleftrightarrow>
     card (Name ` set new) = card (Name ` set old) \<and>
     (\<forall>n p. map_of (modelCatalog old) n = Some p \<longrightarrow>
        (\<exists>m. map_of (modelCatalog new) n = Some m \<and> catalog_entry p = catalog_entry m))"
proof -
  let ?found = "\<lambda>n p. \<exists>m. map_of (modelCatalog new) n = Some m \<and> catalog_entry p = catalog_entry m"
  have step: "(case x of (name, previous) \<Rightarrow>
        case map_of (modelCatalog new) name of
          None \<Rightarrow> False
        | Some model \<Rightarrow> DisplayName previous = DisplayName model \<and>
            samePricing (Pricing previous) (Pricing model)) \<longleftrightarrow> ?found (fst x) (snd x)"
    if "x \<in> set (modelCatalog old)" for x
  proof -
    obtain n p where x: "x = (n, p)" by (cases x)
    with that have "Name p = n" using modelCatalog_Some [of old n p] by simp
    then show ?thesis
      using modelCatalog_Some [of new n] x
      by (cases "map_of (modelCatalog new) n") (auto simp: catalog_entry_def)
  qed
  have "sameCatalog (modelCatalog old) new \<longleftrightarrow> card (Name ` set new) = card (Name ` set old) \<and>
      (\<forall>x \<in> set (modelCatalog old). ?found (fst x) (snd x))"
    unfolding sameCatalog_def Let_def list_all_iff length_modelCatalog
    by (intro conj_cong refl ball_cong step)
  also have "(\<forall>x \<in> set (modelCatalog old). ?found (fst x) (snd x)) \<longleftrightarrow>
      (\<forall>n p. map_of (modelCatalog old) n = Some p \<longrightarrow> ?found n p)"
    by force
  finally show ?thesis .
qed

lemma priced_from_spec:
  "distinct (map Name (priced_from seen ms)) \<and>
   Name ` set (priced_from seen ms) = Name ` {m \<in> set ms. Pricing m \<noteq> None} - seen \<and>
   (\<forall>m \<in> set (priced_from seen ms). Pricing m \<noteq> None) \<and>
   subseq (priced_from seen ms) ms"
  by (induction ms arbitrary: seen) (auto simp: image_iff)

subsection \<open>The fingerprint's text\<close>

lemma those_map:
  "those (map f xs) = (if \<forall>x \<in> set xs. f x \<noteq> None then Some (map (the \<circ> f) xs) else None)"
  by (induction xs) (auto split: option.split)

lemma split_join:
  assumes "xs \<noteq> []" "\<forall>x \<in> set xs. c \<notin> set x"
  shows "split_on c (join [c] xs) = xs"
  using assms
proof (induction "[c]" xs rule: join.induct)
  case (2 x)
  then have "c \<notin> set x" by simp
  then show ?case by (simp, induction x) auto
next
  case (3 x y ys)
  from 3 have "split_on c x = [x]" by (simp, induction x) auto
  with 3 show ?case by (simp add: split_on_append_sep)
qed simp

text \<open>The members as \<open>membershipFingerprint\<close> writes them, for models whose URLs parse.\<close>

definition member_text :: "url_parser \<Rightarrow> Model \<Rightarrow> bytes" where
  "member_text parse m = Name m @ CHR 0x00 # model_origin parse m"

lemma member_key_Some:
  "member_key parse m = (if parse (URL m) = None then None else Some (member_text parse m))"
  by (auto simp: member_key_def member_text_def model_origin_def)

lemma fingerprint_text_eq:
  "fingerprint_text parse ms =
     (if \<forall>m \<in> set ms. parse (URL m) \<noteq> None
      then Some (routingVersion @ [CHR 0x0A] @ join [CHR 0x0A] (sort (map (member_text parse) ms)))
      else None)"
proof (cases "\<forall>m \<in> set ms. parse (URL m) \<noteq> None")
  case True
  then have "map (the \<circ> member_key parse) ms = map (member_text parse) ms"
    by (auto simp: member_key_Some)
  moreover from True have "\<forall>m \<in> set ms. member_key parse m \<noteq> None" by (simp add: member_key_Some)
  ultimately show ?thesis using True by (simp add: fingerprint_text_def those_map del: map_eq_conv)
next
  case False
  then show ?thesis by (simp add: fingerprint_text_def those_map member_key_Some)
qed

text \<open>The last NUL of a member separates name and origin.\<close>

lemma snoc_sep_inj:
  fixes xs :: bytes
  assumes "c \<notin> set ys" "c \<notin> set ys'" "xs @ c # ys = xs' @ c # ys'"
  shows "xs = xs' \<and> ys = ys'"
proof -
  have "rev ys @ c # rev xs = rev ys' @ c # rev xs'"
    using arg_cong [OF assms(3), of rev] by simp
  then have "cut (rev ys @ c # rev xs) c = cut (rev ys' @ c # rev xs') c" by simp
  with assms(1,2) have "rev ys = rev ys' \<and> rev xs = rev xs'" by (simp add: cut_append)
  then show ?thesis by simp
qed

lemma inj_member_text:
  assumes "\<And>s u. parse s = Some u \<Longrightarrow> CHR 0x00 \<notin> set (URLString u)"
    and "member_text parse a = member_text parse b"
  shows "dest parse a = dest parse b"
proof -
  have "CHR 0x00 \<notin> set (model_origin parse m)" for m
    using assms(1) [of "URL m"]
    by (auto simp: model_origin_def origin_def trimSuffix_def split: option.splits dest: in_set_takeD)
  then show ?thesis
    using snoc_sep_inj [OF _ _ assms(2) [unfolded member_text_def]] by (auto simp: dest_def)
qed

lemma image_mset_inj_on_eq:
  assumes "inj_on f (set_mset A \<union> set_mset B)" "image_mset f A = image_mset f B"
  shows "A = B"
proof -
  let ?g = "inv_into (set_mset A \<union> set_mset B) f"
  have g: "image_mset ?g (image_mset f C) = C" if "set_mset C \<subseteq> set_mset A \<union> set_mset B" for C
  proof -
    have "image_mset (?g \<circ> f) C = image_mset id C"
      using that assms(1) by (intro image_mset_cong) auto
    then show ?thesis by (simp add: multiset.map_comp)
  qed
  from assms(2) have "image_mset ?g (image_mset f A) = image_mset ?g (image_mset f B)" by simp
  then show ?thesis by (simp add: g)
qed

lemma sort_eq_iff: "sort xs = sort ys \<longleftrightarrow> mset xs = mset ys"
  by (metis mset_sort sorted_list_of_multiset_mset)

text \<open>With line breaks and NULs excluded the text determines the members, and no more than them.\<close>

lemma join_sorted_members_iff:
  assumes parser: "\<And>s u. parse s = Some u \<Longrightarrow>
      CHR 0x00 \<notin> set (URLString u) \<and> CHR 0x0A \<notin> set (URLString u)"
    and names: "\<forall>m \<in> set ms \<union> set ms'. CHR 0x0A \<notin> set (Name m)"
  shows "join [CHR 0x0A] (sort (map (member_text parse) ms)) =
         join [CHR 0x0A] (sort (map (member_text parse) ms')) \<longleftrightarrow>
         mset (map (dest parse) ms) = mset (map (dest parse) ms')"
proof -
  let ?f = "\<lambda>(n, org). n @ CHR 0x00 # org"
  have mt: "member_text parse = ?f \<circ> dest parse"
    by (rule ext) (simp add: member_text_def dest_def)
  have org: "CHR 0x0A \<notin> set (model_origin parse m)" for m
    using parser [of "URL m"]
    by (auto simp: model_origin_def origin_def trimSuffix_def split: option.splits dest: in_set_takeD)
  let ?L = "\<lambda>l. sort (map (member_text parse) l)"
  have nl: "\<forall>x \<in> set (?L l). CHR 0x0A \<notin> set x" if "set l \<subseteq> set ms \<union> set ms'" for l
    using names that org by (auto simp: member_text_def)
  have "x \<noteq> []" if "x \<in> set (?L l)" for x l
    using that by (auto simp: member_text_def)
  then have empty: "join [CHR 0x0A] (?L l) = [] \<longleftrightarrow> ?L l = []" for l
    by (metis join.elims join.simps(1) append_is_Nil_conv list.set_intros(1))
  have "join [CHR 0x0A] (?L ms) = join [CHR 0x0A] (?L ms') \<longleftrightarrow> ?L ms = ?L ms'"
    using split_join [OF _ nl [of ms]] split_join [OF _ nl [of ms']] empty
    by (metis Un_upper1 Un_upper2)
  also have "\<dots> \<longleftrightarrow> image_mset ?f (mset (map (dest parse) ms)) = image_mset ?f (mset (map (dest parse) ms'))"
    by (simp add: sort_eq_iff mt multiset.map_comp)
  also have "\<dots> \<longleftrightarrow> mset (map (dest parse) ms) = mset (map (dest parse) ms')"
  proof
    assume eq: "image_mset ?f (mset (map (dest parse) ms)) = image_mset ?f (mset (map (dest parse) ms'))"
    have "inj_on ?f (dest parse ` UNIV)"
      using inj_member_text [of parse] parser by (auto simp: inj_on_def mt)
    then have "inj_on ?f (set_mset (mset (map (dest parse) ms)) \<union> set_mset (mset (map (dest parse) ms')))"
      by (rule inj_on_subset) auto
    then show "mset (map (dest parse) ms) = mset (map (dest parse) ms')"
      using eq by (rule image_mset_inj_on_eq)
  qed simp
  finally show ?thesis .
qed

subsection \<open>Concrete registries\<close>

text \<open>
  A parser that knows plain origins, for the witnesses: it rejects control characters and, as
  \<open>url.Parse\<close> does, gives the scheme in lower case.
\<close>

definition demo_parse :: url_parser where
  "demo_parse s =
     (if \<not> list_all (\<lambda>c. 32 \<le> (of_char c :: nat)) s then None
      else if hasPrefix s ''http://'' \<or> hasPrefix s ''HTTP://''
      then Some \<lparr>Scheme = ''http'', Host = drop 7 s, Hostname = drop 7 s, HasUser = False,
        Path = [], RawQuery = [], ForceQuery = False, Fragment = [],
        URLString = ''http://'' @ drop 7 s\<rparr>
      else None)"

definition demo_model :: "bytes \<Rightarrow> bytes \<Rightarrow> Model" where
  "demo_model n u = \<lparr>Name = n, URL = u, DisplayName = [], Pricing = None\<rparr>"

definition demo_pair :: "Model list" where
  "demo_pair = [demo_model ''q'' ''http://a'', demo_model ''q'' ''http://b'']"

lemma demo_parse_control:
  assumes "demo_parse s = Some u"
  shows "CHR 0x00 \<notin> set (URLString u) \<and> CHR 0x0A \<notin> set (URLString u)"
proof -
  from assms have "\<forall>c \<in> set s. 32 \<le> (of_char c :: nat)" and
    u: "URLString u = ''http://'' @ drop 7 s"
    by (auto simp: demo_parse_def list_all_iff split: if_splits)
  then have "CHR 0x00 \<notin> set s" "CHR 0x0A \<notin> set s" by fastforce+
  then show ?thesis using u by (auto dest: in_set_dropD)
qed

lemma trimSpace_single: "trimSpace ''q'' = ''q''"
  by code_simp

lemma demo_parse_simps:
  "demo_parse ''http://a'' = Some \<lparr>Scheme = ''http'', Host = ''a'', Hostname = ''a'',
     HasUser = False, Path = [], RawQuery = [], ForceQuery = False, Fragment = [],
     URLString = ''http://a''\<rparr>"
  "demo_parse ''http://b'' = Some \<lparr>Scheme = ''http'', Host = ''b'', Hostname = ''b'',
     HasUser = False, Path = [], RawQuery = [], ForceQuery = False, Fragment = [],
     URLString = ''http://b''\<rparr>"
  by (simp_all add: demo_parse_def hasPrefix_def)

lemma demo_pair_valid: "valid_registry demo_parse demo_pair"
  by (simp add: valid_registry_def demo_pair_def demo_model_def model_ok_def dest_def
      model_origin_def origin_def absolute_http_def origin_only_def shared_metadata_def
      demo_parse_simps trimSuffix_def hasSuffix_def trimSpace_single)

subsection \<open>Properties\<close>

text \<open>
  C39: \<open>loadModels\<close> returns the models of the file unchanged, and it returns them exactly for
  a readable file that holds one JSON array of valid models: nonblank names, nonblank display
  names where given, nonnegative rates, plain HTTP(S) origins, no destination twice for one
  model (a trailing slash does not tell destinations apart), and replicas that share their
  metadata. Several backends of one model name are accepted, as its replicas.
\<close>
theorem loadModels_accepts:
  "loadModels parse decode file = Inr ms \<longleftrightarrow>
     (\<exists>data. file = Some data \<and> decode data = Some (Some ms, True)) \<and> valid_registry parse ms"
proof -
  have "valid_registry parse []" by (simp add: valid_registry_def shared_metadata_def)
  from check_models_None [OF this, of 0 ms] show ?thesis
    by (auto simp: loadModels_def split: option.splits if_splits)
qed

text \<open>
  A rejected registry is reported at its first offending model: the models before the
  reported index are a valid registry, and with that model they are not.
\<close>
theorem loadModels_first_error:
  assumes "decode data = Some (Some ms, True)" and "loadModels parse decode (Some data) = Inl e"
  shows "\<exists>k < length ms. error_index e = Some k \<and> valid_registry parse (take k ms) \<and>
    \<not> valid_registry parse (take (Suc k) ms)"
proof -
  have v: "valid_registry parse []" by (simp add: valid_registry_def shared_metadata_def)
  from assms have "check_models parse 0 (scanned parse []) ms = Some e"
    by (simp add: loadModels_def split: option.splits)
  from check_models_Some [OF v this] show ?thesis by simp
qed

theorem loadModels_first_error_witness:
  "\<exists>k < 3. error_index (DuplicateDestination 2 ''q'') = Some k \<and>
     valid_registry demo_parse (take k (demo_pair @ [demo_model ''q'' ''http://a'']))"
proof -
  let ?ms = "demo_pair @ [demo_model ''q'' ''http://a'']"
  have "loadModels demo_parse (\<lambda>_. Some (Some ?ms, True)) (Some []) =
      Inl (DuplicateDestination 2 ''q'')"
    by (simp add: loadModels_def check_model_def demo_pair_def demo_model_def demo_parse_simps
        absolute_http_def origin_only_def origin_def trimSuffix_def hasSuffix_def Let_def
        trimSpace_single)
  from loadModels_first_error [OF _ this] show ?thesis
    by (fastforce simp: demo_pair_def)
qed

text \<open>
  Between two valid registries the catalog counts as unchanged exactly when the set of
  (name, display name, pricing) entries is the same; the order of the models, their number of
  replicas and their URLs do not matter.
\<close>
theorem sameCatalog_iff:
  assumes "valid_registry parse old" and "valid_registry parse' new"
  shows "sameCatalog (modelCatalog old) new \<longleftrightarrow> catalog_entry ` set old = catalog_entry ` set new"
proof -
  note so = assms(1) [unfolded valid_registry_def, THEN conjunct2, THEN conjunct2]
  note sn = assms(2) [unfolded valid_registry_def, THEN conjunct2, THEN conjunct2]
  have name: "Name a = Name b" if "catalog_entry a = catalog_entry b" for a b
    using that by (simp add: catalog_entry_def)
  have names: "Name ` set ms = fst ` catalog_entry ` set ms" for ms
    by (force simp: catalog_entry_def)
  show ?thesis
  proof
    assume "sameCatalog (modelCatalog old) new"
    then have card: "card (Name ` set new) = card (Name ` set old)"
      and found: "\<And>n p. map_of (modelCatalog old) n = Some p \<Longrightarrow>
        \<exists>m. map_of (modelCatalog new) n = Some m \<and> catalog_entry p = catalog_entry m"
      by (auto simp: sameCatalog_entries simp del: map_of_eq_Some_iff)
    have sub: "catalog_entry ` set old \<subseteq> catalog_entry ` set new"
    proof (rule image_subsetI)
      fix m assume "m \<in> set old"
      from modelCatalog_entry [OF so this] obtain p
        where p: "map_of (modelCatalog old) (Name m) = Some p" "catalog_entry p = catalog_entry m"
        by blast
      from found [OF p(1)] p(2) modelCatalog_Some [of new "Name m"]
      show "catalog_entry m \<in> catalog_entry ` set new" by (metis image_eqI)
    qed
    then have "Name ` set old \<subseteq> Name ` set new" unfolding names by blast
    with card have eq: "Name ` set old = Name ` set new"
      by (intro card_subset_eq) auto
    have "catalog_entry m \<in> catalog_entry ` set old" if m: "m \<in> set new" for m
    proof -
      from m eq obtain a where a: "a \<in> set old" "Name a = Name m" by (metis image_iff)
      with sub obtain b where b: "b \<in> set new" "catalog_entry a = catalog_entry b" by blast
      from name [OF b(2)] a(2) have "Name b = Name m" by simp
      with shared_metadata_entry [OF sn b(1) m] b(2) have "catalog_entry m = catalog_entry a"
        by simp
      with a(1) show ?thesis by (rule rev_image_eqI)
    qed
    with sub show "catalog_entry ` set old = catalog_entry ` set new" by blast
  next
    assume eq: "catalog_entry ` set old = catalog_entry ` set new"
    have "\<exists>m. map_of (modelCatalog new) n = Some m \<and> catalog_entry p = catalog_entry m"
      if p: "map_of (modelCatalog old) n = Some p" for n p
    proof -
      from modelCatalog_Some [OF p] eq obtain b where
        b: "b \<in> set new" "catalog_entry p = catalog_entry b" "Name p = n" by blast
      with name [OF b(2)] have "Name b = n" by simp
      with modelCatalog_entry [OF sn b(1)] b(2) show ?thesis by auto
    qed
    with eq show "sameCatalog (modelCatalog old) new"
      unfolding sameCatalog_entries names by simp
  qed
qed

theorem sameCatalog_iff_witness:
  "sameCatalog (modelCatalog demo_pair) [demo_model ''q'' ''http://b'']"
proof -
  have "valid_registry demo_parse [demo_model ''q'' ''http://b'']"
    using demo_pair_valid by (simp add: valid_registry_def demo_pair_def shared_metadata_def)
  from sameCatalog_iff [OF demo_pair_valid this] show ?thesis
    by (simp add: demo_pair_def catalog_entry_def demo_model_def)
qed

text \<open>
  The text under the membership fingerprint identifies the set of destinations: for valid
  registries whose model names hold no line break, and with the documented behaviour of
  \<open>url.Parse\<close> that URLs with control characters are rejected, two registries have the same
  fingerprint text exactly when they hold the same (name, origin) pairs, in any order.
\<close>
theorem fingerprint_identifies_members:
  assumes "\<And>s u. parse s = Some u \<Longrightarrow>
      CHR 0x00 \<notin> set (URLString u) \<and> CHR 0x0A \<notin> set (URLString u)"
    and "\<forall>m \<in> set ms \<union> set ms'. CHR 0x0A \<notin> set (Name m)"
    and "valid_registry parse ms" and "valid_registry parse ms'"
  shows "fingerprint_text parse ms = fingerprint_text parse ms' \<longleftrightarrow>
    dest parse ` set ms = dest parse ` set ms'"
proof -
  have parsed: "\<forall>m \<in> set l. parse (URL m) \<noteq> None" if "valid_registry parse l" for l
    using that by (auto simp: valid_registry_def list_all_iff model_ok_def split: option.splits)
  have "mset (map (dest parse) ms) = mset (map (dest parse) ms') \<longleftrightarrow>
      dest parse ` set ms = dest parse ` set ms'"
    using assms(3,4) set_eq_iff_mset_eq_distinct [of "map (dest parse) ms" "map (dest parse) ms'"]
    by (simp add: valid_registry_def)
  then show ?thesis
    using join_sorted_members_iff [OF assms(1,2)] parsed assms(3,4)
    by (simp add: fingerprint_text_eq)
qed

theorem fingerprint_identifies_members_witness:
  "fingerprint_text demo_parse demo_pair = fingerprint_text demo_parse (rev demo_pair)"
proof -
  have "valid_registry parse (rev ms) = valid_registry parse ms" for parse ms
    by (simp add: valid_registry_def shared_metadata_def list_all_iff flip: rev_map)
  then have "valid_registry demo_parse (rev demo_pair)" using demo_pair_valid by simp
  moreover have "\<forall>m \<in> set demo_pair \<union> set (rev demo_pair). CHR 0x0A \<notin> set (Name m)"
    by (simp add: demo_pair_def demo_model_def)
  ultimately show ?thesis
    using fingerprint_identifies_members [OF demo_parse_control _ demo_pair_valid] by simp
qed

text \<open>
  \<open>PricedModels\<close> lists every model name that has a price exactly once, in registry order,
  with one of its priced entries.
\<close>
theorem PricedModels_once:
  "distinct (map Name (PricedModels ms)) \<and>
   set (map Name (PricedModels ms)) = Name ` {m \<in> set ms. Pricing m \<noteq> None} \<and>
   None \<notin> Pricing ` set (PricedModels ms) \<and> subseq (PricedModels ms) ms"
proof -
  from priced_from_spec [of "{}" ms]
  have "\<forall>m \<in> set (PricedModels ms). Pricing m \<noteq> None" and
    "distinct (map Name (PricedModels ms))" "subseq (PricedModels ms) ms"
    "Name ` set (PricedModels ms) = Name ` {m \<in> set ms. Pricing m \<noteq> None}"
    by (simp_all add: PricedModels_def)
  moreover from this(1) have "None \<notin> Pricing ` set (PricedModels ms)" by (metis imageE)
  ultimately show ?thesis unfolding set_map by blast
qed

end
