(* ===== verification/Http.thy ===== *)
theory Http
  imports Prelude
begin

text \<open>
  The part of \<open>net/http\<close> the handlers use: header maps with their canonical keys, and the
  response a handler has written so far, with the gateway's own error body
  (\<open>writeAPIError\<close> of \<open>gateway/proxy.go\<close>).
\<close>

subsection \<open>Headers\<close>

text \<open>A header maps a canonical key to its list of values; an absent key has none.\<close>

type_synonym header = "bytes \<Rightarrow> bytes list"

definition no_header :: header where
  "no_header = (\<lambda>_. [])"

definition hGet :: "header \<Rightarrow> bytes \<Rightarrow> bytes" where
  "hGet h k = (case h k of [] \<Rightarrow> [] | v # _ \<Rightarrow> v)"

definition hSet :: "header \<Rightarrow> bytes \<Rightarrow> bytes \<Rightarrow> header" where
  "hSet h k v = h(k := [v])"

definition hDel :: "header \<Rightarrow> bytes \<Rightarrow> header" where
  "hDel h k = h(k := [])"

lemma header_simps [simp]:
  "no_header k = []" "hSet h k v k' = (if k' = k then [v] else h k')"
  "hDel h k k' = (if k' = k then [] else h k')" "hGet (hSet h k v) k = v" "hGet (hDel h k) k = []"
  by (simp_all add: no_header_def hSet_def hDel_def hGet_def)

lemma hGet_other [simp]:
  "k' \<noteq> k \<Longrightarrow> hGet (hSet h k v) k' = hGet h k'" "k' \<noteq> k \<Longrightarrow> hGet (hDel h k) k' = hGet h k'"
  by (simp_all add: hGet_def)

subsection \<open>Responses\<close>

datatype 'b body = NoBody | ErrorBody bytes bytes | Content 'b

text \<open>\<open>rp_status\<close> is 0 until the handler commits a status.\<close>

record 'b reply =
  rp_status :: int
  rp_header :: header
  rp_body :: "'b body"

definition fresh_reply :: "'b reply" where
  "fresh_reply = \<lparr>rp_status = 0, rp_header = no_header, rp_body = NoBody\<rparr>"

definition set_reply_header :: "bytes \<Rightarrow> bytes \<Rightarrow> 'b reply \<Rightarrow> 'b reply" where
  "set_reply_header k v w = w\<lparr>rp_header := hSet (rp_header w) k v\<rparr>"

definition error_type :: "int \<Rightarrow> bytes" where
  "error_type status = (if status \<ge> 500 then ''server_error'' else ''invalid_request_error'')"

definition writeAPIError :: "'b reply \<Rightarrow> int \<Rightarrow> bytes \<Rightarrow> 'b reply" where
  "writeAPIError w status message =
     (set_reply_header ''Content-Type'' ''application/json'' w)
       \<lparr>rp_status := status, rp_body := ErrorBody message (error_type status)\<rparr>"

definition write_json :: "'b reply \<Rightarrow> int \<Rightarrow> 'b \<Rightarrow> 'b reply" where
  "write_json w status value =
     (set_reply_header ''Content-Type'' ''application/json'' w)
       \<lparr>rp_status := status, rp_body := Content value\<rparr>"

lemma reply_simps [simp]:
  "rp_status (writeAPIError w st msg) = st" "rp_status (write_json w st v) = st"
  "rp_body (writeAPIError w st msg) = ErrorBody msg (error_type st)"
  "rp_body (write_json w st v) = Content v"
  "rp_status (set_reply_header k x w) = rp_status w" "rp_body (set_reply_header k x w) = rp_body w"
  "rp_header (set_reply_header k x w) = hSet (rp_header w) k x"
  "rp_header (writeAPIError w st msg) = hSet (rp_header w) ''Content-Type'' ''application/json''"
  "rp_header (write_json w st v) = hSet (rp_header w) ''Content-Type'' ''application/json''"
  "rp_status fresh_reply = 0" "rp_body fresh_reply = NoBody" "rp_header fresh_reply = no_header"
  by (simp_all add: writeAPIError_def write_json_def set_reply_header_def fresh_reply_def)

text \<open>White space between JSON values.\<close>

definition json_space :: "char \<Rightarrow> bool" where
  "json_space c \<longleftrightarrow> c \<in> {CHR '' '', CHR 0x09, CHR 0x0A, CHR 0x0D}"

end
