(* ===== verification/Usage_Capture.thy ===== *)
theory Usage_Capture
  imports Go_Strings
begin

text \<open>
  Usage metering (\<open>gateway/usage_capture.go\<close>). The capture sees the response bytes as the
  reverse proxy reads them. For an ordinary response it keeps the whole body up to 1 MiB, for an
  event stream the last 64 KiB in a ring buffer. At the end it extracts the token usage.
  The theory models the capture's fields and every method, states the ring as a bounded tail of
  the byte stream (the locale \<open>tail_buffer\<close> and its interpretation), and relates the
  single-pass scan of the stream to a declarative reading of the same lines.
  The JSON decoder of the standard library is a parameter: \<open>decode data\<close> is \<open>None\<close> when
  \<open>json.Unmarshal\<close> fails and \<open>Some u\<close> when it succeeds with the pointer \<open>Usage = u\<close>.
\<close>

subsection \<open>State\<close>

definition maxJSONUsageResponse :: nat where
  "maxJSONUsageResponse = 2 ^ 20"

definition maxSSEUsageTail :: nat where
  "maxSSEUsageTail = 64 * 2 ^ 10"

lemma maxSSEUsageTail_bounds [simp]: "0 < maxSSEUsageTail" "4 \<le> maxSSEUsageTail"
  by (simp_all add: maxSSEUsageTail_def)

text \<open>Pointers to \<open>int64\<close> are options; \<open>nil\<close> is \<open>None\<close>.\<close>

record tokenUsage =
  PromptTokens :: "int64 option"
  CompletionTokens :: "int64 option"

type_synonym usage_decoder = "bytes \<Rightarrow> tokenUsage option option"

text \<open>The byte slice \<open>body\<close> distinguishes the nil slice (\<open>None\<close>), which \<open>observe\<close> tests.\<close>

record usageCapture =
  cap_status :: int
  cap_stream :: bool
  cap_eof :: bool
  cap_overflow :: bool
  cap_body :: "bytes option"
  tailNext :: nat
  tailSize :: nat
  tailTruncated :: bool

definition new_capture :: "bool \<Rightarrow> usageCapture" where
  "new_capture st =
     \<lparr>cap_status = 0, cap_stream = st, cap_eof = False, cap_overflow = False, cap_body = None,
      tailNext = 0, tailSize = 0, tailTruncated = False\<rparr>"

definition body_bytes :: "usageCapture \<Rightarrow> bytes" where
  "body_bytes c = (case cap_body c of None \<Rightarrow> [] | Some b \<Rightarrow> b)"

text \<open>Go's \<open>append(s, p...)\<close>: appending nothing to the nil slice leaves it nil.\<close>

definition append_slice :: "bytes option \<Rightarrow> bytes \<Rightarrow> bytes option" where
  "append_slice s p =
     (case s of None \<Rightarrow> (if p = [] then None else Some p) | Some b \<Rightarrow> Some (b @ p))"

subsection \<open>Operations\<close>

definition observe_json :: "usageCapture \<Rightarrow> bytes \<Rightarrow> usageCapture" where
  "observe_json c p =
     (if cap_overflow c then c
      else if length (body_bytes c) + length p > maxJSONUsageResponse
      then c\<lparr>cap_body := None, cap_overflow := True\<rparr>
      else c\<lparr>cap_body := append_slice (cap_body c) p\<rparr>)"

definition ring_alloc :: "usageCapture \<Rightarrow> usageCapture" where
  "ring_alloc c =
     (if cap_body c = None then c\<lparr>cap_body := Some (replicate maxSSEUsageTail (CHR 0x00))\<rparr> else c)"

definition observe_stream :: "usageCapture \<Rightarrow> bytes \<Rightarrow> usageCapture" where
  "observe_stream c0 p =
     (let c = ring_alloc c0; buf = body_bytes c in
      if maxSSEUsageTail \<le> length p then
        c\<lparr>tailTruncated := (tailSize c > 0 \<or> length p > maxSSEUsageTail),
          cap_body := Some (copy_at buf 0 (drop (length p - maxSSEUsageTail) p)),
          tailNext := 0, tailSize := maxSSEUsageTail\<rparr>
      else
        let cut = (if tailSize c + length p > maxSSEUsageTail then True else tailTruncated c);
            n = min (length buf - tailNext c) (length p);
            buf1 = copy_at buf (tailNext c) p;
            buf2 = copy_at buf1 0 (drop n p)
        in c\<lparr>tailTruncated := cut, cap_body := Some buf2,
             tailNext := (tailNext c + length p) mod maxSSEUsageTail,
             tailSize := min maxSSEUsageTail (tailSize c + length p)\<rparr>)"

definition observe :: "usageCapture \<Rightarrow> bytes \<Rightarrow> usageCapture" where
  "observe c p = (if \<not> cap_stream c then observe_json c p else observe_stream c p)"

text \<open>
  \<open>usageBody.Read\<close>: what one \<open>Read\<close> of the wrapped body does to the capture, given the
  bytes it returned and whether its error was \<open>io.EOF\<close>.
\<close>

definition body_read :: "usageCapture \<Rightarrow> bytes \<times> bool \<Rightarrow> usageCapture" where
  "body_read c r =
     (case r of (p, at_eof) \<Rightarrow>
        let c1 = (if length p > 0 then observe c p else c)
        in if at_eof then c1\<lparr>cap_eof := True\<rparr> else c1)"

definition body_reads :: "(bytes \<times> bool) list \<Rightarrow> usageCapture \<Rightarrow> usageCapture" where
  "body_reads rs c = fold (\<lambda>r c. body_read c r) rs c"

definition tail :: "usageCapture \<Rightarrow> bytes" where
  "tail c =
     (if tailSize c < maxSSEUsageTail then take (tailSize c) (body_bytes c)
      else let result = replicate maxSSEUsageTail (CHR 0x00);
               upper = drop (tailNext c) (body_bytes c);
               n = min maxSSEUsageTail (length upper)
           in copy_at (copy_at result 0 upper) n (take (tailNext c) (body_bytes c)))"

definition validUsage :: "tokenUsage option \<Rightarrow> bool" where
  "validUsage u =
     (case u of None \<Rightarrow> False
      | Some t \<Rightarrow>
          (case (PromptTokens t, CompletionTokens t) of
             (Some p, Some q) \<Rightarrow> 0 \<le> sint p \<and> 0 \<le> sint q
           | _ \<Rightarrow> False))"

definition blank_line_end :: "bytes \<Rightarrow> bool" where
  "blank_line_end t \<longleftrightarrow>
     hasSuffix t [CHR 0x0A, CHR 0x0A] \<or> hasSuffix t [CHR 0x0D, CHR 0x0A, CHR 0x0D, CHR 0x0A]"

text \<open>
  One turn of the loop over the lines of the tail: the loop variables are the last valid usage
  seen and whether \<open>[DONE]\<close> closed the stream after it.
\<close>

definition scan_line ::
    "usage_decoder \<Rightarrow> bytes \<Rightarrow> tokenUsage option \<times> bool \<Rightarrow> tokenUsage option \<times> bool" where
  "scan_line decode line st =
     (case st of (usage, dn) \<Rightarrow>
        let l = trimSuffix line [CHR 0x0D] in
        if \<not> hasPrefix l ''data:'' then (usage, dn)
        else
          let data = trimSpace (drop (length ''data:'') l) in
          if data = ''[DONE]'' then (usage, validUsage usage)
          else (case decode data of
                  Some u \<Rightarrow> (if validUsage u then u else usage, False)
                | None \<Rightarrow> (usage, False)))"

definition scan_lines ::
    "usage_decoder \<Rightarrow> bytes list \<Rightarrow> tokenUsage option \<times> bool \<Rightarrow> tokenUsage option \<times> bool" where
  "scan_lines decode ls st = fold (scan_line decode) ls st"

definition streamUsage :: "usage_decoder \<Rightarrow> usageCapture \<Rightarrow> tokenUsage option" where
  "streamUsage decode c =
     (let t = tail c in
      if \<not> blank_line_end t then None
      else
        let ls0 = split_on (CHR 0x0A) t;
            ls = (if tailTruncated c then drop 1 ls0 else ls0)
        in if ls = [] \<or> last ls \<noteq> [] then None
           else (case scan_lines decode (butlast ls) (None, False) of
                   (usage, dn) \<Rightarrow> if dn then usage else None))"

text \<open>
  The usage of a finished 2xx response: from the stream's tail, or from the JSON body.
  \<open>json.Unmarshal\<close> of the nil slice is \<open>json.Unmarshal\<close> of an empty input.
\<close>

definition captured_usage :: "usage_decoder \<Rightarrow> usageCapture \<Rightarrow> tokenUsage option" where
  "captured_usage decode c =
     (if cap_stream c then streamUsage decode c
      else (case decode (body_bytes c) of Some u \<Rightarrow> u | None \<Rightarrow> None))"

text \<open>\<open>result\<close>: HTTP status, outcome and the two token counts.\<close>

definition result ::
    "usage_decoder \<Rightarrow> usageCapture \<Rightarrow> bool \<Rightarrow> int \<times> string \<times> int64 option \<times> int64 option" where
  "result decode c interrupted =
     (if interrupted \<or> cap_status c = 0 then (cap_status c, ''incomplete'', None, None)
      else if cap_status c < 200 \<or> cap_status c \<ge> 300 then (cap_status c, ''failed'', None, None)
      else if \<not> cap_eof c \<or> cap_overflow c then (cap_status c, ''incomplete'', None, None)
      else (case captured_usage decode c of
              None \<Rightarrow> (cap_status c, ''incomplete'', None, None)
            | Some t \<Rightarrow>
                if \<not> validUsage (Some t) then (cap_status c, ''incomplete'', None, None)
                else (cap_status c, ''complete'', PromptTokens t, CompletionTokens t)))"

subsection \<open>The ring as a bounded tail of the stream\<close>

text \<open>
  What a bounded tail buffer promises: after any writes it holds the last \<open>cap\<close> elements
  written, and its flag tells whether older ones were lost. A write \<open>w\<close> carries the elements
  \<open>payload w\<close>; \<open>ok\<close> is the representation invariant.
\<close>

locale tail_buffer =
  fixes put :: "'b \<Rightarrow> 'w \<Rightarrow> 'b"
    and payload :: "'w \<Rightarrow> 'a list"
    and contents :: "'b \<Rightarrow> 'a list"
    and lost :: "'b \<Rightarrow> bool"
    and ok :: "'b \<Rightarrow> bool"
    and cap :: nat
  assumes ok_put: "ok b \<Longrightarrow> ok (put b w)"
    and contents_put: "ok b \<Longrightarrow> contents (put b w) = last_n cap (contents b @ payload w)"
    and lost_put:
      "ok b \<Longrightarrow> lost (put b w) \<longleftrightarrow> lost b \<or> cap < length (contents b) + length (payload w)"
    and contents_bound: "ok b \<Longrightarrow> length (contents b) \<le> cap"
begin

lemma ok_puts: "ok b \<Longrightarrow> ok (fold (\<lambda>w b. put b w) ws b)"
  by (induction ws arbitrary: b) (auto simp: ok_put)

lemma contents_puts:
  "ok b \<Longrightarrow> contents (fold (\<lambda>w b. put b w) ws b) =
     last_n cap (contents b @ concat (map payload ws))"
proof (induction ws arbitrary: b)
  case Nil
  then show ?case by (simp add: contents_bound)
next
  case (Cons w ws)
  then show ?case by (simp add: ok_put contents_put)
qed

text \<open>The flag is exact: it is set when, and only when, more than \<open>cap\<close> elements went by.\<close>

lemma lost_puts:
  "ok b \<Longrightarrow> lost (fold (\<lambda>w b. put b w) ws b) \<longleftrightarrow>
     lost b \<or> cap < length (contents b) + length (concat (map payload ws))"
proof (induction ws arbitrary: b)
  case Nil
  then show ?case using contents_bound [of b] by auto
next
  case (Cons w ws)
  then show ?case by (auto simp: ok_put contents_put lost_put)
qed

end

text \<open>The ring's invariant: the write position is in range and \<open>tail\<close> reads it in order.\<close>

definition ring_ok :: "usageCapture \<Rightarrow> bool" where
  "ring_ok c \<longleftrightarrow>
     cap_stream c \<and> tailNext c < maxSSEUsageTail \<and> tailSize c \<le> maxSSEUsageTail \<and>
     (tailSize c < maxSSEUsageTail \<longrightarrow> tailNext c = tailSize c \<and> \<not> tailTruncated c) \<and>
     (case cap_body c of None \<Rightarrow> tailSize c = 0 | Some b \<Rightarrow> length b = maxSSEUsageTail)"

lemma ring_ok_new [simp]: "ring_ok (new_capture True)"
  by (simp add: ring_ok_def new_capture_def)

lemma tail_new [simp]: "tail (new_capture st) = []"
  by (simp add: tail_def new_capture_def)

text \<open>With the buffer allocated, \<open>tail\<close> is the rotation of the buffer at the write position.\<close>

lemma tail_rotate:
  assumes "length (body_bytes c) = maxSSEUsageTail" "tailNext c < maxSSEUsageTail"
  shows "tail c = (if tailSize c < maxSSEUsageTail then take (tailSize c) (body_bytes c)
                   else drop (tailNext c) (body_bytes c) @ take (tailNext c) (body_bytes c))"
  using assms by (simp add: tail_def copy_at_def Let_def)

lemma ring_ok_length_tail: "ring_ok c \<Longrightarrow> length (tail c) = tailSize c"
  by (auto simp: ring_ok_def tail_def copy_at_def body_bytes_def Let_def split: option.splits)

text \<open>
  The two copies of the short-write branch on a bare buffer: rotated at the new position, the
  buffer is the old rotation with \<open>p\<close> appended and the oldest bytes dropped.
\<close>

lemma ring_write_fits:
  assumes "length buf = N" "k + length p \<le> N"
  shows "copy_at (copy_at buf k p) 0 (drop (min (N - k) (length p)) p) =
           take k buf @ p @ drop (k + length p) buf"
proof -
  have "min (N - k) (length p) = length p" using assms by simp
  with assms show ?thesis by (simp add: copy_at_fits)
qed

lemma ring_write_wraps:
  assumes "length buf = N" "k < N" "length p < N" "N < k + length p"
  shows "copy_at (copy_at buf k p) 0 (drop (min (N - k) (length p)) p) =
           drop (N - k) p @ drop (k + length p - N) (take k buf) @ take (N - k) p"
proof -
  have n: "min (N - k) (length p) = N - k" using assms by simp
  have b1: "copy_at buf k p = take k buf @ take (N - k) p"
    using assms by (simp add: copy_at_over)
  have "copy_at (take k buf @ take (N - k) p) 0 (drop (N - k) p) =
          drop (N - k) p @ drop (length p - (N - k)) (take k buf @ take (N - k) p)"
    using assms by (simp add: copy_at_fits)
  moreover have "length p - (N - k) = k + length p - N" using assms by simp
  moreover have "k + length p - N \<le> k" using assms by simp
  ultimately show ?thesis using n b1 assms by simp
qed

lemma ring_write_length:
  assumes "length buf = N" "k < N"
  shows "length (copy_at (copy_at buf k p) 0 xs) = N"
  using assms by simp

lemma ring_write_rotate:
  assumes "length buf = N" "k < N" "length p < N"
    and "b2 = copy_at (copy_at buf k p) 0 (drop (min (N - k) (length p)) p)"
    and "k' = (k + length p) mod N"
  shows "drop k' b2 @ take k' b2 = last_n N (drop k buf @ take k buf @ p)"
proof (cases "k + length p < N")
  case True
  with assms have "k' = k + length p" by simp
  moreover have "b2 = take k buf @ p @ drop (k + length p) buf"
    unfolding assms(4) using assms(1) True by (intro ring_write_fits) auto
  ultimately show ?thesis
    using True assms(1) by (simp add: last_n_def add.commute)
next
  case False
  show ?thesis
  proof (cases "k + length p = N")
    case True
    with assms have "k' = 0" by simp
    moreover have "b2 = take k buf @ p @ drop (k + length p) buf"
      unfolding assms(4) using assms(1) True by (intro ring_write_fits) auto
    moreover from True have "length p = N - k" by simp
    ultimately show ?thesis using True assms by (simp add: last_n_def)
  next
    case neq: False
    with False have wrap: "N < k + length p" by simp
    from wrap assms have k': "k' = k + length p - N" by (simp add: mod_if)
    have b2: "b2 = drop (N - k) p @ drop (k + length p - N) (take k buf) @ take (N - k) p"
      unfolding assms(4) using assms(1-3) wrap by (rule ring_write_wraps)
    have len: "length (drop (N - k) p) = k'" using k' wrap assms by simp
    have "drop k' b2 = drop k' (take k buf) @ take (N - k) p"
      unfolding b2 k' [symmetric] using len by simp
    moreover have "take k' b2 = drop (N - k) p"
      unfolding b2 k' [symmetric] using len by simp
    ultimately have "drop k' b2 @ take k' b2 = drop k' (take k buf) @ p" by simp
    moreover have "last_n N (drop k buf @ take k buf @ p) = drop k' (take k buf) @ p"
      using k' wrap assms by (simp add: last_n_def add.commute)
    ultimately show ?thesis by simp
  qed
qed

lemma ring_alloc_ok:
  assumes "ring_ok c"
  shows "ring_ok (ring_alloc c)" "tail (ring_alloc c) = tail c"
    "length (body_bytes (ring_alloc c)) = maxSSEUsageTail"
    "tailNext (ring_alloc c) = tailNext c" "tailSize (ring_alloc c) = tailSize c"
    "tailTruncated (ring_alloc c) = tailTruncated c" "cap_stream (ring_alloc c) = cap_stream c"
  using assms
  by (auto simp: ring_ok_def ring_alloc_def tail_def body_bytes_def split: option.splits)

lemma observe_stream_ok:
  assumes "ring_ok c"
  shows "ring_ok (observe_stream c p)"
proof -
  note a = ring_alloc_ok [OF assms]
  show ?thesis
    using a(1,3) by (simp add: observe_stream_def Let_def ring_ok_def min_def split: option.splits)
qed

lemma observe_stream_tail:
  assumes "ring_ok c"
  shows "tail (observe_stream c p) = last_n maxSSEUsageTail (tail c @ p)"
proof -
  define d where "d = ring_alloc c"
  note a = ring_alloc_ok [OF assms, folded d_def]
  let ?N = maxSSEUsageTail
  let ?buf = "body_bytes d"
  have next_lt: "tailNext d < ?N" and size_le: "tailSize d \<le> ?N"
    and small: "tailSize d < ?N \<Longrightarrow> tailNext d = tailSize d"
    using a(1) by (auto simp: ring_ok_def)
  show ?thesis
  proof (cases "?N \<le> length p")
    case True
    then have "tail (observe_stream c p) = last_n ?N p"
      using a(3)
      by (simp add: observe_stream_def Let_def d_def [symmetric] tail_rotate body_bytes_def
          copy_at_def last_n_def)
    with True show ?thesis by (simp add: last_n_append_long)
  next
    case False
    define k' where "k' = (tailNext d + length p) mod ?N"
    define b2 where
      "b2 = copy_at (copy_at ?buf (tailNext d) p) 0 (drop (min (?N - tailNext d) (length p)) p)"
    have len: "length b2 = ?N" unfolding b2_def using a(3) next_lt by simp
    have "k' < ?N" by (simp add: k'_def)
    then have tail': "tail (observe_stream c p) =
        (if tailSize d + length p < ?N then take (tailSize d + length p) b2
         else drop k' b2 @ take k' b2)"
    proof -
      let ?e = "observe_stream c p"
      have "body_bytes ?e = b2" "tailNext ?e = k'"
        "tailSize ?e = min ?N (tailSize d + length p)"
        using False a(3)
        by (simp_all add: observe_stream_def Let_def d_def [symmetric] body_bytes_def b2_def k'_def)
      with len \<open>k' < ?N\<close> show ?thesis by (simp add: tail_rotate min_def)
    qed
    have rot: "drop k' b2 @ take k' b2 = last_n ?N (drop (tailNext d) ?buf @ take (tailNext d) ?buf @ p)"
      using ring_write_rotate [OF a(3) next_lt _ b2_def k'_def] False by simp
    show ?thesis
    proof (cases "tailSize d < ?N")
      case short: True
      note [simp] = small [OF short]
      have told: "tail c = take (tailSize d) ?buf"
        using a(2) short a(3) next_lt by (simp add: tail_rotate)
      show ?thesis
      proof (cases "tailSize d + length p < ?N")
        case True
        then show ?thesis
          using tail' told a(3) by (simp add: b2_def copy_at_fits)
      next
        case full: False
        then have "last_n ?N (drop (tailNext d) ?buf @ take (tailNext d) ?buf @ p) =
                   last_n ?N (take (tailNext d) ?buf @ p)"
          using a(3) short by (intro last_n_append_long) simp
        with full show ?thesis using tail' rot told by simp
      qed
    next
      case False
      have "tail c = drop (tailNext d) ?buf @ take (tailNext d) ?buf"
        using tail_rotate [OF a(3)] next_lt a(2) False by simp
      with False show ?thesis using tail' rot by simp
    qed
  qed
qed

lemma observe_stream_lost:
  assumes "ring_ok c"
  shows "tailTruncated (observe_stream c p) \<longleftrightarrow>
           tailTruncated c \<or> maxSSEUsageTail < length (tail c) + length p"
proof -
  note a = ring_alloc_ok [OF assms]
  show ?thesis
    using a(4-6) ring_ok_length_tail [OF assms] assms
    by (auto simp: observe_stream_def Let_def ring_ok_def)
qed

interpretation ring: tail_buffer observe_stream id tail tailTruncated ring_ok maxSSEUsageTail
proof unfold_locales
  fix c and p :: bytes
  assume "ring_ok c"
  then show "ring_ok (observe_stream c p)"
    and "tail (observe_stream c p) = last_n maxSSEUsageTail (tail c @ id p)"
    and "tailTruncated (observe_stream c p) \<longleftrightarrow>
           tailTruncated c \<or> maxSSEUsageTail < length (tail c) + length (id p)"
    by (simp_all add: observe_stream_ok observe_stream_tail observe_stream_lost)
next
  fix c
  assume "ring_ok c"
  then show "length (tail c) \<le> maxSSEUsageTail"
    by (simp add: ring_ok_length_tail) (simp add: ring_ok_def)
qed

subsection \<open>Whole responses\<close>

text \<open>
  A response is the sequence of results of \<open>Read\<close>. Only the bytes matter to the captured
  text, and only the EOF marks to \<open>eof\<close>: an empty read does not call \<open>observe\<close>, and
  observing nothing would change nothing that can be read back.
\<close>

definition read_bytes :: "(bytes \<times> bool) list \<Rightarrow> bytes" where
  "read_bytes rs = concat (map fst rs)"

lemma read_bytes_simps [simp]:
  "read_bytes [] = []" "read_bytes (r # rs) = fst r @ read_bytes rs"
  by (simp_all add: read_bytes_def)

lemma body_reads_simps [simp]:
  "body_reads [] c = c" "body_reads (r # rs) c = body_reads rs (body_read c r)"
  by (simp_all add: body_reads_def)

lemma observe_frame [simp]:
  "cap_stream (observe c p) = cap_stream c" "cap_status (observe c p) = cap_status c"
  "cap_eof (observe c p) = cap_eof c"
  by (simp_all add: observe_def observe_json_def observe_stream_def ring_alloc_def Let_def)

lemma body_read_frame [simp]:
  "cap_stream (body_read c r) = cap_stream c" "cap_status (body_read c r) = cap_status c"
  "cap_eof (body_read c r) \<longleftrightarrow> cap_eof c \<or> snd r"
  by (simp_all add: body_read_def Let_def split: prod.split)

lemma body_reads_frame [simp]:
  "cap_stream (body_reads rs c) = cap_stream c" "cap_status (body_reads rs c) = cap_status c"
  "cap_eof (body_reads rs c) \<longleftrightarrow> cap_eof c \<or> (\<exists>r \<in> set rs. snd r)"
  by (induction rs arbitrary: c) auto

text \<open>
  \<open>Read\<close> skips \<open>observe\<close> for an empty read and records EOF; neither is visible in the
  tail, so the wrapped body is a bounded tail buffer too, with each read as a write.
\<close>

lemma ring_eof [simp]:
  "ring_ok (c\<lparr>cap_eof := True\<rparr>) = ring_ok c" "tail (c\<lparr>cap_eof := True\<rparr>) = tail c"
  by (simp_all add: ring_ok_def tail_def body_bytes_def split: option.split)

lemma body_read_stream:
  "cap_stream c \<Longrightarrow> body_read c (p, e) =
     (let d = (if p = [] then c else observe_stream c p) in if e then d\<lparr>cap_eof := True\<rparr> else d)"
  by (simp add: body_read_def observe_def Let_def)

interpretation reads: tail_buffer body_read fst tail tailTruncated ring_ok maxSSEUsageTail
proof unfold_locales
  fix c and r :: "bytes \<times> bool"
  assume c: "ring_ok c"
  then have st: "cap_stream c" by (simp add: ring_ok_def)
  have bound: "length (tail c) \<le> maxSSEUsageTail" using c by (rule ring.contents_bound)
  show "ring_ok (body_read c r)"
    and "tail (body_read c r) = last_n maxSSEUsageTail (tail c @ fst r)"
    and "tailTruncated (body_read c r) \<longleftrightarrow>
           tailTruncated c \<or> maxSSEUsageTail < length (tail c) + length (fst r)"
    using c bound ring.ok_put [OF c, of "fst r"] ring.contents_put [OF c, of "fst r"]
      ring.lost_put [OF c, of "fst r"]
    by (cases r; auto simp: body_read_stream [OF st] Let_def)+
next
  fix c
  show "ring_ok c \<Longrightarrow> length (tail c) \<le> maxSSEUsageTail" by (rule ring.contents_bound)
qed

lemmas ring_reads = reads.ok_puts [folded body_reads_def]
lemmas tail_reads = reads.contents_puts [folded body_reads_def read_bytes_def]
lemmas tailTruncated_reads = reads.lost_puts [folded body_reads_def read_bytes_def]

text \<open>The JSON mode: all bytes up to the limit, then nothing.\<close>

definition json_ok :: "usageCapture \<Rightarrow> bool" where
  "json_ok c \<longleftrightarrow> \<not> cap_stream c \<and> length (body_bytes c) \<le> maxJSONUsageResponse \<and>
     (cap_overflow c \<longrightarrow> cap_body c = None)"

lemma body_read_json:
  assumes "json_ok c"
  shows "json_ok (body_read c r)"
    "cap_overflow (body_read c r) \<longleftrightarrow>
       cap_overflow c \<or> maxJSONUsageResponse < length (body_bytes c) + length (fst r)"
    "body_bytes (body_read c r) = (if cap_overflow (body_read c r) then [] else body_bytes c @ fst r)"
  using assms
  by (auto simp: json_ok_def body_read_def observe_def observe_json_def body_bytes_def
      append_slice_def Let_def split: prod.splits option.splits)

lemma json_reads:
  assumes "json_ok c"
  shows "cap_overflow (body_reads rs c) \<longleftrightarrow>
       cap_overflow c \<or> maxJSONUsageResponse < length (body_bytes c) + length (read_bytes rs)"
    "body_bytes (body_reads rs c) =
       (if cap_overflow (body_reads rs c) then [] else body_bytes c @ read_bytes rs)"
proof -
  have "(cap_overflow (body_reads rs c) \<longleftrightarrow>
       cap_overflow c \<or> maxJSONUsageResponse < length (body_bytes c) + length (read_bytes rs)) \<and>
    body_bytes (body_reads rs c) =
       (if cap_overflow (body_reads rs c) then [] else body_bytes c @ read_bytes rs)"
    using assms
  proof (induction rs arbitrary: c)
    case Nil
    then show ?case by (auto simp: json_ok_def body_bytes_def)
  next
    case (Cons r rs)
    from Cons.IH [OF body_read_json(1) [OF Cons.prems, of r]]
    show ?case using body_read_json(2,3) [OF Cons.prems, of r] by auto
  qed
  then show "cap_overflow (body_reads rs c) \<longleftrightarrow>
       cap_overflow c \<or> maxJSONUsageResponse < length (body_bytes c) + length (read_bytes rs)"
    and "body_bytes (body_reads rs c) =
       (if cap_overflow (body_reads rs c) then [] else body_bytes c @ read_bytes rs)"
    by blast+
qed

subsection \<open>The scan against a declarative reading of the stream\<close>

text \<open>
  What the loop means. \<open>data_lines\<close> are the payloads of the \<open>data:\<close> lines;
  \<open>valid_usages\<close> the valid usage objects among them, in order. The reference reading of a
  whole stream is: it must end with a blank line, its last data line must be \<open>[DONE]\<close>, and
  its usage is the last valid one.
\<close>

definition line_data :: "bytes \<Rightarrow> bytes option" where
  "line_data line =
     (let l = trimSuffix line [CHR 0x0D] in
      if hasPrefix l ''data:'' then Some (trimSpace (drop (length ''data:'') l)) else None)"

definition data_lines :: "bytes list \<Rightarrow> bytes list" where
  "data_lines ls = List.map_filter line_data ls"

definition event_usage :: "usage_decoder \<Rightarrow> bytes \<Rightarrow> tokenUsage option" where
  "event_usage decode d =
     (if d = ''[DONE]'' then None
      else case decode d of Some u \<Rightarrow> (if validUsage u then u else None) | None \<Rightarrow> None)"

definition valid_usages :: "usage_decoder \<Rightarrow> bytes list \<Rightarrow> tokenUsage list" where
  "valid_usages decode ds = List.map_filter (event_usage decode) ds"

definition lines_usage :: "usage_decoder \<Rightarrow> bytes list \<Rightarrow> tokenUsage option" where
  "lines_usage decode ls =
     (let ds = data_lines ls; us = valid_usages decode ds
      in if ds \<noteq> [] \<and> last ds = ''[DONE]'' \<and> us \<noteq> [] then Some (last us) else None)"

definition stream_usage_spec :: "usage_decoder \<Rightarrow> bytes \<Rightarrow> tokenUsage option" where
  "stream_usage_spec decode t =
     (if blank_line_end t then lines_usage decode (butlast (split_on (CHR 0x0A) t)) else None)"

lemma data_lines_append [simp]: "data_lines (xs @ ys) = data_lines xs @ data_lines ys"
  by (simp add: data_lines_def map_filter_def)

lemma valid_usages_append [simp]:
  "valid_usages decode (xs @ ys) = valid_usages decode xs @ valid_usages decode ys"
  by (simp add: valid_usages_def map_filter_def)

lemma data_lines_single:
  "data_lines [l] = (case line_data l of None \<Rightarrow> [] | Some d \<Rightarrow> [d])"
  by (simp add: data_lines_def map_filter_def split: option.split)

lemma valid_usages_single:
  "valid_usages decode [d] = (case event_usage decode d of None \<Rightarrow> [] | Some u \<Rightarrow> [u])"
  by (simp add: valid_usages_def map_filter_def split: option.split)

lemma validUsage_event: "event_usage decode d = Some u \<Longrightarrow> validUsage (Some u)"
  by (auto simp: event_usage_def split: if_splits option.splits)

lemma valid_usages_valid: "u \<in> set (valid_usages decode ds) \<Longrightarrow> validUsage (Some u)"
  by (auto simp: valid_usages_def map_filter_def dest: validUsage_event)

lemma validUsage_None [simp]: "\<not> validUsage None"
  by (simp add: validUsage_def)

text \<open>One turn of the loop, in terms of the line's payload.\<close>

lemma scan_line_eq:
  "scan_line decode l (usage, dn) =
     (case line_data l of
        None \<Rightarrow> (usage, dn)
      | Some d \<Rightarrow>
          if d = ''[DONE]'' then (usage, validUsage usage)
          else (case event_usage decode d of None \<Rightarrow> usage | Some u \<Rightarrow> Some u, False))"
  by (auto simp: scan_line_def line_data_def event_usage_def Let_def split: option.split)

lemma scan_lines_eq:
  "scan_lines decode ls (None, False) =
     (let ds = data_lines ls; us = valid_usages decode ds
      in (if us = [] then None else Some (last us),
          ds \<noteq> [] \<and> last ds = ''[DONE]'' \<and> us \<noteq> []))"
proof (induction ls rule: rev_induct)
  case Nil
  show ?case by (simp add: scan_lines_def data_lines_def valid_usages_def map_filter_def)
next
  case (snoc l ls)
  have step: "scan_lines decode (ls @ [l]) (None, False) =
      scan_line decode l (scan_lines decode ls (None, False))"
    by (simp add: scan_lines_def)
  show ?case
  proof (cases "line_data l")
    case None
    then show ?thesis
      using snoc by (simp add: step scan_line_eq data_lines_single Let_def)
  next
    case (Some d)
    let ?us = "valid_usages decode (data_lines ls)"
    have "validUsage (Some (last ?us))" if "?us \<noteq> []"
      using that valid_usages_valid last_in_set by blast
    moreover have "event_usage decode ''[DONE]'' = None" by (simp add: event_usage_def)
    ultimately show ?thesis
      using snoc Some
      by (auto simp: step scan_line_eq data_lines_single valid_usages_single Let_def
          split: option.split)
  qed
qed

lemma blank_line_end_newline: "blank_line_end t \<Longrightarrow> suffix [CHR 0x0A] t"
  by (auto simp: blank_line_end_def hasSuffix_iff suffix_def)

lemma last_drop_split:
  assumes "blank_line_end t"
  shows "drop 1 (split_on (CHR 0x0A) t) \<noteq> []" "last (drop 1 (split_on (CHR 0x0A) t)) = []"
proof -
  from blank_line_end_newline [OF assms] obtain w where t: "t = w @ [CHR 0x0A]"
    by (auto simp: suffix_def)
  have "split_on (CHR 0x0A) t = split_on (CHR 0x0A) w @ [[]]"
    by (simp add: t split_on_append_sep)
  then show "drop 1 (split_on (CHR 0x0A) t) \<noteq> []" "last (drop 1 (split_on (CHR 0x0A) t)) = []"
    by (cases "split_on (CHR 0x0A) w"; simp)+
qed

lemma streamUsage_lines:
  "streamUsage decode c =
     (if blank_line_end (tail c)
      then lines_usage decode
        (butlast (drop (if tailTruncated c then 1 else 0) (split_on (CHR 0x0A) (tail c))))
      else None)"
proof -
  have "last (split_on (CHR 0x0A) (tail c)) = []" if "blank_line_end (tail c)"
    using that by (intro last_split_on_suffix_sep blank_line_end_newline)
  then show ?thesis
    using last_drop_split [of "tail c"]
    by (auto simp: streamUsage_def scan_lines_eq lines_usage_def Let_def)
qed

lemma lines_usage_mono:
  assumes "suffix ls ls'" "lines_usage decode ls = Some u"
  shows "lines_usage decode ls' = Some u"
proof -
  from assms(1) obtain xs where "ls' = xs @ ls" by (auto simp: suffix_def)
  with assms(2) show ?thesis by (auto simp: lines_usage_def Let_def split: if_splits)
qed

lemma suffix_butlast: "suffix xs ys \<Longrightarrow> xs \<noteq> [] \<Longrightarrow> suffix (butlast xs) (butlast ys)"
  by (auto simp: suffix_def butlast_append)

lemma blank_line_end_last_n: "blank_line_end (last_n maxSSEUsageTail t) = blank_line_end t"
  by (simp add: blank_line_end_def hasSuffix_iff suffix_last_n
      order.trans [OF _ maxSSEUsageTail_bounds(2)])

text \<open>A capture as \<open>ModifyResponse\<close> leaves it before the first read.\<close>

definition start_capture :: "int \<Rightarrow> bool \<Rightarrow> usageCapture" where
  "start_capture st strm = (new_capture strm)\<lparr>cap_status := st\<rparr>"

lemma start_capture_simps [simp]:
  "cap_status (start_capture st m) = st" "cap_stream (start_capture st m) = m"
  "cap_eof (start_capture st m) = False" "cap_overflow (start_capture st m) = False"
  "body_bytes (start_capture st m) = []" "tail (start_capture st m) = []"
  "tailTruncated (start_capture st m) = False"
  by (simp_all add: start_capture_def new_capture_def body_bytes_def tail_def)

lemma ring_ok_start [simp]: "ring_ok (start_capture st True)"
  by (simp add: ring_ok_def start_capture_def new_capture_def)

lemma json_ok_start [simp]: "json_ok (start_capture st False)"
  by (simp add: json_ok_def start_capture_def new_capture_def body_bytes_def)

lemma streamUsage_reads:
  "streamUsage decode (body_reads rs (start_capture st True)) =
     (let b = read_bytes rs in
      if blank_line_end b
      then lines_usage decode
        (butlast (drop (if maxSSEUsageTail < length b then 1 else 0)
          (split_on (CHR 0x0A) (last_n maxSSEUsageTail b))))
      else None)"
  by (simp add: streamUsage_lines tail_reads tailTruncated_reads blank_line_end_last_n Let_def)

text \<open>What a captured response can be read from: nothing but its bytes and whether it ended.\<close>

lemma captured_usage_reads:
  "captured_usage decode (body_reads rs (start_capture st strm)) =
     (if strm then streamUsage decode (body_reads rs (start_capture st True))
      else case decode (if maxJSONUsageResponse < length (read_bytes rs) then [] else read_bytes rs)
             of Some u \<Rightarrow> u | None \<Rightarrow> None)"
  by (simp add: captured_usage_def json_reads)

lemma overflow_reads:
  "cap_overflow (body_reads rs (start_capture st strm)) \<longleftrightarrow>
     \<not> strm \<and> maxJSONUsageResponse < length (read_bytes rs)"
proof (cases strm)
  case True
  have "cap_overflow (body_read c r) = cap_overflow c" if "cap_stream c" for c r
    using that
    by (cases r) (simp add: body_read_stream observe_stream_def ring_alloc_def Let_def)
  then have "cap_overflow (body_reads rs c) = cap_overflow c" if "cap_stream c" for c
    using that by (induction rs arbitrary: c) auto
  with True show ?thesis by simp
next
  case False
  then show ?thesis by (simp add: json_reads)
qed

subsection \<open>A concrete stream\<close>

text \<open>A usage event and the end marker, cut into three reads; used by the witnesses.\<close>

definition demo_usage :: tokenUsage where
  "demo_usage = \<lparr>PromptTokens = Some 7, CompletionTokens = Some 4\<rparr>"

definition demo_decode :: usage_decoder where
  "demo_decode d = (if d = ''U'' then Some (Some demo_usage) else None)"

definition demo_reads :: "(bytes \<times> bool) list" where
  "demo_reads =
     [(''data: U'', False), ([CHR 0x0A, CHR 0x0A], False),
      (''data: [DONE]'' @ [CHR 0x0A, CHR 0x0A], True)]"

definition demo_text :: bytes where
  "demo_text = ''data: U'' @ [CHR 0x0A, CHR 0x0A] @ ''data: [DONE]'' @ [CHR 0x0A, CHR 0x0A]"

lemma demo_bytes: "read_bytes demo_reads = demo_text"
  by (simp add: demo_reads_def demo_text_def)

lemma demo_short: "length demo_text < maxSSEUsageTail"
  by (simp add: demo_text_def maxSSEUsageTail_def)

lemma demo_lines: "data_lines (butlast (split_on (CHR 0x0A) demo_text)) = [''U'', ''[DONE]'']"
  by code_simp

lemma demo_blank: "blank_line_end demo_text"
  by code_simp

lemma demo_usages: "valid_usages demo_decode [''U'', ''[DONE]''] = [demo_usage]"
  by (simp add: valid_usages_def map_filter_def event_usage_def demo_decode_def demo_usage_def
      validUsage_def)

lemma demo_spec: "stream_usage_spec demo_decode demo_text = Some demo_usage"
  by (simp add: stream_usage_spec_def lines_usage_def demo_lines demo_blank demo_usages)

subsection \<open>Properties\<close>

text \<open>
  C10: a stream never yields a usage that the whole stream does not state. Whatever the chunking
  and however much of the stream the 64 KiB ring has lost, if \<open>streamUsage\<close> returns a usage,
  the declarative reading of the complete, unbounded stream gives the same usage.
\<close>
theorem streamed_usage_sound:
  assumes "streamUsage decode (body_reads rs (start_capture st True)) = Some u"
  shows "stream_usage_spec decode (read_bytes rs) = Some u"
proof -
  let ?b = "read_bytes rs" and ?nl = "CHR 0x0A"
  let ?ls = "drop (if maxSSEUsageTail < length ?b then 1 else 0)
    (split_on ?nl (last_n maxSSEUsageTail ?b))"
  from assms have bl: "blank_line_end ?b" and u: "lines_usage decode (butlast ?ls) = Some u"
    by (auto simp: streamUsage_reads Let_def split: if_splits)
  have "suffix ?ls (split_on ?nl ?b)"
    using tl_split_on_suffix [OF last_n_suffix, of ?nl] by (auto simp: drop_Suc)
  moreover have "?ls \<noteq> []"
    using last_drop_split(1) bl by (simp add: blank_line_end_last_n)
  ultimately have "suffix (butlast ?ls) (butlast (split_on ?nl ?b))"
    by (rule suffix_butlast)
  from lines_usage_mono [OF this u] bl show ?thesis by (simp add: stream_usage_spec_def)
qed

theorem streamed_usage_sound_witness:
  "streamUsage demo_decode (body_reads demo_reads (start_capture 200 True)) = Some demo_usage \<and>
   stream_usage_spec demo_decode (read_bytes demo_reads) = Some demo_usage"
proof -
  have u: "streamUsage demo_decode (body_reads demo_reads (start_capture 200 True)) = Some demo_usage"
    using demo_spec demo_short
    by (simp add: streamUsage_reads demo_bytes demo_blank stream_usage_spec_def)
  then show ?thesis using streamed_usage_sound [OF u] by simp
qed

text \<open>
  the bound costs nothing on a well-formed stream. If the part of the stream after some line
  break is shorter than 64 KiB and by itself states a usage and ends with \<open>[DONE]\<close>, then the
  capture reports exactly that usage, however long the stream before it was.
\<close>
theorem streamed_usage_complete:
  assumes "read_bytes rs = pre @ CHR 0x0A # suf" and "length suf < maxSSEUsageTail"
    and "stream_usage_spec decode suf = Some u"
  shows "streamUsage decode (body_reads rs (start_capture st True)) = Some u"
proof -
  let ?b = "read_bytes rs" and ?nl = "CHR 0x0A"
  let ?t = "last_n maxSSEUsageTail ?b"
  from assms(3) have bl: "blank_line_end suf"
    and u: "lines_usage decode (butlast (split_on ?nl suf)) = Some u"
    by (auto simp: stream_usage_spec_def split: if_splits)
  from bl have "blank_line_end ?b"
    by (auto simp: assms(1) blank_line_end_def hasSuffix_iff intro: suffix_ConsI suffix_appendI)
  moreover have "suffix (?nl # suf) ?t"
    using assms(1,2) by (subst suffix_last_n) (auto simp: suffix_def)
  then obtain w where "?t = w @ ?nl # suf" by (auto simp: suffix_def)
  then have "suffix (split_on ?nl suf) (drop k (split_on ?nl ?t))" if "k \<le> 1" for k
    using that by (cases "split_on ?nl w"; cases k) (auto simp: split_on_append_sep suffix_def)
  then have "suffix (butlast (split_on ?nl suf)) (butlast (drop k (split_on ?nl ?t)))"
    if "k \<le> 1" for k
    using that by (intro suffix_butlast) auto
  ultimately show ?thesis
    using lines_usage_mono [OF _ u] by (simp add: streamUsage_reads Let_def)
qed

theorem streamed_usage_complete_witness:
  "streamUsage demo_decode
     (body_reads (([CHR 0x0A], False) # demo_reads) (start_capture 200 True)) = Some demo_usage"
proof (rule streamed_usage_complete)
  show "read_bytes (([CHR 0x0A], False) # demo_reads) = [] @ CHR 0x0A # demo_text"
    by (simp add: demo_bytes)
qed (fact demo_short demo_spec)+

text \<open>
  After any sequence of reads the stream capture holds exactly the last 64 KiB of the bytes
  read, and \<open>tailTruncated\<close> is set exactly when more than 64 KiB went by.
\<close>
theorem stream_tail_exact:
  "tail (body_reads rs (start_capture st True)) = last_n maxSSEUsageTail (read_bytes rs) \<and>
   (tailTruncated (body_reads rs (start_capture st True)) \<longleftrightarrow>
      maxSSEUsageTail < length (read_bytes rs))"
  by (simp add: tail_reads tailTruncated_reads)

text \<open>
  what is recorded for a response depends on its bytes and on whether it ended, never on how
  the reverse proxy happened to cut it into reads.
\<close>
theorem result_chunking:
  assumes "read_bytes rs = read_bytes rs'" and "True \<in> snd ` set rs \<longleftrightarrow> True \<in> snd ` set rs'"
  shows "result decode (body_reads rs (start_capture st strm)) i =
         result decode (body_reads rs' (start_capture st strm)) i"
proof -
  have "captured_usage decode (body_reads rs (start_capture st strm)) =
        captured_usage decode (body_reads rs' (start_capture st strm))"
    by (simp add: captured_usage_reads streamUsage_reads assms(1))
  moreover have "cap_eof (body_reads rs (start_capture st strm)) =
                 cap_eof (body_reads rs' (start_capture st strm))"
    using assms(2) by (force simp: image_iff)
  ultimately show ?thesis
    by (simp only: result_def overflow_reads assms(1) body_reads_frame(2) start_capture_simps(1))
qed

theorem result_chunking_witness:
  "result demo_decode (body_reads demo_reads (start_capture 200 True)) False =
   result demo_decode (body_reads [(demo_text, True)] (start_capture 200 True)) False"
  by (rule result_chunking) (simp_all add: demo_reads_def demo_text_def)

text \<open>
  The interface to the usage ledger. The outcome is one of the three the ledger accepts;
  the outcome is \<open>complete\<close> exactly for an uninterrupted 2xx response that was read to the
  end without overflow and states a valid usage; token counts are present exactly then, and
  they are not negative.
\<close>
theorem result_contract:
  "case result decode c i of (st, outcome, p, q) \<Rightarrow>
     st = cap_status c \<and> outcome \<in> {''complete'', ''incomplete'', ''failed''} \<and>
     (outcome = ''complete'' \<longleftrightarrow>
        \<not> i \<and> 200 \<le> st \<and> st < 300 \<and> cap_eof c \<and> \<not> cap_overflow c \<and>
        validUsage (captured_usage decode c)) \<and>
     (outcome = ''failed'' \<longleftrightarrow> \<not> i \<and> st \<noteq> 0 \<and> \<not> (200 \<le> st \<and> st < 300)) \<and>
     (p \<noteq> None \<longleftrightarrow> outcome = ''complete'') \<and> (q \<noteq> None \<longleftrightarrow> outcome = ''complete'') \<and>
     pred_option (\<lambda>n. 0 \<le> sint n) p \<and> pred_option (\<lambda>n. 0 \<le> sint n) q"
  by (cases "captured_usage decode c") (auto simp: result_def validUsage_def split: option.splits)

text \<open>
  Memory bound. Whatever the upstream sends, the capture of an ordinary response never holds
  more than 1 MiB and that of a stream never more than 64 KiB; an ordinary response is kept
  exactly when it fits, and dropped as a whole otherwise.
\<close>
theorem capture_bounded:
  "length (body_bytes (body_reads rs (start_capture st strm))) \<le>
     (if strm then maxSSEUsageTail else maxJSONUsageResponse) \<and>
   body_bytes (body_reads rs (start_capture st False)) =
     (if length (read_bytes rs) \<le> maxJSONUsageResponse then read_bytes rs else [])"
proof -
  have "length (body_bytes c) \<le> maxSSEUsageTail" if "ring_ok c" for c
    using that by (auto simp: ring_ok_def body_bytes_def split: option.splits)
  then show ?thesis by (auto simp: json_reads ring_reads)
qed

end
