(* ===== verification/Observability.thy ===== *)
theory Observability
  imports Http Usage_Capture
begin

text \<open>
  Request observation (\<open>gateway/observability.go\<close>): the per-request state, the metrics the
  gateway writes, the response writer that records the committed status, and the accounting at
  the end of a request. The wrapped \<open>http.ResponseWriter\<close> is the environment: what a write to
  it returned is an argument of the operation, and the calls that reach it are recorded in
  order.
\<close>

subsection \<open>Request state and metrics\<close>

record requestObservation =
  ob_id :: bytes
  ob_model :: bytes
  ob_backend :: bytes
  ob_routing :: bytes
  ob_outcome :: bytes
  ob_usage :: "usageCapture option"

definition new_observation :: "bytes \<Rightarrow> requestObservation" where
  "new_observation rid =
     \<lparr>ob_id = rid, ob_model = [], ob_backend = [], ob_routing = ''none'', ob_outcome = [],
      ob_usage = None\<rparr>"

text \<open>
  A label combination that was never touched has no series (\<open>None\<close>). A histogram is kept as its
  number of observations: the observed durations are the clock's.
\<close>

record metrics =
  mx_requests :: "bytes \<times> bytes \<times> bytes \<times> int \<times> bytes \<Rightarrow> nat option"
  mx_duration :: "bytes \<times> bytes \<times> bytes \<Rightarrow> nat option"
  mx_headers :: "bytes \<times> bytes \<Rightarrow> nat option"
  mx_inflight :: "bytes \<times> bytes \<Rightarrow> int option"
  mx_routed :: "bytes \<times> bytes \<times> bytes \<Rightarrow> nat option"
  mx_meteringErrors :: "bytes \<Rightarrow> nat option"
  mx_metered :: "bytes \<Rightarrow> nat option"
  mx_registryInfo :: "bytes \<Rightarrow> int option"
  mx_reloadErrors :: nat
  mx_backendHealthy :: "bytes \<times> bytes \<Rightarrow> int option"

definition no_metrics :: metrics where
  "no_metrics =
     \<lparr>mx_requests = Map.empty, mx_duration = Map.empty, mx_headers = Map.empty,
      mx_inflight = Map.empty, mx_routed = Map.empty,
      mx_meteringErrors = Map.empty, mx_metered = Map.empty, mx_registryInfo = Map.empty,
      mx_reloadErrors = 0, mx_backendHealthy = Map.empty\<rparr>"

text \<open>\<open>WithLabelValues(l)\<close> creates the series at 0; \<open>Inc\<close> and \<open>Add\<close> count on it.\<close>

definition with_label :: "('l \<Rightarrow> 'v::zero option) \<Rightarrow> 'l \<Rightarrow> ('l \<Rightarrow> 'v option)" where
  "with_label s l = (case s l of None \<Rightarrow> s(l \<mapsto> 0) | Some _ \<Rightarrow> s)"

definition add_label :: "('l \<Rightarrow> 'v::{zero,plus} option) \<Rightarrow> 'l \<Rightarrow> 'v \<Rightarrow> ('l \<Rightarrow> 'v option)" where
  "add_label s l d = s(l \<mapsto> (case s l of None \<Rightarrow> 0 | Some v \<Rightarrow> v) + d)"

lemma with_label_simps [simp]:
  "with_label s l l' = (if l' = l then Some (case s l of None \<Rightarrow> 0 | Some v \<Rightarrow> v) else s l')"
  by (auto simp: with_label_def split: option.split)

lemma add_label_simps [simp]:
  "add_label s l d l' = (if l' = l then Some ((case s l of None \<Rightarrow> 0 | Some v \<Rightarrow> v) + d) else s l')"
  by (simp add: add_label_def)

subsection \<open>The observed writer\<close>

text \<open>
  \<open>ow_sent\<close> is the header as it stood when the final status was committed (the wrapped
  writer takes its copy then); \<open>ow_calls\<close> are the calls made on the wrapped writer.
\<close>

datatype writer_call = CallWriteHeader int | CallWrite bytes | CallFlush

record observedWriter =
  ow_requestID :: bytes
  ow_status :: int
  ow_bytes :: int
  ow_writeFailed :: bool
  ow_header :: header
  ow_sent :: "header option"
  ow_calls :: "writer_call list"

definition new_writer :: "bytes \<Rightarrow> observedWriter" where
  "new_writer rid =
     \<lparr>ow_requestID = rid, ow_status = 0, ow_bytes = 0, ow_writeFailed = False,
      ow_header = hSet no_header ''X-Request-Id'' rid, ow_sent = None, ow_calls = []\<rparr>"

definition ow_WriteHeader :: "observedWriter \<Rightarrow> int \<Rightarrow> observedWriter" where
  "ow_WriteHeader w status =
     (if ow_status w \<noteq> 0 then w
      else
        let w1 = w\<lparr>ow_header := hSet (ow_header w) ''X-Request-Id'' (ow_requestID w),
                   ow_calls := ow_calls w @ [CallWriteHeader status]\<rparr>
        in if status \<ge> 200 \<or> status = 101 then w1\<lparr>ow_status := status, ow_sent := Some (ow_header w1)\<rparr> else w1)"

text \<open>The implicit 200 of a write or a flush before any status.\<close>

definition ow_commit :: "observedWriter \<Rightarrow> observedWriter" where
  "ow_commit w =
     (if ow_status w = 0
      then w\<lparr>ow_header := hSet (ow_header w) ''X-Request-Id'' (ow_requestID w),
             ow_sent := Some (hSet (ow_header w) ''X-Request-Id'' (ow_requestID w)),
             ow_status := 200\<rparr>
      else w)"

text \<open>\<open>n\<close> and \<open>err\<close> are what the wrapped writer returned for \<open>p\<close>.\<close>

definition ow_Write :: "observedWriter \<Rightarrow> bytes \<Rightarrow> nat \<Rightarrow> bool \<Rightarrow> observedWriter" where
  "ow_Write w p n err =
     (let w1 = ow_commit w in
      w1\<lparr>ow_calls := ow_calls w1 @ [CallWrite p], ow_bytes := ow_bytes w1 + int n,
         ow_writeFailed := (ow_writeFailed w1 \<or> err \<or> n \<noteq> length p)\<rparr>)"

definition ow_FlushError :: "observedWriter \<Rightarrow> bool \<Rightarrow> observedWriter" where
  "ow_FlushError w err =
     (let w1 = ow_commit w in
      w1\<lparr>ow_calls := ow_calls w1 @ [CallFlush], ow_writeFailed := (ow_writeFailed w1 \<or> err)\<rparr>)"

definition ow_snapshot :: "observedWriter \<Rightarrow> int \<times> int \<times> bool" where
  "ow_snapshot w = (ow_status w, ow_bytes w, ow_writeFailed w)"

datatype writer_op =
    OpWriteHeader int
  | OpWrite bytes nat bool
  | OpFlush bool
  | OpSetHeader bytes bytes

text \<open>
  What a handler does to the writer: the writer's methods, and setting headers of the shared
  header map in between.
\<close>

fun writer_step :: "observedWriter \<Rightarrow> writer_op \<Rightarrow> observedWriter" where
  "writer_step w (OpWriteHeader st) = ow_WriteHeader w st"
| "writer_step w (OpWrite p n err) = ow_Write w p n err"
| "writer_step w (OpFlush err) = ow_FlushError w err"
| "writer_step w (OpSetHeader k v) = w\<lparr>ow_header := hSet (ow_header w) k v\<rparr>"

definition writer_run :: "writer_op list \<Rightarrow> observedWriter \<Rightarrow> observedWriter" where
  "writer_run ops w = fold (\<lambda>a w. writer_step w a) ops w"

subsection \<open>The end of a request\<close>

datatype panic_value = NoPanic | AbortHandler | OtherPanic

text \<open>The \<open>switch\<close> that names the outcome; \<open>cancelled\<close> is \<open>r.Context().Err() != nil\<close>.\<close>

definition request_outcome :: "bool \<Rightarrow> panic_value \<Rightarrow> bool \<Rightarrow> bytes \<Rightarrow> int \<Rightarrow> bytes" where
  "request_outcome cancelled panicked writeFailed outcome status =
     (if cancelled then ''canceled''
      else if panicked = AbortHandler then ''stream_aborted''
      else if panicked \<noteq> NoPanic then ''panic''
      else if writeFailed then ''write_error''
      else if outcome = [] then (if status \<ge> 400 then ''http_error'' else ''completed'')
      else outcome)"

definition reported_status :: "int \<Rightarrow> bytes \<Rightarrow> int" where
  "reported_status status outcome = (if status = 0 \<and> outcome = ''completed'' then 200 else status)"

definition route_label :: "bytes \<Rightarrow> bytes" where
  "route_label pat =
     (if pat \<in> {''GET /health'', ''GET /models'', ''POST /v1/chat/completions'',
                ''POST /api/chat/completions''} then pat else ''unmatched'')"

text \<open>
  The deferred function of \<open>wrap\<close>: the metrics after the request, and the panic that is
  raised again. The log line and the value of the duration are left out.
\<close>

definition finish_request ::
    "bool \<Rightarrow> panic_value \<Rightarrow> bytes \<Rightarrow> requestObservation \<Rightarrow> observedWriter \<Rightarrow> metrics \<Rightarrow>
     metrics \<times> panic_value" where
  "finish_request cancelled panicked pat state w mx =
     (case ow_snapshot w of (status, sz, writeFailed) \<Rightarrow>
        let outcome = request_outcome cancelled panicked writeFailed (ob_outcome state) status;
            status' = reported_status status outcome
        in (mx\<lparr>mx_requests := add_label (mx_requests mx)
                 (route_label pat, ob_model state, ob_backend state, status', outcome) 1,
               mx_duration := add_label (mx_duration mx) (route_label pat, ob_model state, ob_backend state) 1\<rparr>,
            panicked))"

subsection \<open>The writer's contract\<close>

fun is_final :: "writer_call \<Rightarrow> bool" where
  "is_final (CallWriteHeader st) = (st \<ge> 200 \<or> st = 101)"
| "is_final _ = False"

fun op_bytes :: "writer_op \<Rightarrow> int" where
  "op_bytes (OpWrite p n err) = int n"
| "op_bytes _ = 0"

fun op_failed :: "writer_op \<Rightarrow> bool" where
  "op_failed (OpWrite p n err) = (err \<or> n \<noteq> length p)"
| "op_failed (OpFlush err) = err"
| "op_failed _ = False"

definition writer_ok :: "observedWriter \<Rightarrow> bool" where
  "writer_ok w \<longleftrightarrow>
     (ow_sent w = None \<longleftrightarrow> ow_status w = 0) \<and>
     pred_option (\<lambda>h. h ''X-Request-Id'' = [ow_requestID w]) (ow_sent w) \<and>
     length (filter is_final (ow_calls w)) \<le> (if ow_status w = 0 then 0 else 1)"

lemmas writer_defs = ow_WriteHeader_def ow_Write_def ow_FlushError_def ow_commit_def Let_def

lemma writer_ok_new: "writer_ok (new_writer rid)"
  by (simp add: writer_ok_def new_writer_def)

lemma writer_step_ok: "writer_ok w \<Longrightarrow> writer_ok (writer_step w a)"
  by (cases a) (auto simp: writer_ok_def writer_defs)

lemma writer_step_frame [simp]:
  "ow_requestID (writer_step w a) = ow_requestID w"
  "ow_bytes (writer_step w a) = ow_bytes w + op_bytes a"
  "ow_writeFailed (writer_step w a) \<longleftrightarrow> ow_writeFailed w \<or> op_failed a"
  by (cases a; auto simp: writer_defs)+

lemma writer_step_status: "ow_status w \<noteq> 0 \<Longrightarrow> ow_status (writer_step w a) = ow_status w"
  by (cases a) (auto simp: writer_defs)

lemma writer_run_simps [simp]:
  "writer_run [] w = w" "writer_run (a # as) w = writer_run as (writer_step w a)"
  by (simp_all add: writer_run_def)

lemma writer_run_append: "writer_run (xs @ ys) w = writer_run ys (writer_run xs w)"
  by (simp add: writer_run_def)

lemma writer_run_ok: "writer_ok w \<Longrightarrow> writer_ok (writer_run ops w)"
  by (induction ops arbitrary: w) (auto simp: writer_step_ok)

lemma writer_run_frame:
  "ow_requestID (writer_run ops w) = ow_requestID w"
  "ow_bytes (writer_run ops w) = ow_bytes w + sum_list (map op_bytes ops)"
  "ow_writeFailed (writer_run ops w) \<longleftrightarrow> ow_writeFailed w \<or> True \<in> op_failed ` set ops"
  by (induction ops arbitrary: w) auto

lemma writer_run_status: "ow_status w \<noteq> 0 \<Longrightarrow> ow_status (writer_run ops w) = ow_status w"
  by (induction ops arbitrary: w) (auto simp: writer_step_status)

lemma request_outcome_completed:
  "request_outcome cancelled panicked failed [] status = ''completed'' \<longleftrightarrow>
     \<not> cancelled \<and> panicked = NoPanic \<and> \<not> failed \<and> status < 400"
  by (cases panicked) (auto simp: request_outcome_def)

subsection \<open>Properties\<close>

text \<open>
  whatever a handler and the reverse proxy do to the response writer, at most one final
  status reaches the connection, a committed response carries exactly the gateway's own request
  id (an upstream value never survives), the byte count is the sum of the written bytes and the
  failure flag is set exactly when some write or flush failed or was short.
\<close>
theorem writer_contract:
  "let w = writer_run ops (new_writer rid) in
     length (filter is_final (ow_calls w)) \<le> 1 \<and>
     (ow_sent w = None \<longleftrightarrow> ow_status w = 0) \<and>
     pred_option (\<lambda>h. h ''X-Request-Id'' = [rid]) (ow_sent w) \<and>
     ow_bytes w = sum_list (map op_bytes ops) \<and>
     (ow_writeFailed w \<longleftrightarrow> True \<in> op_failed ` set ops)"
proof -
  let ?w = "writer_run ops (new_writer rid)"
  have "writer_ok ?w" by (rule writer_run_ok [OF writer_ok_new])
  then show ?thesis
    by (auto simp: writer_ok_def Let_def writer_run_frame new_writer_def split: if_splits)
qed

text \<open>
  The status recorded for a request is the one committed first: later calls never change a
  nonzero status.
\<close>
theorem status_committed_once:
  assumes "ow_status (writer_run ops (new_writer rid)) = st" and "st \<noteq> 0"
  shows "ow_status (writer_run (ops @ later) (new_writer rid)) = st"
  using assms by (simp add: writer_run_append writer_run_status)

theorem status_committed_once_witness:
  "ow_status (writer_run ([OpWriteHeader 103, OpWriteHeader 404] @ [OpWriteHeader 200, OpFlush False])
     (new_writer ''r'')) = 404"
  by (rule status_committed_once) (simp_all add: writer_defs new_writer_def)

end
