(* ===== verification/Routing.thy ===== *)
theory Routing
  imports Complex_Main Registry Observability
begin

text \<open>
  Backend selection (\<open>gateway/proxy.go\<close>): backends live in a heap, because the routing
  snapshot and the server's table share pointers to them, and a route refers to them by
  reference. The consistent-hash ring is a third-party library; what the route uses of it is the
  record \<open>ringLib\<close>: for a ring of named members, \<open>locateKey\<close> gives the name of the member
  that owns a key and \<open>closestN\<close> the names of the closest members, or \<open>None\<close> for its error.
  The health flags are atomics that a probe may change at any time; \<open>health t b\<close> is what the
  \<open>t\<close>-th load of this selection reads for backend \<open>b\<close>.
\<close>

subsection \<open>Backends and routes\<close>

type_synonym bref = nat

text \<open>What \<open>newProxy\<close> closes over.\<close>

record proxyConfig =
  pc_target :: goURL
  pc_authenticated :: bool
  pc_backendAPIKey :: bytes

record routeBackend =
  rb_proxy :: proxyConfig
  rb_origin :: bytes
  rb_model :: bytes
  rb_healthy :: bool

type_synonym heap = "routeBackend list"

record ringConfig =
  PartitionCount :: int
  ReplicationFactor :: int
  Load :: rat

record ring =
  ring_members :: "(bytes \<times> bref) list"
  ring_config :: ringConfig

record ringLib =
  locateKey :: "ringConfig \<Rightarrow> bytes list \<Rightarrow> bytes \<Rightarrow> bytes"
  closestN :: "ringConfig \<Rightarrow> bytes list \<Rightarrow> bytes \<Rightarrow> nat \<Rightarrow> bytes list option"

record modelRoute =
  mr_backends :: "bref list"
  mr_ring :: "ring option"
  mr_next :: uint64
  mr_model :: bytes

definition new_route :: "bytes \<Rightarrow> modelRoute" where
  "new_route model = \<lparr>mr_backends = [], mr_ring = None, mr_next = 0, mr_model = model\<rparr>"

text \<open>A member's name is the backend's \<open>String()\<close>, its origin.\<close>

definition buildRing :: "heap \<Rightarrow> modelRoute \<Rightarrow> modelRoute" where
  "buildRing h route =
     (if length (mr_backends route) < 2 then route
      else route\<lparr>mr_ring := Some
        \<lparr>ring_members = map (\<lambda>b. (rb_origin (h ! b), b)) (mr_backends route),
         ring_config = \<lparr>PartitionCount = 4093, ReplicationFactor = 20, Load = 5 / 4\<rparr>\<rparr>\<rparr>)"

definition ring_names :: "ring \<Rightarrow> bytes list" where
  "ring_names r = map fst (ring_members r)"

subsection \<open>Selection\<close>

text \<open>
  \<open>selectBackend\<close>: \<open>None\<close> is a panic (a nil ring, a name that is no member, or a division by
  zero for a route without backends). The counter is advanced by the round-robin branch only.
\<close>

definition selectBackend :: "ringLib \<Rightarrow> modelRoute \<Rightarrow> bytes \<Rightarrow> bref option \<times> modelRoute" where
  "selectBackend lib route conversationID =
     (if length (mr_backends route) = 1 then (Some (mr_backends route ! 0), route)
      else if conversationID \<noteq> [] then
        (case mr_ring route of
           None \<Rightarrow> None
         | Some r \<Rightarrow> map_of (ring_members r) (locateKey lib (ring_config r) (ring_names r) conversationID),
         route)
      else
        let route' = route\<lparr>mr_next := mr_next route + 1\<rparr> in
        if mr_backends route = [] then (None, route')
        else (Some (mr_backends route !
                unat ((mr_next route' - 1) mod of_nat (length (mr_backends route)))), route'))"

datatype selection = Panic | Unavailable | Selected bref bool

text \<open>The affinity failover: the closest members in turn; an unknown member is a panic.\<close>

fun failover_ring ::
    "(nat \<Rightarrow> bref \<Rightarrow> bool) \<Rightarrow> (bytes \<times> bref) list \<Rightarrow> nat \<Rightarrow> bytes list \<Rightarrow> selection" where
  "failover_ring health members t [] = Unavailable"
| "failover_ring health members t (n # ns) =
     (case map_of members n of
        None \<Rightarrow> Panic
      | Some b \<Rightarrow> if health t b then Selected b True else failover_ring health members (Suc t) ns)"

text \<open>The position of the primary, 0 when it is not found.\<close>

fun position :: "bref list \<Rightarrow> nat \<Rightarrow> bref \<Rightarrow> nat" where
  "position [] i b = 0"
| "position (x # xs) i b = (if x = b then i else position xs (Suc i) b)"

fun failover_next :: "(nat \<Rightarrow> bref \<Rightarrow> bool) \<Rightarrow> bref list \<Rightarrow> nat \<Rightarrow> nat \<Rightarrow> nat list \<Rightarrow> selection" where
  "failover_next health bs start t [] = Unavailable"
| "failover_next health bs start t (i # is) =
     (let b = bs ! ((start + i) mod length bs) in
      if health t b then Selected b True else failover_next health bs start (Suc t) is)"

definition selectHealthyBackend ::
    "ringLib \<Rightarrow> (nat \<Rightarrow> bref \<Rightarrow> bool) \<Rightarrow> modelRoute \<Rightarrow> bytes \<Rightarrow> selection \<times> modelRoute" where
  "selectHealthyBackend lib health route conversationID =
     (case selectBackend lib route conversationID of
        (None, route') \<Rightarrow> (Panic, route')
      | (Some primary, route') \<Rightarrow>
          (if health 0 primary then Selected primary False
           else
             (case (conversationID \<noteq> [], mr_ring route) of
                (True, Some r) \<Rightarrow>
                  failover_ring health (ring_members r) 1
                    (case closestN lib (ring_config r) (ring_names r) conversationID
                            (length (mr_backends route)) of
                       None \<Rightarrow> []
                     | Some ns \<Rightarrow> ns)
              | _ \<Rightarrow>
                  failover_next health (mr_backends route) (position (mr_backends route) 0 primary) 1
                    [1..<length (mr_backends route)]),
           route'))"

text \<open>The affinity key of a request: scoped to its account when there is one.\<close>

definition affinity_key :: "bytes \<Rightarrow> bytes \<Rightarrow> bytes" where
  "affinity_key accountID conversationID =
     (if accountID \<noteq> [] \<and> conversationID \<noteq> []
      then accountID @ [CHR 0x00] @ conversationID else conversationID)"

definition routing_mode :: "modelRoute \<Rightarrow> bytes \<Rightarrow> bool \<Rightarrow> bytes" where
  "routing_mode route conversationID failover =
     (if length (mr_backends route) = 1 then ''single''
      else if conversationID \<noteq> [] then ''affinity'' else ''round_robin'')
     @ (if failover then ''_failover'' else [])"

subsection \<open>Well-formed routes and the ring's contract\<close>

text \<open>
  A route as \<open>buildRouting\<close> leaves it: at least one backend, all of them allocated, origins that
  tell them apart, and a ring over exactly these backends when there are two or more.
\<close>

definition route_ok :: "heap \<Rightarrow> modelRoute \<Rightarrow> bool" where
  "route_ok h route \<longleftrightarrow>
     mr_backends route \<noteq> [] \<and>
     list_all (\<lambda>b. b < length h) (mr_backends route) \<and>
     distinct (map (\<lambda>b. rb_origin (h ! b)) (mr_backends route)) \<and>
     mr_ring route = mr_ring (buildRing h (route\<lparr>mr_ring := None\<rparr>))"

text \<open>
  What the ring library documents: a key is located at a member, and asking for as many closest
  members as there are lists all of them.
\<close>

definition ring_law :: "ringLib \<Rightarrow> bool" where
  "ring_law lib \<longleftrightarrow>
     (\<forall>cfg names key. names \<noteq> [] \<longrightarrow> locateKey lib cfg names key \<in> set names) \<and>
     (\<forall>cfg names key. distinct names \<longrightarrow>
        pred_option (\<lambda>ns. set ns = set names) (closestN lib cfg names key (length names)) \<and>
        closestN lib cfg names key (length names) \<noteq> None)"

lemma ring_law_locate:
  "ring_law lib \<Longrightarrow> names \<noteq> [] \<Longrightarrow> locateKey lib cfg names key \<in> set names"
  by (simp add: ring_law_def)

lemma ring_law_closest:
  assumes "ring_law lib" and "distinct names" and "length names = n"
  obtains ns where "closestN lib cfg names key n = Some ns" and "set ns = set names"
proof -
  from assms(1,2) have "pred_option (\<lambda>ns. set ns = set names) (closestN lib cfg names key (length names))"
    and "closestN lib cfg names key (length names) \<noteq> None"
    unfolding ring_law_def by blast+
  with assms(3) that show thesis by (cases "closestN lib cfg names key n") auto
qed

text \<open>A small library that keeps the contract, for evaluation on concrete inputs.\<close>

definition demo_ring :: ringLib where
  "demo_ring =
     \<lparr>locateKey = (\<lambda>cfg names key. names ! (length key mod length names)),
      closestN = (\<lambda>cfg names key n.
        if n \<le> length names then Some (take n (rotate (length key) names)) else None)\<rparr>"

lemma demo_ring_law: "ring_law demo_ring"
  by (simp add: ring_law_def demo_ring_def)

lemma route_ok_ring:
  assumes "route_ok h route" and "mr_ring route = Some r"
  shows "ring_members r = map (\<lambda>b. (rb_origin (h ! b), b)) (mr_backends route)"
    and "2 \<le> length (mr_backends route)"
  using assms by (auto simp: route_ok_def buildRing_def split: if_splits)

lemma route_ok_ring_exists:
  assumes "route_ok h route" and "length (mr_backends route) \<noteq> 1"
  obtains r where "mr_ring route = Some r"
  using assms by (cases "mr_backends route") (auto simp: route_ok_def buildRing_def split: if_splits)

lemma route_ok_names:
  assumes "route_ok h route" and "mr_ring route = Some r"
  shows "ring_names r = map (\<lambda>b. rb_origin (h ! b)) (mr_backends route)"
    and "distinct (ring_names r)" and "ring_names r \<noteq> []"
  using assms route_ok_ring [OF assms]
  by (auto simp: ring_names_def route_ok_def comp_def)

text \<open>A name of the ring denotes one of the route's backends.\<close>

lemma route_ok_member:
  assumes "route_ok h route" and "mr_ring route = Some r" and "n \<in> set (ring_names r)"
  obtains b where "map_of (ring_members r) n = Some b" and "b \<in> set (mr_backends route)"
    and "rb_origin (h ! b) = n"
proof -
  from assms(3) obtain b where "map_of (ring_members r) n = Some b"
    by (metis ring_names_def map_of_eq_None_iff option.exhaust list.set_map)
  moreover from this have "(n, b) \<in> set (ring_members r)" by (rule map_of_SomeD)
  ultimately show ?thesis
    using route_ok_ring [OF assms(1,2)] that by auto
qed

lemma route_ok_map_of:
  assumes "route_ok h route" and "mr_ring route = Some r" and "b \<in> set (mr_backends route)"
  shows "map_of (ring_members r) (rb_origin (h ! b)) = Some b"
  using assms route_ok_ring [OF assms(1,2)]
  by (auto simp: route_ok_def comp_def intro!: map_of_is_SomeI)

subsection \<open>Scanning for a healthy backend\<close>

text \<open>Both failover loops take the first candidate that is read healthy.\<close>

fun first_healthy :: "(nat \<Rightarrow> bref \<Rightarrow> bool) \<Rightarrow> nat \<Rightarrow> bref list \<Rightarrow> selection" where
  "first_healthy health t [] = Unavailable"
| "first_healthy health t (b # bs) =
     (if health t b then Selected b True else first_healthy health (Suc t) bs)"

lemma failover_next_scan:
  "failover_next health bs start t is =
     first_healthy health t (map (\<lambda>i. bs ! ((start + i) mod length bs)) is)"
  by (induction "is" arbitrary: t) (simp_all add: Let_def)

lemma failover_ring_scan:
  assumes "list_all (\<lambda>n. map_of members n \<noteq> None) ns"
  shows "failover_ring health members t ns =
     first_healthy health t (map (\<lambda>n. the (map_of members n)) ns)"
  using assms by (induction ns arbitrary: t) auto

lemma first_healthy_Selected:
  assumes "first_healthy health t bs = Selected b fo"
  obtains i where "b \<in> set bs" and "health i b" and "t \<le> i" and "fo"
  using assms by (induction bs arbitrary: t) (auto split: if_splits, metis Suc_leD)

lemma first_healthy_not_Panic [simp]: "first_healthy health t bs \<noteq> Panic"
  by (induction bs arbitrary: t) auto

lemma first_healthy_gives_up:
  "first_healthy health t bs = Unavailable \<Longrightarrow> list_all (\<lambda>b. \<exists>t. \<not> health t b) bs"
  by (induction bs arbitrary: t) (auto split: if_splits)

lemma first_healthy_none:
  "list_all (\<lambda>b. \<forall>t. \<not> health t b) bs \<Longrightarrow> first_healthy health t bs = Unavailable"
  by (induction bs arbitrary: t) auto

lemma position_nth:
  "b \<in> set xs \<Longrightarrow> i \<le> position xs i b \<and> position xs i b - i < length xs \<and> xs ! (position xs i b - i) = b"
proof (induction xs i b rule: position.induct)
  case (2 x xs i b)
  then show ?case
    by (cases "x = b") (auto simp: Suc_diff_le nth_Cons' dest!: Suc_le_lessD)
qed simp

text \<open>The failover scan after the primary and the primary itself are all the backends.\<close>

lemma scan_covers:
  assumes "p < length bs"
  shows "insert (bs ! p) (set (map (\<lambda>i. bs ! ((p + i) mod length bs)) [1..<length bs])) = set bs"
proof -
  let ?n = "length bs"
  have "[0..<?n] = 0 # [1..<?n]"
    using assms upt_conv_Cons [of 0 ?n] by force
  then have "insert (bs ! p) (set (map (\<lambda>i. bs ! ((p + i) mod ?n)) [1..<?n])) =
      set (map (\<lambda>i. bs ! ((p + i) mod ?n)) [0..<?n])"
    using assms by (simp del: set_upt)
  also have "map (\<lambda>i. bs ! ((p + i) mod ?n)) [0..<?n] = rotate p bs"
    by (rule nth_equalityI) (simp_all add: nth_rotate add.commute)
  finally show ?thesis by simp
qed

subsection \<open>The primary backend\<close>

lemma round_robin_index: "0 < n \<Longrightarrow> unat ((w :: uint64) mod of_nat n) < n"
proof (cases "of_nat n = (0 :: uint64)")
  case True
  assume "0 < n"
  with True have "2 ^ 64 \<le> n" by (simp add: word_of_nat_eq_0_iff dvd_imp_le)
  moreover have "unat w < 2 ^ 64" using unsigned_less [of w] by simp
  ultimately show ?thesis using True by simp
next
  case False
  have "unat (w mod of_nat n) < unat (of_nat n :: uint64)"
    using False by (simp add: unat_mod_distrib unat_gt_0)
  also have "\<dots> \<le> n" by (simp add: unat_of_nat)
  finally show ?thesis .
qed

lemma primary_exists:
  assumes "route_ok h route" and "ring_law lib"
  obtains p where "fst (selectBackend lib route key) = Some p" and "p \<in> set (mr_backends route)"
proof -
  let ?bs = "mr_backends route"
  have ne: "?bs \<noteq> []" using assms(1) by (simp add: route_ok_def)
  consider "length ?bs = 1" | "length ?bs \<noteq> 1" "key \<noteq> []" | "length ?bs \<noteq> 1" "key = []" by blast
  then show thesis
  proof cases
    case 1
    then show ?thesis using that ne by (auto simp: selectBackend_def)
  next
    case 2
    obtain r where r: "mr_ring route = Some r" using route_ok_ring_exists [OF assms(1) 2(1)] .
    have "locateKey lib (ring_config r) (ring_names r) key \<in> set (ring_names r)"
      using ring_law_locate [OF assms(2)] route_ok_names(3) [OF assms(1) r] .
    then show ?thesis
      using route_ok_member [OF assms(1) r] 2 r that by (auto simp: selectBackend_def)
  next
    case 3
    have "unat ((w :: uint64) mod of_nat (length ?bs)) < length ?bs" for w
      using ne by (intro round_robin_index) simp
    with 3 ne show ?thesis by (intro that) (auto simp: selectBackend_def Let_def)
  qed
qed

lemma selectBackend_frame [simp]:
  "mr_backends (snd (selectBackend lib route key)) = mr_backends route"
  "mr_ring (snd (selectBackend lib route key)) = mr_ring route"
  "mr_model (snd (selectBackend lib route key)) = mr_model route"
  by (simp_all add: selectBackend_def Let_def)

lemma snd_selectHealthyBackend [simp]:
  "snd (selectHealthyBackend lib health route key) = snd (selectBackend lib route key)"
  by (simp add: selectHealthyBackend_def split: prod.split option.split)

text \<open>
  The whole selection as one scan: the primary, then candidates that together with the primary
  are all the backends.
\<close>

lemma selection_scan:
  assumes "route_ok h route" and "ring_law lib" and "fst (selectBackend lib route key) = Some p"
  obtains cands where "insert p (set cands) = set (mr_backends route)"
    and "\<And>health. fst (selectHealthyBackend lib health route key) =
           (if health 0 p then Selected p False else first_healthy health 1 cands)"
proof -
  let ?bs = "mr_backends route"
  have p: "p \<in> set ?bs" using primary_exists [OF assms(1,2)] assms(3) by (metis option.inject)
  show thesis
  proof (cases "key \<noteq> [] \<and> mr_ring route \<noteq> None")
    case True
    then obtain r where r: "mr_ring route = Some r" by auto
    note names = route_ok_names [OF assms(1) r]
    have len: "length (ring_names r) = length ?bs" using names(1) by simp
    obtain ns where ns: "closestN lib (ring_config r) (ring_names r) key (length ?bs) = Some ns"
      and set: "set ns = set (ring_names r)"
      using ring_law_closest [OF assms(2) names(2) len] .
    let ?f = "\<lambda>n. the (map_of (ring_members r) n)"
    have defined: "list_all (\<lambda>n. map_of (ring_members r) n \<noteq> None) ns"
      unfolding list_all_iff set by (metis route_ok_member [OF assms(1) r] option.distinct(1))
    have "set (map ?f ns) = (\<lambda>b. ?f (rb_origin (h ! b))) ` set ?bs"
      by (simp add: set names(1) image_image)
    also have "\<dots> = (\<lambda>b. b) ` set ?bs"
      by (rule image_cong) (simp_all add: route_ok_map_of [OF assms(1) r])
    finally have "set (map ?f ns) = set ?bs" by simp
    with p have "insert p (set (map ?f ns)) = set ?bs" by auto
    then show thesis
      by (rule that) (use True assms(3) r ns defined in
        \<open>auto simp: selectHealthyBackend_def failover_ring_scan split: prod.split\<close>)
  next
    case False
    let ?i = "position ?bs 0 p"
    let ?c = "map (\<lambda>i. ?bs ! ((?i + i) mod length ?bs)) [1..<length ?bs]"
    have i: "?i < length ?bs" "?bs ! ?i = p" using position_nth [OF p, of 0] by simp_all
    from scan_covers [OF i(1)] i(2) have "insert p (set ?c) = set ?bs" by simp
    then show thesis
      by (rule that) (use False assms(3) in
        \<open>auto simp: selectHealthyBackend_def failover_next_scan split: prod.split option.split bool.split\<close>)
  qed
qed

subsection \<open>Round robin\<close>

text \<open>The primaries of \<open>m\<close> successive requests without affinity.\<close>

fun picks :: "ringLib \<Rightarrow> nat \<Rightarrow> modelRoute \<Rightarrow> bref option list" where
  "picks lib 0 route = []"
| "picks lib (Suc m) route =
     (case selectBackend lib route [] of (b, route') \<Rightarrow> b # picks lib m route')"

lemma mset_window:
  "mset (map (\<lambda>i. xs ! ((c + i) mod length xs)) [0..<q * length xs]) = repeat_mset q (mset xs)"
proof (induction q)
  case (Suc q)
  let ?n = "length xs" and ?f = "\<lambda>i. xs ! ((c + i) mod length xs)"
  have "[0..<Suc q * ?n] = [0..<q * ?n] @ map (\<lambda>i. i + q * ?n) [0..<?n]"
    using upt_add_eq_append [of 0 "q * ?n" ?n] by (simp add: add.commute map_add_upt)
  then have "map ?f [0..<Suc q * ?n] = map ?f [0..<q * ?n] @ map (\<lambda>i. ?f (i + q * ?n)) [0..<?n]"
    by (simp add: comp_def)
  also have "map (\<lambda>i. ?f (i + q * ?n)) [0..<?n] = rotate c xs"
    by (rule nth_equalityI) (simp_all add: nth_rotate add.assoc [symmetric])
  finally have "mset (map ?f [0..<Suc q * ?n]) = mset (map ?f [0..<q * ?n]) + mset (rotate c xs)"
    by (simp only: mset_append)
  moreover have "mset (rotate c xs) = mset xs"
    by (metis append_take_drop_id mset_append rotate_drop_take union_commute)
  ultimately show ?case by (simp only: Suc.IH repeat_mset_Suc union_commute)
qed simp

lemma image_repeat_mset: "image_mset f (repeat_mset q M) = repeat_mset q (image_mset f M)"
  by (induction q) simp_all

lemma selectBackend_round_robin:
  assumes "2 \<le> length (mr_backends route)" and "length (mr_backends route) < 2 ^ 64"
  shows "selectBackend lib route [] =
     (Some (mr_backends route ! (unat (mr_next route) mod length (mr_backends route))),
      route\<lparr>mr_next := mr_next route + 1\<rparr>)"
  using assms by (auto simp: selectBackend_def Let_def unat_mod_distrib unat_of_nat)

lemma picks_spec:
  assumes "2 \<le> length (mr_backends route)" and "length (mr_backends route) < 2 ^ 64"
    and "unat (mr_next route) + m \<le> 2 ^ 64"
  shows "picks lib m route =
     map (\<lambda>i. Some (mr_backends route ! ((unat (mr_next route) + i) mod length (mr_backends route)))) [0..<m]"
  using assms
proof (induction m arbitrary: route)
  case (Suc m)
  let ?r = "route\<lparr>mr_next := mr_next route + 1\<rparr>" and ?f = "\<lambda>i. Some (mr_backends route ! (i mod length (mr_backends route)))"
  have tail: "picks lib m ?r = map (\<lambda>i. ?f (Suc (unat (mr_next route)) + i)) [0..<m]"
  proof (cases "m = 0")
    case False
    with Suc.prems(3) have "unat (mr_next route + 1) = Suc (unat (mr_next route))"
      by (simp add: unat_word_ariths)
    with Suc.IH [of ?r] Suc.prems show ?thesis by simp
  qed simp
  have "[0..<Suc m] = 0 # map Suc [0..<m]"
    by (simp add: upt_conv_Cons map_Suc_upt del: upt_Suc)
  with tail show ?case
    using selectBackend_round_robin [OF Suc.prems(1,2)] by (simp add: comp_def del: upt_Suc)
qed simp

subsection \<open>Affinity\<close>

text \<open>What a client can tell of a selection: the origin and whether it is a failover.\<close>

definition selected_origin :: "heap \<Rightarrow> selection \<Rightarrow> (bytes \<times> bool) option" where
  "selected_origin h sel =
     (case sel of Selected b fo \<Rightarrow> Some (rb_origin (h ! b), fo) | _ \<Rightarrow> None)"

fun scan_origins :: "(nat \<Rightarrow> bytes \<Rightarrow> bool) \<Rightarrow> nat \<Rightarrow> bytes list \<Rightarrow> (bytes \<times> bool) option" where
  "scan_origins H t [] = None"
| "scan_origins H t (n # ns) = (if H t n then Some (n, True) else scan_origins H (Suc t) ns)"

lemma failover_ring_origins:
  assumes "route_ok h route" and "mr_ring route = Some r" and "set ns \<subseteq> set (ring_names r)"
  shows "selected_origin h (failover_ring (\<lambda>t b. H t (rb_origin (h ! b))) (ring_members r) t ns) =
     scan_origins H t ns"
  using assms(3)
proof (induction ns arbitrary: t)
  case (Cons n ns)
  then obtain b where "map_of (ring_members r) n = Some b" and "rb_origin (h ! b) = n"
    using route_ok_member [OF assms(1,2), of n] by auto
  with Cons show ?case by (simp add: selected_origin_def)
qed (simp add: selected_origin_def)

text \<open>With affinity the origin chosen is a function of the names, the key and the health alone.\<close>

definition affinity_choice ::
    "ringLib \<Rightarrow> (nat \<Rightarrow> bytes \<Rightarrow> bool) \<Rightarrow> bytes list \<Rightarrow> bytes \<Rightarrow> (bytes \<times> bool) option" where
  "affinity_choice lib H names key =
     (let cfg = \<lparr>PartitionCount = 4093, ReplicationFactor = 20, Load = 5 / 4\<rparr>;
          primary = (if length names = 1 then hd names else locateKey lib cfg names key)
      in if H 0 primary then Some (primary, False)
         else if length names = 1 then None
         else scan_origins H 1 (the (closestN lib cfg names key (length names))))"

lemma affinity_choice_refines:
  assumes ok: "route_ok h route" and law: "ring_law lib" and key: "key \<noteq> []"
  shows "selected_origin h
       (fst (selectHealthyBackend lib (\<lambda>t b. H t (rb_origin (h ! b))) route key)) =
     affinity_choice lib H (map (\<lambda>b. rb_origin (h ! b)) (mr_backends route)) key"
proof (cases "length (mr_backends route) = 1")
  case True
  then obtain b where bs: "mr_backends route = [b]" by (auto simp: length_Suc_conv)
  with ok have "mr_ring route = None" by (simp add: route_ok_def buildRing_def)
  with bs key show ?thesis
    by (simp add: selectHealthyBackend_def selectBackend_def affinity_choice_def selected_origin_def)
next
  case False
  obtain r where r: "mr_ring route = Some r" using route_ok_ring_exists [OF ok False] .
  note names = route_ok_names [OF ok r]
  have cfg: "ring_config r = \<lparr>PartitionCount = 4093, ReplicationFactor = 20, Load = 5 / 4\<rparr>"
    using ok r by (auto simp: route_ok_def buildRing_def split: if_splits)
  have len: "length (ring_names r) = length (mr_backends route)" using names(1) by simp
  obtain ns where ns: "closestN lib (ring_config r) (ring_names r) key (length (mr_backends route)) = Some ns"
    and set: "set ns = set (ring_names r)"
    using ring_law_closest [OF law names(2) len] .
  have "locateKey lib (ring_config r) (ring_names r) key \<in> set (ring_names r)"
    using ring_law_locate [OF law names(3)] .
  from route_ok_member [OF ok r this] obtain p
    where p: "map_of (ring_members r) (locateKey lib (ring_config r) (ring_names r) key) = Some p"
      "rb_origin (h ! p) = locateKey lib (ring_config r) (ring_names r) key" .
  have "fst (selectHealthyBackend lib (\<lambda>t b. H t (rb_origin (h ! b))) route key) =
      (if H 0 (rb_origin (h ! p)) then Selected p False
       else failover_ring (\<lambda>t b. H t (rb_origin (h ! b))) (ring_members r) 1 ns)"
    using False key r ns p(1) by (simp add: selectHealthyBackend_def selectBackend_def)
  then show ?thesis
    using failover_ring_origins [OF ok r, of ns H 1] set p(2) ns False
    by (simp add: affinity_choice_def cfg names(1) [symmetric] selected_origin_def Let_def len)
qed

lemma split_at_nul:
  "CHR 0x00 \<notin> set a \<Longrightarrow> CHR 0x00 \<notin> set a' \<Longrightarrow>
     a @ CHR 0x00 # c = a' @ CHR 0x00 # c' \<longleftrightarrow> a = a' \<and> c = c'"
proof (induction a arbitrary: a')
  case Nil
  then show ?case by (cases a') auto
next
  case (Cons x a)
  then show ?case by (cases a') auto
qed

lemma affinity_key_inj:
  assumes "CHR 0x00 \<notin> set a" and "CHR 0x00 \<notin> set a'" and "CHR 0x00 \<notin> set c" and "CHR 0x00 \<notin> set c'"
    and "c \<noteq> []"
  shows "affinity_key a c = affinity_key a' c' \<longleftrightarrow> a = a' \<and> c = c'"
proof (cases "a = [] \<or> a' = [] \<or> c' = []")
  case True
  then show ?thesis using assms by (auto simp: affinity_key_def)
next
  case False
  then show ?thesis using assms split_at_nul [OF assms(1,2)] by (simp add: affinity_key_def)
qed

subsection \<open>Serving a request\<close>

text \<open>
  \<open>modelRoute.ServeHTTP\<close> up to the call of the backend's proxy (\<open>route_enter\<close>) and after it
  (\<open>route_exit\<close>, the deferred decrement). The request's observation is \<open>None\<close> outside \<open>wrap\<close>;
  \<open>account\<close> is the account of the request's context, \<open>[]\<close> without one. A route always carries
  the server's \<open>observability\<close>; its metrics are passed through.
\<close>

definition route_refuse :: "modelRoute \<Rightarrow> requestObservation option \<Rightarrow> requestObservation option" where
  "route_refuse route state =
     map_option (\<lambda>st. st\<lparr>ob_model := mr_model route, ob_outcome := ''upstream_unavailable''\<rparr>) state"

definition route_enter ::
    "modelRoute \<Rightarrow> bytes \<Rightarrow> bytes \<Rightarrow> bool \<Rightarrow> requestObservation option \<Rightarrow> metrics \<Rightarrow>
     requestObservation option \<times> metrics" where
  "route_enter route org conversationID failover state mx =
     (case state of
        None \<Rightarrow> (None, mx)
      | Some st \<Rightarrow>
          let routing = routing_mode route conversationID failover;
              st' = st\<lparr>ob_model := mr_model route, ob_backend := org, ob_routing := routing\<rparr>
          in (Some st',
              mx\<lparr>mx_routed := add_label (mx_routed mx) (mr_model route, org, routing) 1,
                 mx_inflight := add_label (mx_inflight mx) (mr_model route, org) 1\<rparr>))"

definition route_exit :: "requestObservation option \<Rightarrow> bytes \<Rightarrow> bytes \<Rightarrow> metrics \<Rightarrow> metrics" where
  "route_exit state model org mx =
     (case state of
        None \<Rightarrow> mx
      | Some _ \<Rightarrow> mx\<lparr>mx_inflight := add_label (mx_inflight mx) (model, org) (- 1)\<rparr>)"

text \<open>
  The whole handler, with the proxy of a backend as a function of what it may touch. A panic of
  the selection is the result \<open>None\<close>.
\<close>

definition route_ServeHTTP ::
    "ringLib \<Rightarrow> (nat \<Rightarrow> bref \<Rightarrow> bool) \<Rightarrow> heap \<Rightarrow>
     (bref \<Rightarrow> requestObservation option \<Rightarrow> metrics \<Rightarrow> 'b reply \<Rightarrow>
        requestObservation option \<times> metrics \<times> 'b reply) \<Rightarrow>
     modelRoute \<Rightarrow> header \<Rightarrow> bytes \<Rightarrow> requestObservation option \<Rightarrow> metrics \<Rightarrow> 'b reply \<Rightarrow>
     (requestObservation option \<times> metrics \<times> 'b reply) option \<times> modelRoute" where
  "route_ServeHTTP lib health h proxy route hdr account state mx w =
     (let conversationID = affinity_key account (hGet hdr ''X-Conversation-Id'') in
      case selectHealthyBackend lib health route conversationID of
        (Panic, route') \<Rightarrow> (None, route')
      | (Unavailable, route') \<Rightarrow>
          (Some (route_refuse route state, mx,
                 writeAPIError w 503 ''no healthy inference backend''), route')
      | (Selected b failover, route') \<Rightarrow>
          (case route_enter route (rb_origin (h ! b)) conversationID failover state mx of
             (state1, mx1) \<Rightarrow>
               (case proxy b state1 mx1 w of
                  (state2, mx2, w2) \<Rightarrow>
                    (Some (state2, route_exit state1 (mr_model route) (rb_origin (h ! b)) mx2, w2),
                     route'))))"

text \<open>All outcomes of a selection, for the callers.\<close>

lemma selection_total:
  assumes "route_ok h route" and "ring_law lib"
  shows "case fst (selectHealthyBackend lib health route key) of
      Panic \<Rightarrow> False
    | Unavailable \<Rightarrow> list_all (\<lambda>b. \<exists>t. \<not> health t b) (mr_backends route)
    | Selected b fo \<Rightarrow> b \<in> set (mr_backends route) \<and> (\<exists>t. health t b)"
proof -
  obtain p where p: "fst (selectBackend lib route key) = Some p"
    using primary_exists [OF assms] .
  obtain cands where cands: "insert p (set cands) = set (mr_backends route)"
    and scan: "fst (selectHealthyBackend lib health route key) =
       (if health 0 p then Selected p False else first_healthy health 1 cands)"
    using selection_scan [OF assms p] by metis
  show ?thesis
  proof (cases "first_healthy health 1 cands")
    case Unavailable
    then have "list_all (\<lambda>b. \<exists>t. \<not> health t b) cands" by (rule first_healthy_gives_up)
    with Unavailable scan cands show ?thesis by (auto simp: list_all_iff simp flip: cands)
  next
    case (Selected b fo)
    then obtain i where "b \<in> set cands" "health i b" by (rule first_healthy_Selected)
    with Selected scan cands show ?thesis by auto
  qed (use scan in simp)
qed

text \<open>A two-replica route for the concrete instances below.\<close>

definition demo_target :: goURL where
  "demo_target = \<lparr>Scheme = ''http'', Host = ''a'', Hostname = ''a'', HasUser = False, Path = [],
     RawQuery = [], ForceQuery = False, Fragment = [], URLString = ''http://a''\<rparr>"

definition demo_backend :: "bytes \<Rightarrow> bool \<Rightarrow> routeBackend" where
  "demo_backend org healthy =
     \<lparr>rb_proxy = \<lparr>pc_target = demo_target, pc_authenticated = False, pc_backendAPIKey = []\<rparr>,
      rb_origin = org, rb_model = ''m'', rb_healthy = healthy\<rparr>"

definition demo_heap :: heap where
  "demo_heap = [demo_backend ''http://a'' False, demo_backend ''http://b'' True]"

definition demo_route :: modelRoute where
  "demo_route = buildRing demo_heap ((new_route ''m'')\<lparr>mr_backends := [0, 1]\<rparr>)"

lemma demo_route_ok: "route_ok demo_heap demo_route"
  by (simp add: route_ok_def demo_route_def buildRing_def new_route_def demo_heap_def demo_backend_def)

lemma demo_route_simps:
  "mr_backends demo_route = [0, 1]" "mr_next demo_route = 0"
  "mr_ring demo_route = Some \<lparr>ring_members = [(''http://a'', 0), (''http://b'', 1)],
     ring_config = \<lparr>PartitionCount = 4093, ReplicationFactor = 20, Load = 5 / 4\<rparr>\<rparr>"
  by (simp_all add: demo_route_def buildRing_def new_route_def demo_heap_def demo_backend_def)

subsection \<open>Properties\<close>

text \<open>
  C28: a request is sent only to a backend of its route that one of this selection's health loads
  read as healthy, whatever the probes do in between; it is marked as a failover exactly when
  the primary was read unhealthy, and otherwise goes to the primary.
\<close>
theorem selected_was_healthy:
  assumes "route_ok h route" and "ring_law lib"
    and "selectHealthyBackend lib health route key = (Selected b fo, route')"
  shows "b \<in> set (mr_backends route) \<and> (\<exists>t. health t b) \<and>
    pred_option (\<lambda>p. fo = (\<not> health 0 p) \<and> (fo \<or> b = p)) (fst (selectBackend lib route key))"
proof -
  obtain p where p: "fst (selectBackend lib route key) = Some p"
    using primary_exists [OF assms(1,2)] .
  obtain cands where cands: "insert p (set cands) = set (mr_backends route)"
    and scan: "fst (selectHealthyBackend lib health route key) =
       (if health 0 p then Selected p False else first_healthy health 1 cands)"
    using selection_scan [OF assms(1,2) p] by metis
  show ?thesis
  proof (cases "health 0 p")
    case True
    with scan assms(3) p cands show ?thesis by auto
  next
    case False
    with scan assms(3) have "first_healthy health 1 cands = Selected b fo" by simp
    then obtain i where "b \<in> set cands" "health i b" "fo" by (rule first_healthy_Selected)
    with False p cands show ?thesis by auto
  qed
qed

theorem selected_was_healthy_witness:
  "(1 :: nat) \<in> set (mr_backends demo_route) \<and> (\<exists>t :: nat. rb_healthy (demo_heap ! 1)) \<and>
    pred_option (\<lambda>p. True = (\<not> rb_healthy (demo_heap ! p)) \<and> (True \<or> 1 = p))
      (fst (selectBackend demo_ring demo_route ''cc''))"
proof (rule selected_was_healthy [OF demo_route_ok demo_ring_law,
      where health = "\<lambda>_ b. rb_healthy (demo_heap ! b)" and route' = demo_route])
  show "selectHealthyBackend demo_ring (\<lambda>_ b. rb_healthy (demo_heap ! b)) demo_route ''cc'' =
      (Selected 1 True, demo_route)"
    by (simp add: selectHealthyBackend_def selectBackend_def demo_route_simps ring_names_def
        demo_ring_def demo_heap_def demo_backend_def)
qed

text \<open>
  Selection never panics on a route that \<open>buildRouting\<close> made; it gives up only after every
  backend was read unhealthy by some load of this selection, and it does give up when all loads
  read unhealthy. So a model with one backend that stays healthy is never refused.
\<close>
theorem selection_complete:
  assumes "route_ok h route" and "ring_law lib"
  shows "fst (selectHealthyBackend lib health route key) \<noteq> Panic \<and>
    (fst (selectHealthyBackend lib health route key) = Unavailable \<longrightarrow>
       list_all (\<lambda>b. \<exists>t. \<not> health t b) (mr_backends route)) \<and>
    (list_all (\<lambda>b. \<forall>t. \<not> health t b) (mr_backends route) \<longrightarrow>
       fst (selectHealthyBackend lib health route key) = Unavailable)"
proof -
  obtain p where p: "fst (selectBackend lib route key) = Some p"
    using primary_exists [OF assms] .
  obtain cands where cands: "insert p (set cands) = set (mr_backends route)"
    and scan: "fst (selectHealthyBackend lib health route key) =
       (if health 0 p then Selected p False else first_healthy health 1 cands)"
    using selection_scan [OF assms p] by metis
  have all: "list_all P (mr_backends route) \<longleftrightarrow> P p \<and> list_all P cands" for P
    by (simp add: list_all_iff flip: cands)
  show ?thesis
    using scan all by (auto simp: first_healthy_gives_up first_healthy_none)
qed

theorem selection_complete_witness:
  "fst (selectHealthyBackend demo_ring (\<lambda>_ _. False) demo_route []) = Unavailable"
  using selection_complete [OF demo_route_ok demo_ring_law, of "\<lambda>_ _. False" "[]"]
  by (simp add: demo_route_simps)

text \<open>
  C38: round robin is fair: over any \<open>q\<close> full rounds of requests without affinity, from any
  counter value short of its wrap-around, every replica is chosen as primary exactly \<open>q\<close> times.
\<close>
theorem round_robin_fair:
  assumes "2 \<le> length (mr_backends route)" and "length (mr_backends route) < 2 ^ 64"
    and "unat (mr_next route) + q * length (mr_backends route) \<le> 2 ^ 64"
  shows "mset (picks lib (q * length (mr_backends route)) route) =
    repeat_mset q (image_mset Some (mset (mr_backends route)))"
proof -
  have "picks lib (q * length (mr_backends route)) route =
      map Some (map (\<lambda>i. mr_backends route ! ((unat (mr_next route) + i) mod length (mr_backends route)))
        [0..<q * length (mr_backends route)])"
    using picks_spec [OF assms] by (simp add: comp_def)
  then show ?thesis
    by (simp only: mset_map [of Some] mset_window image_repeat_mset)
qed

theorem round_robin_fair_witness:
  "mset (picks demo_ring (3 * length (mr_backends demo_route)) demo_route) =
    repeat_mset 3 (image_mset Some (mset (mr_backends demo_route)))"
  by (rule round_robin_fair) (simp_all add: demo_route_simps)

text \<open>
  C37: affinity is stable: the backend of a conversation depends on the replicas' origins, the key
  and their health alone. Two gateways, or one gateway before and after a restart, with other
  backend objects and other request counters, send it to the same origin with the same failover.
\<close>
theorem affinity_across_restarts:
  assumes "route_ok h route" and "route_ok h' route'" and "ring_law lib" and "key \<noteq> []"
    and "map (\<lambda>b. rb_origin (h ! b)) (mr_backends route) =
      map (\<lambda>b. rb_origin (h' ! b)) (mr_backends route')"
  shows "selected_origin h (fst (selectHealthyBackend lib (\<lambda>t b. H t (rb_origin (h ! b))) route key)) =
    selected_origin h' (fst (selectHealthyBackend lib (\<lambda>t b. H t (rb_origin (h' ! b))) route' key))"
  using affinity_choice_refines [OF assms(1,3,4), of H] affinity_choice_refines [OF assms(2,3,4), of H]
    assms(5) by simp

theorem affinity_across_restarts_witness:
  "selected_origin demo_heap (fst (selectHealthyBackend demo_ring
      (\<lambda>t b. rb_origin (demo_heap ! b) = ''http://b'') demo_route ''c'')) =
   selected_origin demo_heap (fst (selectHealthyBackend demo_ring
      (\<lambda>t b. rb_origin (demo_heap ! b) = ''http://b'') (demo_route\<lparr>mr_next := 7\<rparr>) ''c''))"
proof (rule affinity_across_restarts [where H = "\<lambda>t n. n = ''http://b''"])
  show "route_ok demo_heap (demo_route\<lparr>mr_next := 7\<rparr>)"
    using demo_route_ok by (simp add: route_ok_def buildRing_def)
qed (simp_all add: demo_route_ok demo_ring_law)

text \<open>
  Conversations of different accounts never share an affinity key: with account and
  conversation ids free of NUL (a header value and a generated id are), the key determines both.
\<close>
theorem account_isolation:
  assumes "CHR 0x00 \<notin> set a" and "CHR 0x00 \<notin> set a'" and "CHR 0x00 \<notin> set c" and "CHR 0x00 \<notin> set c'"
    and "c \<noteq> []"
  shows "affinity_key a c = affinity_key a' c' \<longleftrightarrow> a = a' \<and> c = c'"
  by (rule affinity_key_inj [OF assms])

theorem account_isolation_witness:
  "affinity_key ''acc1'' ''conv'' = affinity_key ''acc2'' ''conv'' \<longleftrightarrow>
     ''acc1'' = (''acc2'' :: bytes) \<and> ''conv'' = (''conv'' :: bytes)"
  by (rule account_isolation) simp_all

end
