(* ===== verification/Proxy.thy ===== *)
theory Proxy
  imports Routing
begin

text \<open>
  The reverse proxy of one backend (\<open>newProxy\<close> of \<open>gateway/proxy.go\<close>): what
  \<open>httputil.ReverseProxy\<close> strips from a request before it calls \<open>Rewrite\<close>, the gateway's
  \<open>Rewrite\<close>, \<open>ModifyResponse\<close> and \<open>ErrorHandler\<close>, and the exchange with the backend as they
  frame it. The backend is the environment: \<open>exchange\<close> says what it answered.
\<close>

subsection \<open>The outgoing request\<close>

text \<open>A request as it is handed to the proxy, and as the proxy sends it. Paths are decoded paths.\<close>

record inRequest =
  ir_Method :: bytes
  ir_Path :: bytes
  ir_RawQuery :: bytes
  ir_Header :: header
  ir_Body :: bytes

record outRequest =
  or_Method :: bytes
  or_Scheme :: bytes
  or_Host :: bytes
  or_Path :: bytes
  or_RawQuery :: bytes
  or_Header :: header
  or_Body :: bytes

text \<open>
  \<open>cleanQueryParams\<close> of \<open>httputil\<close>: a query with a semicolon or a broken percent sequence is
  parsed and written again (\<open>reencode\<close>, of \<open>net/url\<close>), any other one is kept.
\<close>

definition is_hex :: "char \<Rightarrow> bool" where
  "is_hex c \<longleftrightarrow> c \<in> set ''0123456789abcdefABCDEF''"

fun parsable_query :: "bytes \<Rightarrow> bool" where
  "parsable_query [] = True"
| "parsable_query (c # cs) =
     (if c = CHR '';'' then False
      else if c = CHR ''%'' then
        (case cs of a # b # rest \<Rightarrow> is_hex a \<and> is_hex b \<and> parsable_query rest | _ \<Rightarrow> False)
      else parsable_query cs)"

definition cleanQueryParams :: "(bytes \<Rightarrow> bytes) \<Rightarrow> bytes \<Rightarrow> bytes" where
  "cleanQueryParams reencode q = (if parsable_query q then q else reencode q)"

text \<open>The hop-by-hop headers of \<open>net/http/httputil\<close>, and the forwarding headers.\<close>

definition hop_headers :: "bytes list" where
  "hop_headers = [''Connection'', ''Proxy-Connection'', ''Keep-Alive'', ''Proxy-Authenticate'',
     ''Proxy-Authorization'', ''Te'', ''Trailer'', ''Transfer-Encoding'', ''Upgrade'']"

definition forwarding_headers :: "bytes list" where
  "forwarding_headers = [''Forwarded'', ''X-Forwarded-For'', ''X-Forwarded-Host'', ''X-Forwarded-Proto'']"

definition del_headers :: "bytes list \<Rightarrow> header \<Rightarrow> header" where
  "del_headers ks h = fold (\<lambda>k h. hDel h k) ks h"

lemma del_headers_apply [simp]: "del_headers ks h k = (if k \<in> set ks then [] else h k)"
proof (induction ks arbitrary: h)
  case (Cons x xs)
  then show ?case by (simp add: del_headers_def)
qed (simp add: del_headers_def)

text \<open>
  What \<open>httputil.ReverseProxy\<close> reads from the connection headers: the headers that \<open>Connection\<close>
  names, the protocol of an upgrade the client asks for (empty without one), and whether \<open>Te\<close>
  names trailers.
\<close>

record connection =
  cn_listed :: "bytes list"
  cn_upgrade :: bytes
  cn_trailers :: bool

text \<open>The header handed to \<open>Rewrite\<close>.\<close>

definition proxy_header :: "connection \<Rightarrow> header \<Rightarrow> header" where
  "proxy_header cn h =
     (let h1 = del_headers hop_headers (del_headers (cn_listed cn) h);
          h2 = (if cn_trailers cn then hSet h1 ''Te'' ''trailers'' else h1);
          h3 = (if cn_upgrade cn \<noteq> [] then hSet (hSet h2 ''Connection'' ''Upgrade'') ''Upgrade'' (cn_upgrade cn) else h2)
      in del_headers forwarding_headers h3)"

text \<open>A client without a user agent gets none.\<close>

definition suppress_agent :: "header \<Rightarrow> header" where
  "suppress_agent h = (if h ''User-Agent'' = [] then hSet h ''User-Agent'' [] else h)"

text \<open>\<open>singleJoiningSlash\<close> of \<open>SetURL\<close>.\<close>

definition join_path :: "bytes \<Rightarrow> bytes \<Rightarrow> bytes" where
  "join_path a b =
     (if hasSuffix a ''/'' \<and> hasPrefix b ''/'' then a @ tl b
      else if \<not> hasSuffix a ''/'' \<and> \<not> hasPrefix b ''/'' then a @ ''/'' @ b
      else a @ b)"

definition set_url :: "goURL \<Rightarrow> outRequest \<Rightarrow> outRequest" where
  "set_url target r =
     r\<lparr>or_Scheme := Scheme target, or_Host := Host target, or_Path := join_path (Path target) (or_Path r),
       or_RawQuery := (if RawQuery target = [] \<or> or_RawQuery r = [] then RawQuery target @ or_RawQuery r
         else RawQuery target @ ''&'' @ or_RawQuery r)\<rparr>"

definition rewrite_header :: "proxyConfig \<Rightarrow> requestObservation option \<Rightarrow> header \<Rightarrow> header" where
  "rewrite_header pc state h =
     (let h1 = hDel h ''X-Conversation-Id'';
          h2 = (if pc_authenticated pc
                then let h' = hDel (hDel h1 ''Authorization'') ''Accept-Encoding''
                     in if pc_backendAPIKey pc \<noteq> [] then hSet h' ''Authorization'' (''Bearer '' @ pc_backendAPIKey pc)
                        else h'
                else h1)
      in case state of None \<Rightarrow> h2 | Some st \<Rightarrow> hSet h2 ''X-Request-Id'' (ob_id st))"

definition Rewrite :: "proxyConfig \<Rightarrow> requestObservation option \<Rightarrow> outRequest \<Rightarrow> outRequest" where
  "Rewrite pc state r =
     (set_url (pc_target pc) r)\<lparr>or_Header := rewrite_header pc state (or_Header r)\<rparr>"

definition outgoing ::
    "(bytes \<Rightarrow> bytes) \<Rightarrow> proxyConfig \<Rightarrow> requestObservation option \<Rightarrow> connection \<Rightarrow> inRequest \<Rightarrow> outRequest" where
  "outgoing reencode pc state cn r =
     (let out = Rewrite pc state
            \<lparr>or_Method = ir_Method r, or_Scheme = [], or_Host = [], or_Path = ir_Path r,
             or_RawQuery = cleanQueryParams reencode (ir_RawQuery r), or_Header = proxy_header cn (ir_Header r),
             or_Body = ir_Body r\<rparr>
      in out\<lparr>or_Header := suppress_agent (or_Header out)\<rparr>)"

subsection \<open>The exchange\<close>

text \<open>
  \<open>TransportError\<close>: the round trip failed, with or without a timeout; \<open>Answer\<close>: status, content type
  and the reads of the body. When copying breaks off these are the reads made until then; the
  proxy then aborts the handler with a panic, and the deferred functions run on the same state.
\<close>

datatype exchange =
    TransportError bool
  | Answer int bytes "(bytes \<times> bool) list"

definition ModifyResponse ::
    "int \<Rightarrow> bytes \<Rightarrow> requestObservation option \<Rightarrow> requestObservation option \<times> bool" where
  "ModifyResponse status contentType state =
     (case state of
        None \<Rightarrow> (None, False)
      | Some st \<Rightarrow>
          (case ob_usage st of
             None \<Rightarrow> (Some st, False)
           | Some u \<Rightarrow>
               (Some (st\<lparr>ob_usage := Some (u\<lparr>cap_status := status,
                   cap_stream := (cap_stream u \<or> hasPrefix contentType ''text/event-stream'')\<rparr>)\<rparr>),
                200 \<le> status \<and> status < 300)))"

text \<open>What reading the wrapped body does to the capture, when it was wrapped.\<close>

definition read_body ::
    "bool \<Rightarrow> (bytes \<times> bool) list \<Rightarrow> requestObservation option \<Rightarrow> requestObservation option" where
  "read_body wrapped reads state =
     (if wrapped then map_option (\<lambda>st. st\<lparr>ob_usage := map_option (body_reads reads) (ob_usage st)\<rparr>) state
      else state)"

definition error_status :: "bool \<Rightarrow> int" where
  "error_status timed_out = (if timed_out then 504 else 502)"

definition error_message :: "bool \<Rightarrow> bytes" where
  "error_message timed_out =
     (if timed_out then ''inference backend timed out'' else ''inference backend unavailable'')"

definition ErrorHandler ::
    "bool \<Rightarrow> bool \<Rightarrow> requestObservation option \<Rightarrow> bytes reply \<Rightarrow>
     requestObservation option \<times> bytes reply" where
  "ErrorHandler cancelled timed_out state w =
     (if cancelled then (state, w)
      else
        (map_option (\<lambda>st. st\<lparr>ob_outcome := (if timed_out then ''upstream_timeout'' else ''upstream_unavailable''),
             ob_usage := map_option (\<lambda>u. u\<lparr>cap_status := error_status timed_out\<rparr>) (ob_usage st)\<rparr>) state,
         writeAPIError w (error_status timed_out) (error_message timed_out)))"

text \<open>The response as it is copied to the client.\<close>

definition copy_response :: "int \<Rightarrow> bytes \<Rightarrow> (bytes \<times> bool) list \<Rightarrow> bytes reply \<Rightarrow> bytes reply" where
  "copy_response status contentType reads w =
     (set_reply_header ''Content-Type'' contentType w)
       \<lparr>rp_status := status, rp_body := Content (concat (map fst reads))\<rparr>"

definition proxy_ServeHTTP ::
    "exchange \<Rightarrow> bool \<Rightarrow> requestObservation option \<Rightarrow> bytes reply \<Rightarrow>
     requestObservation option \<times> bytes reply" where
  "proxy_ServeHTTP ex cancelled state w =
     (case ex of
        TransportError timed_out \<Rightarrow> ErrorHandler cancelled timed_out state w
      | Answer status contentType reads \<Rightarrow>
          (case ModifyResponse status contentType state of
             (state1, wrapped) \<Rightarrow> (read_body wrapped reads state1, copy_response status contentType reads w)))"

subsection \<open>What a backend sees\<close>

lemma outgoing_fields [simp]:
  "or_Scheme (outgoing re pc st cn r) = Scheme (pc_target pc)"
  "or_Host (outgoing re pc st cn r) = Host (pc_target pc)"
  "or_Path (outgoing re pc st cn r) = join_path (Path (pc_target pc)) (ir_Path r)"
  "or_Method (outgoing re pc st cn r) = ir_Method r" "or_Body (outgoing re pc st cn r) = ir_Body r"
  "or_Header (outgoing re pc st cn r) = suppress_agent (rewrite_header pc st (proxy_header cn (ir_Header r)))"
  "RawQuery (pc_target pc) = [] \<Longrightarrow> or_RawQuery (outgoing re pc st cn r) = cleanQueryParams re (ir_RawQuery r)"
  by (simp_all add: outgoing_def Rewrite_def set_url_def Let_def)

lemma suppress_agent_apply [simp]:
  "suppress_agent h k = (if k = ''User-Agent'' \<and> h k = [] then [[]] else h k)"
  by (auto simp: suppress_agent_def)

text \<open>What is left of a header on its way to \<open>Rewrite\<close>, and from there to the backend.\<close>

lemma proxy_header_apply:
  "proxy_header cn h k =
     (if k \<in> set forwarding_headers then []
      else if cn_upgrade cn \<noteq> [] \<and> k = ''Upgrade'' then [cn_upgrade cn]
      else if cn_upgrade cn \<noteq> [] \<and> k = ''Connection'' then [''Upgrade'']
      else if cn_trailers cn \<and> k = ''Te'' then [''trailers'']
      else if k \<in> set hop_headers \<or> k \<in> set (cn_listed cn) then [] else h k)"
  by (simp add: proxy_header_def Let_def)

lemma rewrite_header_apply:
  "rewrite_header pc (Some st) h k =
     (if k = ''X-Request-Id'' then [ob_id st]
      else if pc_authenticated pc \<and> k = ''Authorization'' then
        (if pc_backendAPIKey pc = [] then [] else [''Bearer '' @ pc_backendAPIKey pc])
      else if k = ''X-Conversation-Id'' \<or> pc_authenticated pc \<and> k = ''Accept-Encoding'' then [] else h k)"
  by (simp add: rewrite_header_def Let_def)

lemma hop_header_cases: "k \<in> set hop_headers \<Longrightarrow>
   k \<notin> set forwarding_headers \<and> k \<noteq> ''X-Request-Id'' \<and> k \<noteq> ''Authorization'' \<and> k \<noteq> ''User-Agent''"
  "k \<in> set forwarding_headers \<Longrightarrow> k \<noteq> ''X-Request-Id'' \<and> k \<noteq> ''Authorization'' \<and> k \<noteq> ''User-Agent''"
  "{''Connection'', ''Te'', ''Upgrade''} \<subseteq> set hop_headers"
  "''Authorization'' \<notin> set hop_headers" "''Authorization'' \<notin> set forwarding_headers"
  "''Accept-Encoding'' \<notin> set hop_headers" "''Accept-Encoding'' \<notin> set forwarding_headers"
  "''User-Agent'' \<notin> set hop_headers" "''User-Agent'' \<notin> set forwarding_headers"
  by (auto simp: hop_headers_def forwarding_headers_def)

text \<open>
  C17: What a backend is sent: the method, the body, the path and the query as the client sent them (a
  query that cannot be parsed is written again), to the backend's own scheme and host. With accounts
  enabled the only Authorization it gets is the gateway's own key, if one is configured, and no
  Accept-Encoding; in the development mode without accounts the client's Authorization passes. The
  routing header and every forwarding header are gone, and the request id is the gateway's. Of the
  connection headers only an upgrade and the wish for trailers are passed on, a header that
  \<open>Connection\<close> names is dropped, and an absent User-Agent is set to the empty one, so that none is added. Every other header,
  cookies among them, arrives as the client sent it.
\<close>
theorem backend_request:
  assumes "Path (pc_target pc) \<in> {[], ''/''}" and "RawQuery (pc_target pc) = []" and "hasPrefix (ir_Path r) ''/''"
  shows "let out = outgoing reencode pc (Some st) cn r; h = ir_Header r in
    or_Method out = ir_Method r \<and> or_Body out = ir_Body r \<and>
    or_Scheme out = Scheme (pc_target pc) \<and> or_Host out = Host (pc_target pc) \<and> or_Path out = ir_Path r \<and>
    or_RawQuery out = (if parsable_query (ir_RawQuery r) then ir_RawQuery r else reencode (ir_RawQuery r)) \<and>
    or_Header out ''X-Conversation-Id'' = [] \<and> or_Header out ''X-Request-Id'' = [ob_id st] \<and>
    list_all (\<lambda>k. or_Header out k = []) forwarding_headers \<and>
    list_all (\<lambda>k. or_Header out k = [] \<or> k = ''Te'' \<and> cn_trailers cn \<or>
      k \<in> {''Connection'', ''Upgrade''} \<and> cn_upgrade cn \<noteq> []) hop_headers \<and>
    (if pc_authenticated pc
     then or_Header out ''Authorization'' =
            (if pc_backendAPIKey pc = [] then [] else [''Bearer '' @ pc_backendAPIKey pc]) \<and>
          or_Header out ''Accept-Encoding'' = []
     else list_all (\<lambda>k. k \<in> set (cn_listed cn) \<or> or_Header out k = h k) [''Authorization'', ''Accept-Encoding'']) \<and>
    (''User-Agent'' \<in> set (cn_listed cn) \<or>
       or_Header out ''User-Agent'' = (if h ''User-Agent'' = [] then [[]] else h ''User-Agent'')) \<and>
    (\<forall>k. k \<in> set (cn_listed cn @ hop_headers @ forwarding_headers @
            [''X-Conversation-Id'', ''X-Request-Id'', ''Authorization'', ''Accept-Encoding'', ''User-Agent'']) \<or>
         or_Header out k = h k)"
proof -
  let ?out = "outgoing reencode pc (Some st) cn r"
  have path: "join_path (Path (pc_target pc)) (ir_Path r) = ir_Path r"
    using assms by (auto simp: join_path_def hasPrefix_iff hasSuffix_iff prefix_def)
  have fwd: "or_Header ?out k = []" if "k \<in> set forwarding_headers" for k
    using that hop_header_cases(2) [OF that] by (simp add: rewrite_header_apply proxy_header_apply)
  have hop: "or_Header ?out k = [] \<or> k = ''Te'' \<and> cn_trailers cn \<or>
      k \<in> {''Connection'', ''Upgrade''} \<and> cn_upgrade cn \<noteq> []" if "k \<in> set hop_headers" for k
    using that hop_header_cases(1) [OF that] by (simp add: rewrite_header_apply proxy_header_apply)
  have rest: "k \<in> set (cn_listed cn @ hop_headers @ forwarding_headers @
            [''X-Conversation-Id'', ''X-Request-Id'', ''Authorization'', ''Accept-Encoding'', ''User-Agent'']) \<or>
         or_Header ?out k = ir_Header r k" for k
  proof (cases "k \<in> set hop_headers")
    case False
    then have "k \<noteq> ''Connection''" "k \<noteq> ''Te''" "k \<noteq> ''Upgrade''" using hop_header_cases(3) by blast+
    with False show ?thesis by (simp add: rewrite_header_apply proxy_header_apply)
  qed simp
  from fwd hop have lists: "list_all (\<lambda>k. or_Header ?out k = []) forwarding_headers"
    "list_all (\<lambda>k. or_Header ?out k = [] \<or> k = ''Te'' \<and> cn_trailers cn \<or>
      k \<in> {''Connection'', ''Upgrade''} \<and> cn_upgrade cn \<noteq> []) hop_headers"
    unfolding list_all_iff by blast+
  show ?thesis
    unfolding Let_def
    by (intro conjI allI lists rest)
      (simp_all add: path assms(2) cleanQueryParams_def rewrite_header_apply proxy_header_apply hop_header_cases(4-9))
qed

theorem backend_request_witness:
  "let target = \<lparr>Scheme = ''http'', Host = ''a'', Hostname = ''a'', HasUser = False, Path = [], RawQuery = [],
         ForceQuery = False, Fragment = [], URLString = ''http://a''\<rparr>;
       out = outgoing (\<lambda>q. []) \<lparr>pc_target = target, pc_authenticated = True, pc_backendAPIKey = ''k''\<rparr> (Some (new_observation ''r''))
         \<lparr>cn_listed = [], cn_upgrade = [], cn_trailers = True\<rparr>
         \<lparr>ir_Method = ''POST'', ir_Path = ''/v1'', ir_RawQuery = ''a=%20'',
          ir_Header = hSet no_header ''Authorization'' ''Bearer secret'', ir_Body = ''{}''\<rparr>
   in or_Host out = ''a'' \<and> or_Path out = ''/v1'' \<and> or_RawQuery out = ''a=%20'' \<and> or_Body out = ''{}'' \<and>
      or_Header out ''Authorization'' = [''Bearer k''] \<and> or_Header out ''X-Request-Id'' = [''r'']"
proof -
  let ?pc = "\<lparr>pc_target = \<lparr>Scheme = ''http'', Host = ''a'', Hostname = ''a'', HasUser = False, Path = [], RawQuery = [],
         ForceQuery = False, Fragment = [], URLString = ''http://a''\<rparr>, pc_authenticated = True, pc_backendAPIKey = ''k''\<rparr>"
  let ?r = "\<lparr>ir_Method = ''POST'', ir_Path = ''/v1'', ir_RawQuery = ''a=%20'',
          ir_Header = hSet no_header ''Authorization'' ''Bearer secret'', ir_Body = ''{}''\<rparr>"
  have p: "Path (pc_target ?pc) \<in> {[], ''/''}" "RawQuery (pc_target ?pc) = []" "hasPrefix (ir_Path ?r) ''/''"
    by (simp_all add: hasPrefix_def)
  have q: "parsable_query (ir_RawQuery ?r)" by code_simp
  from backend_request [OF p, of "\<lambda>q. []" "new_observation ''r''"] q show ?thesis
    by (simp add: Let_def new_observation_def del: parsable_query.simps)
qed

end
