(* ===== verification/Codec.thy ===== *)
theory Codec
  imports Go_Strings
begin

text \<open>
  The encodings of Go's standard library that tokens and passwords go through:
  \<open>base64.RawURLEncoding\<close> (URL alphabet, no padding; the decoder skips line breaks and, not
  being strict, ignores the unused low bits of the last digit) and the UTF-8 functions
  \<open>utf8.ValidString\<close> and \<open>utf8.RuneCountInString\<close>.
\<close>

subsection \<open>Base64 digits\<close>

definition byte :: "char \<Rightarrow> nat" where
  [go_defs]: "byte c = of_char c"

definition b64_digit :: "nat \<Rightarrow> char" where
  [go_defs]: "b64_digit n =
     (if n < 26 then char_of (65 + n)
      else if n < 52 then char_of (97 + (n - 26))
      else if n < 62 then char_of (48 + (n - 52))
      else if n = 62 then CHR ''-'' else CHR ''_'')"

definition b64_value :: "char \<Rightarrow> nat option" where
  [go_defs]: "b64_value c =
     (let b = byte c in
      if 65 \<le> b \<and> b \<le> 90 then Some (b - 65)
      else if 97 \<le> b \<and> b \<le> 122 then Some (b - 97 + 26)
      else if 48 \<le> b \<and> b \<le> 57 then Some (b - 48 + 52)
      else if c = CHR ''-'' then Some 62
      else if c = CHR ''_'' then Some 63
      else None)"

lemma byte_less: "byte c < 256"
  by (simp add: byte_def)

lemma b64_value_digit: "n < 64 \<Longrightarrow> b64_value (b64_digit n) = Some n"
  by (auto simp: b64_digit_def b64_value_def byte_def Let_def)

lemma b64_digit_not_break: "n < 64 \<Longrightarrow> b64_digit n \<noteq> CHR 0x0A \<and> b64_digit n \<noteq> CHR 0x0D"
  using b64_value_digit [of n]
  by (auto simp: b64_value_def byte_def Let_def)

subsection \<open>Encoding and decoding\<close>

fun b64_encode :: "bytes \<Rightarrow> bytes" where
  "b64_encode [] = []"
| "b64_encode [a] = [b64_digit (byte a div 4), b64_digit (byte a mod 4 * 16)]"
| "b64_encode [a, b] =
     [b64_digit (byte a div 4), b64_digit (byte a mod 4 * 16 + byte b div 16),
      b64_digit (byte b mod 16 * 4)]"
| "b64_encode (a # b # c # rest) =
     [b64_digit (byte a div 4), b64_digit (byte a mod 4 * 16 + byte b div 16),
      b64_digit (byte b mod 16 * 4 + byte c div 64), b64_digit (byte c mod 64)] @ b64_encode rest"

text \<open>The decoder on digits; a single digit at the end is an error.\<close>

fun b64_quanta :: "nat list \<Rightarrow> bytes option" where
  "b64_quanta [] = Some []"
| "b64_quanta [w] = None"
| "b64_quanta [w, x] = Some [char_of (w * 4 + x div 16)]"
| "b64_quanta [w, x, y] = Some [char_of (w * 4 + x div 16), char_of (x mod 16 * 16 + y div 4)]"
| "b64_quanta (w # x # y # z # rest) =
     map_option (\<lambda>bs. [char_of (w * 4 + x div 16), char_of (x mod 16 * 16 + y div 4),
                       char_of (y mod 4 * 64 + z)] @ bs)
       (b64_quanta rest)"

definition b64_decode :: "bytes \<Rightarrow> bytes option" where
  [go_defs]: "b64_decode s =
     Option.bind (those (map b64_value (filter (\<lambda>c. c \<noteq> CHR 0x0A \<and> c \<noteq> CHR 0x0D) s))) b64_quanta"

lemma those_map_Some: "those (map (\<lambda>x. Some (f x)) xs) = Some (map f xs)"
  by (induction xs) simp_all

text \<open>The digits of an encoding, as numbers.\<close>

fun b64_digits :: "bytes \<Rightarrow> nat list" where
  "b64_digits [] = []"
| "b64_digits [a] = [byte a div 4, byte a mod 4 * 16]"
| "b64_digits [a, b] = [byte a div 4, byte a mod 4 * 16 + byte b div 16, byte b mod 16 * 4]"
| "b64_digits (a # b # c # rest) =
     [byte a div 4, byte a mod 4 * 16 + byte b div 16,
      byte b mod 16 * 4 + byte c div 64, byte c mod 64] @ b64_digits rest"

text \<open>Cutting bytes into six-bit digits and putting them together again.\<close>

lemma byte_parts:
  assumes "(x::nat) < 256"
  shows "x div 4 < 64" "x div 16 < 16" "x div 64 < 4" "x mod 4 < 4" "x mod 16 < 16"
  using assms by (simp_all add: less_mult_imp_div_less)

lemma pack: "r < k \<Longrightarrow> (m * k + r) div k = (m::nat)" "r < k \<Longrightarrow> (m * k + r) mod k = (r::nat)" by simp_all

lemma unpack:
  assumes "(x::nat) < 256" "(y::nat) < 256" "(z::nat) < 256"
  shows "x div 4 * 4 + (x mod 4 * 16 + y div 16) div 16 = x"
    and "(x mod 4 * 16 + y div 16) mod 16 * 16 + (y mod 16 * 4 + z div 64) div 4 = y"
    and "(y mod 16 * 4 + z div 64) mod 4 * 64 + z mod 64 = z"
    and "x mod 4 * 16 + y div 16 < 64" and "y mod 16 * 4 + z div 64 < 64"
proof -
  note x = byte_parts [OF assms(1)] and y = byte_parts [OF assms(2)] and z = byte_parts [OF assms(3)]
  show "x div 4 * 4 + (x mod 4 * 16 + y div 16) div 16 = x"
    by (simp only: pack(1) [OF y(2)] div_mult_mod_eq)
  show "(x mod 4 * 16 + y div 16) mod 16 * 16 + (y mod 16 * 4 + z div 64) div 4 = y"
    by (simp only: pack(2) [OF y(2)] pack(1) [OF z(3)] div_mult_mod_eq)
  show "(y mod 16 * 4 + z div 64) mod 4 * 64 + z mod 64 = z"
    by (simp only: pack(2) [OF z(3)] div_mult_mod_eq)
  show "x mod 4 * 16 + y div 16 < 64" "y mod 16 * 4 + z div 64 < 64"
    using x y z by linarith+
qed
lemma b64_digits_less: "list_all (\<lambda>n. n < 64) (b64_digits bs)"
proof (induction bs rule: b64_digits.induct)
  case (2 a)
  then show ?case using byte_parts [OF byte_less [of a]] by simp
next
  case (3 a b)
  then show ?case
    using byte_parts [OF byte_less [of a]] byte_parts [OF byte_less [of b]]
      unpack(4) [OF byte_less [of a] byte_less [of b] byte_less [of b]] by simp
next
  case (4 a b c rest)
  then show ?case
    using byte_parts(1) [OF byte_less [of a]]
      unpack(4,5) [OF byte_less [of a] byte_less [of b] byte_less [of c]] by simp
qed simp

lemma b64_encode_digits: "b64_encode bs = map b64_digit (b64_digits bs)"
  by (induction bs rule: b64_encode.induct) simp_all

lemma char_of_byte [simp]: "char_of (byte c) = c"
  by (simp add: byte_def)

lemma b64_quanta_digits: "b64_quanta (b64_digits bs) = Some bs"
proof (induction bs rule: b64_digits.induct)
  case (2 a)
  have "byte a mod 4 * 16 div 16 = byte a mod 4" by simp
  then show ?case by (simp only: b64_digits.simps b64_quanta.simps div_mult_mod_eq char_of_byte)
next
  case (3 a b)
  note u = unpack(1) [OF byte_less [of a] byte_less [of b] byte_less [of b]]
  have "(byte a mod 4 * 16 + byte b div 16) mod 16 * 16 + byte b mod 16 * 4 div 4 = byte b"
    using pack(2) [OF byte_parts(2) [OF byte_less [of b]]] by (simp only: nonzero_mult_div_cancel_right) simp
  with u show ?case by (simp only: b64_digits.simps b64_quanta.simps char_of_byte)
next
  case (4 a b c rest)
  then show ?case
    by (simp only: b64_digits.simps b64_quanta.simps append_Cons append_Nil option.map
        unpack [OF byte_less [of a] byte_less [of b] byte_less [of c]] char_of_byte)
qed simp

lemma b64_decode_encode: "b64_decode (b64_encode bs) = Some bs"
proof -
  have "filter (\<lambda>c. c \<noteq> CHR 0x0A \<and> c \<noteq> CHR 0x0D) (b64_encode bs) = b64_encode bs"
    using b64_digits_less [of bs] b64_digit_not_break
    by (auto simp: filter_id_conv b64_encode_digits list_all_iff)
  moreover have "map b64_value (b64_encode bs) = map Some (b64_digits bs)"
    using b64_digits_less [of bs] by (auto simp: b64_encode_digits b64_value_digit list_all_iff)
  ultimately show ?thesis
    using those_map_Some [of "\<lambda>x. x" "b64_digits bs"] by (simp add: b64_decode_def b64_quanta_digits)
qed

lemma length_b64_encode: "length (b64_encode bs) = (length bs * 4 + 2) div 3"
  by (induction bs rule: b64_encode.induct) simp_all

subsection \<open>UTF-8\<close>

text \<open>
  The length of the valid encoding at the start of a text, if there is one: the ranges of
  \<open>unicode/utf8\<close>, which exclude overlong forms, surrogates and code points past U+10FFFF.
\<close>

definition cont :: "char \<Rightarrow> bool" where
  [go_defs]: "cont c \<longleftrightarrow> 0x80 \<le> byte c \<and> byte c \<le> 0xBF"

definition second_ok :: "nat \<Rightarrow> char \<Rightarrow> bool" where
  [go_defs]: "second_ok lead c \<longleftrightarrow>
     (if lead = 0xE0 then 0xA0 else if lead = 0xF0 then 0x90 else 0x80) \<le> byte c \<and>
     byte c \<le> (if lead = 0xED then 0x9F else if lead = 0xF4 then 0x8F else 0xBF)"

fun rune_len :: "bytes \<Rightarrow> nat option" where
  "rune_len [] = None"
| "rune_len (a # rest) =
     (if byte a < 0x80 then Some 1
      else if 0xC2 \<le> byte a \<and> byte a \<le> 0xDF then
        (case rest of b # _ \<Rightarrow> if cont b then Some 2 else None | _ \<Rightarrow> None)
      else if 0xE0 \<le> byte a \<and> byte a \<le> 0xEF then
        (case rest of b # c # _ \<Rightarrow> if second_ok (byte a) b \<and> cont c then Some 3 else None | _ \<Rightarrow> None)
      else if 0xF0 \<le> byte a \<and> byte a \<le> 0xF4 then
        (case rest of b # c # d # _ \<Rightarrow>
           if second_ok (byte a) b \<and> cont c \<and> cont d then Some 4 else None | _ \<Rightarrow> None)
      else None)"

lemma rune_len_bounds: "rune_len s = Some n \<Longrightarrow> 1 \<le> n \<and> n \<le> 4 \<and> n \<le> length s"
  by (cases s) (auto split: if_splits list.splits)

text \<open>An invalid byte counts as one rune and makes the text invalid.\<close>

function rune_count :: "bytes \<Rightarrow> nat" where
  "rune_count [] = 0"
| "rune_count (a # rest) =
     Suc (rune_count (drop (case rune_len (a # rest) of None \<Rightarrow> 1 | Some n \<Rightarrow> n) (a # rest)))"
  by pat_completeness auto
termination
  by (relation "measure length") (auto dest: rune_len_bounds split: option.splits simp del: rune_len.simps)

function utf8_valid :: "bytes \<Rightarrow> bool" where
  "utf8_valid [] = True"
| "utf8_valid (a # rest) =
     (case rune_len (a # rest) of None \<Rightarrow> False | Some n \<Rightarrow> utf8_valid (drop n (a # rest)))"
  by pat_completeness auto
termination
  by (relation "measure length") (auto dest: rune_len_bounds simp del: rune_len.simps)

declare rune_count.simps [simp del] utf8_valid.simps [simp del]
declare rune_count.simps [go_defs] utf8_valid.simps [go_defs] rune_len.simps [simp del, go_defs]

text \<open>ASCII text, which evaluation recognises by the top bit alone.\<close>

lemma digit7_byte: "digit7 c \<longleftrightarrow> 128 \<le> byte c"
  by (cases c) (auto simp: byte_def of_char_def)

lemma ascii_runes:
  assumes "list_all (\<lambda>c. \<not> digit7 c) s"
  shows "utf8_valid s" and "rune_count s = length s"
  using assms
  by (induction s) (simp_all add: utf8_valid.simps rune_count.simps rune_len.simps digit7_byte)

lemma utf8_valid_code [code]:
  "utf8_valid s \<longleftrightarrow> list_all (\<lambda>c. \<not> digit7 c) s \<or>
     (case s of [] \<Rightarrow> True
      | a # rest \<Rightarrow> (case rune_len s of None \<Rightarrow> False | Some n \<Rightarrow> utf8_valid (drop n s)))"
  by (cases s) (auto simp: ascii_runes(1) utf8_valid.simps rune_len.simps digit7_byte)

lemma rune_count_code [code]:
  "rune_count s = (if list_all (\<lambda>c. \<not> digit7 c) s then length s
     else Suc (rune_count (drop (case rune_len s of None \<Rightarrow> 1 | Some n \<Rightarrow> n) s)))"
  by (cases s) (auto simp: ascii_runes(2) rune_count.simps rune_len.simps digit7_byte)

lemma rune_count_bounds: "rune_count s \<le> length s \<and> length s \<le> 4 * rune_count s"
proof (induction s rule: rune_count.induct)
  case (2 a rest)
  let ?n = "case rune_len (a # rest) of None \<Rightarrow> 1 | Some n \<Rightarrow> n"
  have "1 \<le> ?n" "?n \<le> 4" "?n \<le> length (a # rest)"
    using rune_len_bounds [of "a # rest"] by (auto split: option.splits)
  moreover have "rune_count (a # rest) = Suc (rune_count (drop ?n (a # rest)))"
    by (rule rune_count.simps)
  ultimately show ?case
    using 2 unfolding length_drop by linarith
qed (simp add: rune_count.simps)

end
