(* ===== verification/Account_DB.thy ===== *)
theory Account_DB
  imports Codec
begin

text \<open>
  The account database: the tables of \<open>internal/accountdb/schema.sql\<close> (versions 1 to 3) with the
  row types of \<open>internal/accountdb/db/models.go\<close>, and the statements of
  \<open>internal/accountdb/db/queries.sql.go\<close>, each with its constraints as errors. A table is the
  list of its rows. A statement either returns an error and has no effect, or its result and
  the new database. Times are microseconds since the epoch, and the session's time zone is UTC.
  BIGINT columns hold integers; a value outside 64 bits is the error \<open>OutOfRange\<close>. A TEXT
  parameter must be valid UTF-8 without NUL. Text is ordered bytewise.
\<close>

subsection \<open>Rows and tables\<close>

type_synonym time = int
type_synonym date = int

record User =
  usr_ID :: bytes
  usr_Email :: bytes
  usr_CreatedAt :: time

record Account =
  acc_ID :: bytes
  acc_Name :: bytes
  acc_CreatedAt :: time

record AccountMember =
  mem_AccountID :: bytes
  mem_UserID :: bytes
  mem_Role :: bytes

record ApiKey =
  key_ID :: bytes
  key_AccountID :: bytes
  key_CreatedByUserID :: bytes
  key_Name :: bytes
  key_TokenHash :: bytes
  key_CreatedAt :: time
  key_RevokedAt :: "time option"

record ModelPrice =
  price_ID :: bytes
  price_Model :: bytes
  price_InputRateMicroPerMillion :: int
  price_OutputRateMicroPerMillion :: int
  price_CreatedAt :: time

record UsageDaily =
  day_Day :: date
  day_AccountID :: bytes
  day_KeyID :: bytes
  day_Model :: bytes
  day_RequestCount :: int
  day_CompleteCount :: int
  day_IncompleteCount :: int
  day_FailedCount :: int
  day_PromptTokens :: int
  day_CompletionTokens :: int
  day_EstimatedCostMicro :: int
  day_PricedCount :: int

record UsageEvent =
  ev_RequestID :: bytes
  ev_AccountID :: bytes
  ev_KeyID :: bytes
  ev_Model :: bytes
  ev_Backend :: bytes
  ev_PriceID :: "bytes option"
  ev_StartedAt :: time
  ev_FinishedAt :: "time option"
  ev_State :: bytes
  ev_HttpStatus :: "int option"
  ev_PromptTokens :: "int option"
  ev_CompletionTokens :: "int option"
  ev_EstimatedCostMicro :: "int option"
  ev_RolledUpAt :: "time option"

record PortalSessionRow =
  ses_TokenHash :: bytes
  ses_UserID :: bytes
  ses_AccountID :: bytes
  ses_ExpiresAt :: time

record LoginAttempt =
  la_Email :: bytes
  la_Attempts :: int
  la_WindowStarted :: time

record database =
  db_users :: "User list"
  db_passwords :: "(bytes \<times> bytes) list"
  db_accounts :: "Account list"
  db_members :: "AccountMember list"
  db_keys :: "ApiKey list"
  db_prices :: "ModelPrice list"
  db_events :: "UsageEvent list"
  db_daily :: "UsageDaily list"
  db_sessions :: "PortalSessionRow list"
  db_attempts :: "LoginAttempt list"

definition empty_db :: database where
  "empty_db = \<lparr>db_users = [], db_passwords = [], db_accounts = [], db_members = [], db_keys = [],
     db_prices = [], db_events = [], db_daily = [], db_sessions = [], db_attempts = []\<rparr>"

subsection \<open>Errors and values\<close>

datatype pg_error =
    UniqueViolation bytes
  | ForeignKeyViolation
  | CheckViolation
  | OutOfRange
  | BadText
  | NoRows
  | Unavailable

definition text_ok :: "bytes \<Rightarrow> bool" where
  "text_ok s \<longleftrightarrow> CHR 0x00 \<notin> set s \<and> utf8_valid s"

definition bigint_ok :: "int \<Rightarrow> bool" where
  "bigint_ok x \<longleftrightarrow> - (2 ^ 63) \<le> x \<and> x < 2 ^ 63"

definition microseconds_per_day :: int where
  "microseconds_per_day = 24 * 60 * 60 * 1000000"

text \<open>\<open>t::date\<close>, as the number of the day.\<close>

definition day_of :: "time \<Rightarrow> date" where
  "day_of t = t div microseconds_per_day"

text \<open>UPDATE: the rows that match, changed; the number of them. An error undoes the statement.\<close>

fun update_rows :: "('r \<Rightarrow> bool) \<Rightarrow> ('r \<Rightarrow> pg_error + 'r) \<Rightarrow> 'r list \<Rightarrow> pg_error + nat \<times> 'r list" where
  "update_rows P f [] = Inr (0, [])"
| "update_rows P f (r # rs) =
     (case update_rows P f rs of
        Inl e \<Rightarrow> Inl e
      | Inr (n, rs') \<Rightarrow>
          if P r then (case f r of Inl e \<Rightarrow> Inl e | Inr r' \<Rightarrow> Inr (Suc n, r' # rs'))
          else Inr (n, r # rs'))"

subsection \<open>Accounts and keys\<close>

definition CreateUser :: "time \<Rightarrow> bytes \<Rightarrow> bytes \<Rightarrow> database \<Rightarrow> pg_error + database" where
  "CreateUser now i email db =
     (if \<not> text_ok i \<or> \<not> text_ok email then Inl BadText
      else if i \<in> usr_ID ` set (db_users db) then Inl (UniqueViolation ''users_pkey'')
      else if email \<in> usr_Email ` set (db_users db) then Inl (UniqueViolation ''users_email_key'')
      else Inr (db\<lparr>db_users := db_users db @ [\<lparr>usr_ID = i, usr_Email = email, usr_CreatedAt = now\<rparr>]\<rparr>))"

definition CreateAccount :: "time \<Rightarrow> bytes \<Rightarrow> bytes \<Rightarrow> database \<Rightarrow> pg_error + database" where
  "CreateAccount now i name db =
     (if \<not> text_ok i \<or> \<not> text_ok name then Inl BadText
      else if i \<in> acc_ID ` set (db_accounts db) then Inl (UniqueViolation ''accounts_pkey'')
      else Inr (db\<lparr>db_accounts := db_accounts db @ [\<lparr>acc_ID = i, acc_Name = name, acc_CreatedAt = now\<rparr>]\<rparr>))"

definition AddAccountOwner :: "bytes \<Rightarrow> bytes \<Rightarrow> database \<Rightarrow> pg_error + database" where
  "AddAccountOwner accountID userID db =
     (if \<not> text_ok accountID \<or> \<not> text_ok userID then Inl BadText
      else if (accountID, userID) \<in> (\<lambda>m. (mem_AccountID m, mem_UserID m)) ` set (db_members db)
      then Inl (UniqueViolation ''account_members_pkey'')
      else if accountID \<notin> acc_ID ` set (db_accounts db) \<or> userID \<notin> usr_ID ` set (db_users db)
      then Inl ForeignKeyViolation
      else Inr (db\<lparr>db_members := db_members db @
        [\<lparr>mem_AccountID = accountID, mem_UserID = userID, mem_Role = ''owner''\<rparr>]\<rparr>))"

definition FindAccountOwner :: "bytes \<Rightarrow> database \<Rightarrow> pg_error + bytes" where
  "FindAccountOwner accountID db =
     (if \<not> text_ok accountID then Inl BadText
      else case sort (map mem_UserID
                  (filter (\<lambda>m. mem_AccountID m = accountID \<and> mem_Role m = ''owner'') (db_members db))) of
        [] \<Rightarrow> Inl NoRows
      | u # _ \<Rightarrow> Inr u)"

definition CreateAPIKey ::
    "time \<Rightarrow> bytes \<Rightarrow> bytes \<Rightarrow> bytes \<Rightarrow> bytes \<Rightarrow> bytes \<Rightarrow> database \<Rightarrow> pg_error + database" where
  "CreateAPIKey now i accountID userID name tokenHash db =
     (if \<not> text_ok i \<or> \<not> text_ok accountID \<or> \<not> text_ok userID \<or> \<not> text_ok name then Inl BadText
      else if i \<in> key_ID ` set (db_keys db) then Inl (UniqueViolation ''api_keys_pkey'')
      else if accountID \<notin> acc_ID ` set (db_accounts db) \<or> userID \<notin> usr_ID ` set (db_users db)
      then Inl ForeignKeyViolation
      else Inr (db\<lparr>db_keys := db_keys db @
        [\<lparr>key_ID = i, key_AccountID = accountID, key_CreatedByUserID = userID, key_Name = name,
          key_TokenHash = tokenHash, key_CreatedAt = now, key_RevokedAt = None\<rparr>]\<rparr>))"

definition RevokeAPIKey :: "time \<Rightarrow> bytes \<Rightarrow> database \<Rightarrow> pg_error + nat \<times> database" where
  "RevokeAPIKey now i db =
     (if \<not> text_ok i then Inl BadText
      else case update_rows (\<lambda>k. key_ID k = i \<and> key_RevokedAt k = None)
                  (\<lambda>k. Inr (k\<lparr>key_RevokedAt := Some now\<rparr>)) (db_keys db) of
        Inl e \<Rightarrow> Inl e
      | Inr (n, ks) \<Rightarrow> Inr (n, db\<lparr>db_keys := ks\<rparr>))"

definition GetActiveAPIKey :: "bytes \<Rightarrow> database \<Rightarrow> pg_error + bytes \<times> bytes \<times> bytes" where
  "GetActiveAPIKey i db =
     (if \<not> text_ok i then Inl BadText
      else case find (\<lambda>k. key_ID k = i \<and> key_RevokedAt k = None) (db_keys db) of
        None \<Rightarrow> Inl NoRows
      | Some k \<Rightarrow> Inr (key_AccountID k, key_ID k, key_TokenHash k))"

subsection \<open>Prices and usage events\<close>

definition SetModelPrice :: "time \<Rightarrow> bytes \<Rightarrow> bytes \<Rightarrow> int \<Rightarrow> int \<Rightarrow> database \<Rightarrow> pg_error + database" where
  "SetModelPrice now i model inputRate outputRate db =
     (if \<not> text_ok i \<or> \<not> text_ok model then Inl BadText
      else if inputRate < 0 \<or> outputRate < 0 then Inl CheckViolation
      else if i \<in> price_ID ` set (db_prices db) then Inl (UniqueViolation ''model_prices_pkey'')
      else Inr (db\<lparr>db_prices := db_prices db @
        [\<lparr>price_ID = i, price_Model = model, price_InputRateMicroPerMillion = inputRate,
          price_OutputRateMicroPerMillion = outputRate, price_CreatedAt = now\<rparr>]\<rparr>))"

text \<open>\<open>ORDER BY created_at DESC, id DESC LIMIT 1\<close> over the prices of a model.\<close>

fun latest_price :: "bytes \<Rightarrow> ModelPrice list \<Rightarrow> ModelPrice option" where
  "latest_price model [] = None"
| "latest_price model (p # ps) =
     (if price_Model p \<noteq> model then latest_price model ps
      else case latest_price model ps of
        None \<Rightarrow> Some p
      | Some q \<Rightarrow>
          if price_CreatedAt q < price_CreatedAt p \<or>
             price_CreatedAt q = price_CreatedAt p \<and> price_ID q < price_ID p
          then Some p else Some q)"

definition BeginUsage :: "time \<Rightarrow> bytes \<Rightarrow> bytes \<Rightarrow> bytes \<Rightarrow> bytes \<Rightarrow> database \<Rightarrow> pg_error + database" where
  "BeginUsage now requestID accountID keyID model db =
     (if \<not> text_ok requestID \<or> \<not> text_ok accountID \<or> \<not> text_ok keyID \<or> \<not> text_ok model then Inl BadText
      else if requestID \<in> ev_RequestID ` set (db_events db) then Inl (UniqueViolation ''usage_events_pkey'')
      else if accountID \<notin> acc_ID ` set (db_accounts db) \<or> keyID \<notin> key_ID ` set (db_keys db)
      then Inl ForeignKeyViolation
      else Inr (db\<lparr>db_events := db_events db @
        [\<lparr>ev_RequestID = requestID, ev_AccountID = accountID, ev_KeyID = keyID, ev_Model = model,
          ev_Backend = [], ev_PriceID = map_option price_ID (latest_price model (db_prices db)),
          ev_StartedAt = now, ev_FinishedAt = None, ev_State = ''pending'', ev_HttpStatus = None,
          ev_PromptTokens = None, ev_CompletionTokens = None, ev_EstimatedCostMicro = None,
          ev_RolledUpAt = None\<rparr>]\<rparr>))"

text \<open>\<open>round(x / 1000000)\<close> of a nonnegative numeric: to the nearest integer, ties upwards.\<close>

definition per_million :: "int \<Rightarrow> int" where
  "per_million x = (x + 500000) div 1000000"

definition event_cost ::
    "ModelPrice list \<Rightarrow> bytes option \<Rightarrow> bytes \<Rightarrow> int option \<Rightarrow> int option \<Rightarrow> int option" where
  "event_cost prices priceID state prompt completion =
     (if state \<noteq> ''complete'' then None
      else case (Option.bind priceID (\<lambda>i. find (\<lambda>p. price_ID p = i) prices), prompt, completion) of
        (Some p, Some x, Some y) \<Rightarrow>
          Some (per_million (x * price_InputRateMicroPerMillion p + y * price_OutputRateMicroPerMillion p))
      | _ \<Rightarrow> None)"

definition event_states :: "bytes list" where
  "event_states = [''pending'', ''complete'', ''incomplete'', ''failed'']"

text \<open>The CHECK constraints of \<open>usage_events\<close>.\<close>

definition event_check :: "UsageEvent \<Rightarrow> bool" where
  "event_check e \<longleftrightarrow>
     ev_State e \<in> set event_states \<and>
     pred_option ((\<le>) 0) (ev_PromptTokens e) \<and> pred_option ((\<le>) 0) (ev_CompletionTokens e) \<and>
     pred_option ((\<le>) 0) (ev_EstimatedCostMicro e) \<and>
     (ev_State e \<noteq> ''complete'' \<or> ev_PromptTokens e \<noteq> None \<and> ev_CompletionTokens e \<noteq> None)"

definition FinishUsage ::
    "time \<Rightarrow> bytes \<Rightarrow> int option \<Rightarrow> bytes \<Rightarrow> int option \<Rightarrow> int option \<Rightarrow> bytes \<Rightarrow> database \<Rightarrow>
     pg_error + nat \<times> database" where
  "FinishUsage now backend httpStatus state prompt completion requestID db =
     (if \<not> text_ok backend \<or> \<not> text_ok state \<or> \<not> text_ok requestID then Inl BadText
      else case update_rows (\<lambda>e. ev_RequestID e = requestID \<and> ev_State e = ''pending'')
          (\<lambda>e. let cost = event_cost (db_prices db) (ev_PriceID e) state prompt completion;
                   e' = e\<lparr>ev_Backend := backend, ev_HttpStatus := httpStatus, ev_State := state,
                          ev_PromptTokens := prompt, ev_CompletionTokens := completion,
                          ev_FinishedAt := Some now, ev_EstimatedCostMicro := cost\<rparr>
               in if \<not> pred_option bigint_ok cost then Inl OutOfRange
                  else if \<not> event_check e' then Inl CheckViolation else Inr e')
          (db_events db) of
        Inl e \<Rightarrow> Inl e
      | Inr (n, es) \<Rightarrow> Inr (n, db\<lparr>db_events := es\<rparr>))"

definition seven_days :: int where
  "seven_days = 7 * microseconds_per_day"

definition ExpirePendingUsage :: "time \<Rightarrow> database \<Rightarrow> database" where
  "ExpirePendingUsage now db =
     db\<lparr>db_events := map (\<lambda>e. if ev_State e = ''pending'' \<and> ev_StartedAt e < now - seven_days
                              then e\<lparr>ev_State := ''incomplete'', ev_FinishedAt := Some now\<rparr> else e)
          (db_events db)\<rparr>"

end
