(* ===== verification/Account_Store.thy ===== *)
theory Account_Store
  imports Account_DB
begin

text \<open>
  The account store (\<open>internal/accountdb/store.go\<close>, \<open>internal/accountdb/portal.go\<close>): signup,
  API keys, authentication, the usage ledger's two writes, prices, and the portal's login,
  sessions and key lookup. Parameters (\<open>storeEnv\<close>): \<open>strings.ToLower\<close>, SHA-256 and the
  Argon2id library. Random values are arguments, because Go's \<open>crypto/rand\<close> does not fail.
  A call of the database may be lost, or run without its answer arriving (\<open>fault\<close>); both are
  the error \<open>Unavailable\<close> to the caller.
\<close>

subsection \<open>Calls of the database\<close>

datatype fault = Fine | Lost | Unacknowledged

definition exec :: "fault \<Rightarrow> ('d \<Rightarrow> pg_error + 'a \<times> 'd) \<Rightarrow> 'd \<Rightarrow> (pg_error + 'a) \<times> 'd" where
  "exec ft stmt db =
     (case ft of
        Fine \<Rightarrow> (case stmt db of Inl e \<Rightarrow> (Inl e, db) | Inr (x, db') \<Rightarrow> (Inr x, db'))
      | Lost \<Rightarrow> (Inl Unavailable, db)
      | Unacknowledged \<Rightarrow> (Inl Unavailable, case stmt db of Inl e \<Rightarrow> db | Inr (x, db') \<Rightarrow> db'))"

definition exec_unit :: "fault \<Rightarrow> ('d \<Rightarrow> pg_error + 'd) \<Rightarrow> 'd \<Rightarrow> (pg_error + unit) \<times> 'd" where
  "exec_unit ft stmt = exec ft (\<lambda>db. case stmt db of Inl e \<Rightarrow> Inl e | Inr db' \<Rightarrow> Inr ((), db'))"

definition query :: "fault \<Rightarrow> ('d \<Rightarrow> pg_error + 'a) \<Rightarrow> 'd \<Rightarrow> pg_error + 'a" where
  "query ft stmt db = (if ft = Fine then stmt db else Inl Unavailable)"

text \<open>Statements of a transaction, in order; a fault in any of them rolls everything back.\<close>

fun run_tx :: "(nat \<Rightarrow> fault) \<Rightarrow> nat \<Rightarrow> ('d \<Rightarrow> pg_error + 'd) list \<Rightarrow> 'd \<Rightarrow> pg_error + 'd" where
  "run_tx fts i [] db = Inr db"
| "run_tx fts i (stmt # stmts) db =
     (case query (fts i) stmt db of
        Inl e \<Rightarrow> Inl e
      | Inr db' \<Rightarrow> run_tx fts (Suc i) stmts db')"

datatype store_error =
    InvalidInput bytes
  | EmailTaken
  | InvalidKey
  | InvalidCredentials
  | LoginLimited
  | InvalidSession
  | DatabaseError pg_error

record storeEnv =
  se_lower :: "bytes \<Rightarrow> bytes"
  se_sha256 :: "bytes \<Rightarrow> bytes"
  se_createHash :: "bytes \<Rightarrow> bytes \<Rightarrow> bytes option"
  se_compare :: "bytes \<Rightarrow> bytes \<Rightarrow> bool"

subsection \<open>Passwords and tokens\<close>

definition hashPassword :: "storeEnv \<Rightarrow> bytes \<Rightarrow> bytes \<Rightarrow> store_error + bytes" where
  "hashPassword env salt password =
     (if \<not> utf8_valid password \<or> rune_count password < 10 \<or> length password > 256
      then Inl (InvalidInput ''password must contain at least 10 characters and at most 256 bytes'')
      else case se_createHash env salt password of
        None \<Rightarrow> Inl (DatabaseError Unavailable)
      | Some h \<Rightarrow> Inr h)"

definition newSessionToken :: "storeEnv \<Rightarrow> bytes \<Rightarrow> bytes \<times> bytes" where
  "newSessionToken env random = (b64_encode random, se_sha256 env (b64_encode random))"

definition sessionDigest :: "storeEnv \<Rightarrow> bytes \<Rightarrow> bytes option" where
  "sessionDigest env token =
     (if length token \<noteq> 43 then None
      else case b64_decode token of
        None \<Rightarrow> None
      | Some decoded \<Rightarrow> if length decoded \<noteq> 32 then None else Some (se_sha256 env token))"

definition key_token :: "bytes \<Rightarrow> bytes \<Rightarrow> bytes" where
  "key_token keyID secret = ''vire_'' @ keyID @ CHR ''_'' # b64_encode secret"

subsection \<open>Signup and keys\<close>

record signupRandom =
  sr_userID :: bytes
  sr_accountID :: bytes
  sr_keyID :: bytes
  sr_secret :: bytes
  sr_session :: bytes
  sr_salt :: bytes

record SignupResult =
  su_AccountID :: bytes
  su_KeyID :: bytes
  su_APIKey :: bytes
  su_SessionToken :: bytes

definition insert_password :: "bytes \<Rightarrow> bytes \<Rightarrow> database \<Rightarrow> pg_error + database" where
  "insert_password userID passwordHash db =
     (if \<not> text_ok userID \<or> \<not> text_ok passwordHash then Inl BadText
      else if userID \<in> fst ` set (db_passwords db) then Inl (UniqueViolation ''user_passwords_pkey'')
      else if userID \<notin> usr_ID ` set (db_users db) then Inl ForeignKeyViolation
      else Inr (db\<lparr>db_passwords := db_passwords db @ [(userID, passwordHash)]\<rparr>))"

definition insert_session :: "time \<Rightarrow> bytes \<Rightarrow> bytes \<Rightarrow> bytes \<Rightarrow> database \<Rightarrow> pg_error + database" where
  "insert_session now tokenHash userID accountID db =
     (if \<not> text_ok userID \<or> \<not> text_ok accountID then Inl BadText
      else if tokenHash \<in> ses_TokenHash ` set (db_sessions db)
      then Inl (UniqueViolation ''portal_sessions_pkey'')
      else if userID \<notin> usr_ID ` set (db_users db) \<or> accountID \<notin> acc_ID ` set (db_accounts db)
      then Inl ForeignKeyViolation
      else Inr (db\<lparr>db_sessions := db_sessions db @
        [\<lparr>ses_TokenHash = tokenHash, ses_UserID = userID, ses_AccountID = accountID,
          ses_ExpiresAt = now + seven_days\<rparr>]\<rparr>))"

definition normalize_email :: "storeEnv \<Rightarrow> bytes \<Rightarrow> bytes" where
  "normalize_email env email = se_lower env (trimSpace email)"

definition signup_statements ::
    "storeEnv \<Rightarrow> time \<Rightarrow> signupRandom \<Rightarrow> bytes \<Rightarrow> bytes \<Rightarrow> bytes \<Rightarrow> (database \<Rightarrow> pg_error + database) list" where
  "signup_statements env now rnd email name passwordHash =
     [CreateUser now (sr_userID rnd) email,
      insert_password (sr_userID rnd) passwordHash,
      CreateAccount now (sr_accountID rnd) name,
      AddAccountOwner (sr_accountID rnd) (sr_userID rnd),
      CreateAPIKey now (sr_keyID rnd) (sr_accountID rnd) (sr_userID rnd) ''Default''
        (se_sha256 env (key_token (sr_keyID rnd) (sr_secret rnd))),
      insert_session now (snd (newSessionToken env (sr_session rnd))) (sr_userID rnd) (sr_accountID rnd)]"

text \<open>
  Fault 0 is the begin of the transaction, 1 to 6 its statements, 7 the commit. The error of the
  first statement is mapped when it is the violated unique email.
\<close>

definition Signup ::
    "storeEnv \<Rightarrow> time \<Rightarrow> signupRandom \<Rightarrow> (nat \<Rightarrow> fault) \<Rightarrow> bytes \<Rightarrow> bytes \<Rightarrow> bytes \<Rightarrow> database \<Rightarrow>
     (store_error + SignupResult) \<times> database" where
  "Signup env now rnd fts email0 name0 password db =
     (let email = normalize_email env email0; name = trimSpace name0 in
      if email = [] \<or> CHR ''@'' \<notin> set email \<or> name = []
      then (Inl (InvalidInput ''a valid email and nonempty account name are required''), db)
      else case hashPassword env (sr_salt rnd) password of
        Inl e \<Rightarrow> (Inl e, db)
      | Inr passwordHash \<Rightarrow>
          if fts 0 \<noteq> Fine then (Inl (DatabaseError Unavailable), db)
          else case run_tx fts 1 (signup_statements env now rnd email name passwordHash) db of
            Inl e \<Rightarrow>
              (Inl (if e = UniqueViolation ''users_email_key'' then EmailTaken else DatabaseError e), db)
          | Inr db' \<Rightarrow>
              (case exec_unit (fts 7) (\<lambda>_. Inr db') db of
                 (Inl e, db'') \<Rightarrow> (Inl (DatabaseError e), db'')
               | (Inr _, db'') \<Rightarrow>
                   (Inr \<lparr>su_AccountID = sr_accountID rnd, su_KeyID = sr_keyID rnd,
                         su_APIKey = key_token (sr_keyID rnd) (sr_secret rnd),
                         su_SessionToken = fst (newSessionToken env (sr_session rnd))\<rparr>, db'')))"

definition IssueKey ::
    "storeEnv \<Rightarrow> time \<Rightarrow> bytes \<Rightarrow> bytes \<Rightarrow> (nat \<Rightarrow> fault) \<Rightarrow> bytes \<Rightarrow> bytes \<Rightarrow> database \<Rightarrow>
     (store_error + bytes \<times> bytes) \<times> database" where
  "IssueKey env now keyID secret fts accountID name0 db =
     (let name = trimSpace name0 in
      if name = [] then (Inl (InvalidInput ''key name is required''), db)
      else case query (fts 0) (FindAccountOwner accountID) db of
        Inl e \<Rightarrow> (Inl (DatabaseError e), db)
      | Inr ownerID \<Rightarrow>
          (case exec_unit (fts 1) (CreateAPIKey now keyID accountID ownerID name
                  (se_sha256 env (key_token keyID secret))) db of
             (Inl e, db') \<Rightarrow> (Inl (DatabaseError e), db')
           | (Inr _, db') \<Rightarrow> (Inr (keyID, key_token keyID secret), db')))"

definition RevokeKey :: "time \<Rightarrow> fault \<Rightarrow> bytes \<Rightarrow> database \<Rightarrow> (store_error + unit) \<times> database" where
  "RevokeKey now ft keyID db =
     (case exec ft (RevokeAPIKey now keyID) db of
        (Inl e, db') \<Rightarrow> (Inl (DatabaseError e), db')
      | (Inr rows, db') \<Rightarrow>
          if rows = 0 then (Inl (InvalidInput ''active key not found''), db') else (Inr (), db'))"

subsection \<open>Authentication\<close>

record KeyIdentity =
  ki_AccountID :: bytes
  ki_KeyID :: bytes

definition parse_token :: "bytes \<Rightarrow> bytes option" where
  "parse_token token =
     (if length token > 128 \<or> \<not> hasPrefix token ''vire_'' then None
      else case cut (trimPrefix token ''vire_'') CHR ''_'' of
        (keyID, secret, ok) \<Rightarrow>
          (case b64_decode secret of
             None \<Rightarrow> None
           | Some decoded \<Rightarrow> if \<not> ok \<or> keyID = [] \<or> length decoded \<noteq> 32 then None else Some keyID))"

definition Authenticate :: "storeEnv \<Rightarrow> fault \<Rightarrow> bytes \<Rightarrow> database \<Rightarrow> store_error + KeyIdentity" where
  "Authenticate env ft token db =
     (case parse_token token of
        None \<Rightarrow> Inl InvalidKey
      | Some keyID \<Rightarrow>
          (case query ft (GetActiveAPIKey keyID) db of
             Inl e \<Rightarrow> Inl (if e = NoRows then InvalidKey else DatabaseError e)
           | Inr (accountID, i, tokenHash) \<Rightarrow>
               if se_sha256 env token \<noteq> tokenHash then Inl InvalidKey
               else Inr \<lparr>ki_AccountID = accountID, ki_KeyID = i\<rparr>))"

subsection \<open>The usage ledger\<close>

record UsageStart =
  us_RequestID :: bytes
  us_AccountID :: bytes
  us_KeyID :: bytes
  us_Model :: bytes

record UsageFinish =
  uf_RequestID :: bytes
  uf_Backend :: bytes
  uf_Status :: int
  uf_Outcome :: bytes
  uf_PromptTokens :: "int64 option"
  uf_CompletionTokens :: "int64 option"

definition Store_BeginUsage :: "time \<Rightarrow> fault \<Rightarrow> UsageStart \<Rightarrow> database \<Rightarrow> (store_error + unit) \<times> database" where
  "Store_BeginUsage now ft start db =
     (case exec_unit ft (BeginUsage now (us_RequestID start) (us_AccountID start) (us_KeyID start)
             (us_Model start)) db of
        (Inl e, db') \<Rightarrow> (Inl (DatabaseError e), db')
      | (Inr _, db') \<Rightarrow> (Inr (), db'))"

definition int32_of :: "int \<Rightarrow> int" where
  "int32_of x = sint (word_of_int x :: 32 word)"

definition Store_FinishUsage :: "time \<Rightarrow> fault \<Rightarrow> UsageFinish \<Rightarrow> database \<Rightarrow> (store_error + unit) \<times> database" where
  "Store_FinishUsage now ft finish db =
     (if uf_Outcome finish \<notin> {''complete'', ''incomplete'', ''failed''}
      then (Inl (InvalidInput ''invalid usage outcome''), db)
      else if uf_Outcome finish = ''complete'' \<and>
              (uf_PromptTokens finish = None \<or> uf_CompletionTokens finish = None)
      then (Inl (InvalidInput ''complete usage requires token counts''), db)
      else case exec ft (FinishUsage now (uf_Backend finish) (Some (int32_of (uf_Status finish)))
                  (uf_Outcome finish) (map_option sint (uf_PromptTokens finish))
                  (map_option sint (uf_CompletionTokens finish)) (uf_RequestID finish)) db of
        (Inl e, db') \<Rightarrow> (Inl (DatabaseError e), db')
      | (Inr rows, db') \<Rightarrow>
          if rows \<noteq> 1 then (Inl (InvalidInput ''pending usage request not found''), db')
          else (Inr (), db'))"

definition SetPrice ::
    "time \<Rightarrow> bytes \<Rightarrow> fault \<Rightarrow> bytes \<Rightarrow> int64 \<Rightarrow> int64 \<Rightarrow> database \<Rightarrow> (store_error + bytes) \<times> database" where
  "SetPrice now i ft model0 inputRate outputRate db =
     (let model = trimSpace model0 in
      if model = [] \<or> sint inputRate < 0 \<or> sint outputRate < 0
      then (Inl (InvalidInput ''model and nonnegative rates are required''), db)
      else case exec_unit ft (SetModelPrice now i model (sint inputRate) (sint outputRate)) db of
        (Inl e, db') \<Rightarrow> (Inl (DatabaseError e), db')
      | (Inr _, db') \<Rightarrow> (Inr i, db'))"

subsection \<open>The portal's sessions\<close>

record PortalAccount =
  pa_AccountID :: bytes
  pa_Name :: bytes
  pa_Email :: bytes

definition login_window :: int where
  "login_window = 15 * 60 * 1000000"

text \<open>
  The upsert of \<open>login_attempts\<close>: a new row, a new window when the old one is over, or one more
  attempt; the column is a 32-bit INTEGER.
\<close>

definition next_attempt :: "time \<Rightarrow> LoginAttempt \<Rightarrow> LoginAttempt" where
  "next_attempt now a =
     a\<lparr>la_Attempts := (if la_WindowStarted a < now - login_window then 1 else la_Attempts a + 1),
       la_WindowStarted := (if la_WindowStarted a < now - login_window then now else la_WindowStarted a)\<rparr>"

definition count_attempt :: "time \<Rightarrow> bytes \<Rightarrow> database \<Rightarrow> pg_error + int \<times> database" where
  "count_attempt now email db =
     (if \<not> text_ok email then Inl BadText
      else case find (\<lambda>a. la_Email a = email) (db_attempts db) of
        None \<Rightarrow>
          Inr (1, db\<lparr>db_attempts := db_attempts db @
            [\<lparr>la_Email = email, la_Attempts = 1, la_WindowStarted = now\<rparr>]\<rparr>)
      | Some a \<Rightarrow>
          if 2 ^ 31 \<le> la_Attempts (next_attempt now a) then Inl OutOfRange
          else Inr (la_Attempts (next_attempt now a),
                    db\<lparr>db_attempts := map (\<lambda>b. if la_Email b = email then next_attempt now b else b)
                                         (db_attempts db)\<rparr>))"

text \<open>The join that finds the credentials of an email, with the account the user owns.\<close>

definition find_login :: "bytes \<Rightarrow> database \<Rightarrow> pg_error + bytes \<times> PortalAccount \<times> bytes" where
  "find_login email db =
     (if \<not> text_ok email then Inl BadText
      else case concat (map (\<lambda>u. concat (map (\<lambda>p. concat (map (\<lambda>m. concat (map (\<lambda>a.
                  if usr_Email u = email \<and> fst p = usr_ID u \<and> mem_UserID m = usr_ID u \<and>
                     mem_Role m = ''owner'' \<and> acc_ID a = mem_AccountID m
                  then [(usr_ID u,
                         \<lparr>pa_AccountID = acc_ID a, pa_Name = acc_Name a, pa_Email = usr_Email u\<rparr>, snd p)]
                  else []) (db_accounts db))) (db_members db))) (db_passwords db))) (db_users db)) of
        [] \<Rightarrow> Inl NoRows
      | r # _ \<Rightarrow> Inr r)"

record PortalSession =
  po_Token :: bytes
  po_Account :: PortalAccount

definition delete_attempts :: "bytes \<Rightarrow> database \<Rightarrow> pg_error + database" where
  "delete_attempts email db =
     (if \<not> text_ok email then Inl BadText
      else Inr (db\<lparr>db_attempts := filter (\<lambda>a. la_Email a \<noteq> email) (db_attempts db)\<rparr>))"

text \<open>
  Faults 0 to 3: the counter, the credentials, the session, and the reset of the counter, whose
  error is ignored. The hash computed for an unknown email has no effect.
\<close>

definition Login ::
    "storeEnv \<Rightarrow> time \<Rightarrow> bytes \<Rightarrow> (nat \<Rightarrow> fault) \<Rightarrow> bytes \<Rightarrow> bytes \<Rightarrow> database \<Rightarrow>
     (store_error + PortalSession) \<times> database" where
  "Login env now random fts email0 password db =
     (let email = normalize_email env email0 in
      case exec (fts 0) (count_attempt now email) db of
        (Inl e, db1) \<Rightarrow> (Inl (DatabaseError e), db1)
      | (Inr attempts, db1) \<Rightarrow>
          if attempts > 5 then (Inl LoginLimited, db1)
          else case query (fts 1) (find_login email) db1 of
            Inl e \<Rightarrow> (Inl (if e = NoRows then InvalidCredentials else DatabaseError e), db1)
          | Inr (userID, account, encoded) \<Rightarrow>
              if \<not> se_compare env password encoded then (Inl InvalidCredentials, db1)
              else case newSessionToken env random of
                (token, digest) \<Rightarrow>
                  (case exec_unit (fts 2) (insert_session now digest userID (pa_AccountID account)) db1 of
                     (Inl e, db2) \<Rightarrow> (Inl (DatabaseError e), db2)
                   | (Inr _, db2) \<Rightarrow>
                       (Inr \<lparr>po_Token = token, po_Account = account\<rparr>,
                        snd (exec_unit (fts 3) (delete_attempts email) db2))))"

definition find_session :: "time \<Rightarrow> bytes \<Rightarrow> database \<Rightarrow> pg_error + PortalAccount" where
  "find_session now digest db =
     (case concat (map (\<lambda>s. concat (map (\<lambda>u. concat (map (\<lambda>a.
              if usr_ID u = ses_UserID s \<and> acc_ID a = ses_AccountID s \<and>
                 ses_TokenHash s = digest \<and> ses_ExpiresAt s > now
              then [\<lparr>pa_AccountID = ses_AccountID s, pa_Name = acc_Name a, pa_Email = usr_Email u\<rparr>]
              else []) (db_accounts db))) (db_users db))) (db_sessions db)) of
        [] \<Rightarrow> Inl NoRows
      | a # _ \<Rightarrow> Inr a)"

definition Session :: "storeEnv \<Rightarrow> time \<Rightarrow> fault \<Rightarrow> bytes \<Rightarrow> database \<Rightarrow> store_error + PortalAccount" where
  "Session env now ft token db =
     (case sessionDigest env token of
        None \<Rightarrow> Inl InvalidSession
      | Some digest \<Rightarrow>
          (case query ft (find_session now digest) db of
             Inl e \<Rightarrow> Inl (if e = NoRows then InvalidSession else DatabaseError e)
           | Inr account \<Rightarrow> Inr account))"

text \<open>\<open>ORDER BY created_at, id LIMIT 1\<close> over the active keys of the account.\<close>

definition chat_key :: "bytes \<Rightarrow> database \<Rightarrow> pg_error + bytes" where
  "chat_key accountID db =
     (if \<not> text_ok accountID then Inl BadText
      else case sort_key key_CreatedAt (sort_key key_ID
                  (filter (\<lambda>k. key_AccountID k = accountID \<and> key_RevokedAt k = None) (db_keys db))) of
        [] \<Rightarrow> Inl NoRows
      | k # _ \<Rightarrow> Inr (key_ID k))"

definition ChatKeyID :: "fault \<Rightarrow> bytes \<Rightarrow> database \<Rightarrow> store_error + bytes" where
  "ChatKeyID ft accountID db =
     (case query ft (chat_key accountID) db of
        Inl e \<Rightarrow> if e = NoRows then Inr [] else Inl (DatabaseError e)
      | Inr i \<Rightarrow> Inr i)"

definition Logout :: "storeEnv \<Rightarrow> fault \<Rightarrow> bytes \<Rightarrow> database \<Rightarrow> (store_error + unit) \<times> database" where
  "Logout env ft token db =
     (case sessionDigest env token of
        None \<Rightarrow> (Inl InvalidSession, db)
      | Some digest \<Rightarrow>
          (case exec_unit ft (\<lambda>db. Inr (db\<lparr>db_sessions :=
                   filter (\<lambda>s. ses_TokenHash s \<noteq> digest) (db_sessions db)\<rparr>)) db of
             (Inl e, db') \<Rightarrow> (Inl (DatabaseError e), db')
           | (Inr _, db') \<Rightarrow> (Inr (), db')))"

end
