(* ===== verification/Accounts.thy ===== *)
theory Accounts
  imports Account_Store Observability Registry
begin

text \<open>
  The account side of the gateway (\<open>gateway/accounts.go\<close>): the store as the handlers see it,
  the authentication of a request, and the public list of models.
\<close>

subsection \<open>The store's interface\<close>

record 'd accountStore =
  as_Authenticate :: "bytes \<Rightarrow> 'd \<Rightarrow> store_error + KeyIdentity"
  as_BeginUsage :: "UsageStart \<Rightarrow> 'd \<Rightarrow> (store_error + unit) \<times> 'd"
  as_FinishUsage :: "UsageFinish \<Rightarrow> 'd \<Rightarrow> (store_error + unit) \<times> 'd"

subsection \<open>Authentication\<close>

definition unauthorized :: "'b reply \<Rightarrow> 'b reply" where
  "unauthorized w =
     writeAPIError (set_reply_header ''Www-Authenticate'' ''Bearer'' w) 401 ''a valid API key is required''"

text \<open>The token of a header that holds exactly one short \<open>Bearer\<close> credential.\<close>

definition bearer_token :: "header \<Rightarrow> bytes option" where
  "bearer_token h =
     (case h ''Authorization'' of
        [v] \<Rightarrow>
          if length v > 256 then None
          else (case Go_Strings.fields v of
                  [scheme, token] \<Rightarrow> if equalFold_ascii scheme ''Bearer'' then Some token else None
                | _ \<Rightarrow> None)
      | _ \<Rightarrow> None)"

text \<open>Without a store every request is let through, with the empty identity.\<close>

definition authenticate ::
    "'d accountStore option \<Rightarrow> 'd \<Rightarrow> header \<Rightarrow> metrics \<Rightarrow> 'b reply \<Rightarrow>
     KeyIdentity option \<times> metrics \<times> 'b reply" where
  "authenticate store d h mx w =
     (case store of
        None \<Rightarrow> (Some \<lparr>ki_AccountID = [], ki_KeyID = []\<rparr>, mx, w)
      | Some s \<Rightarrow>
          (case bearer_token h of
             None \<Rightarrow> (None, mx, unauthorized w)
           | Some token \<Rightarrow>
               (case as_Authenticate s token d of
                  Inr \<iota> \<Rightarrow> (Some \<iota>, mx, w)
                | Inl e \<Rightarrow>
                    if e = InvalidKey then (None, mx, unauthorized w)
                    else (None, mx\<lparr>mx_meteringErrors := add_label (mx_meteringErrors mx) ''authenticate'' 1\<rparr>,
                          writeAPIError w 503 ''account store unavailable''))))"

definition publicModelsHandler ::
    "'d accountStore option \<Rightarrow> (bytes \<times> Model) list \<Rightarrow> 'd \<Rightarrow> header \<Rightarrow> metrics \<Rightarrow> bytes list reply \<Rightarrow>
     metrics \<times> bytes list reply" where
  "publicModelsHandler store catalog d h mx w =
     (case authenticate store d h mx w of
        (None, mx', w') \<Rightarrow> (mx', w')
      | (Some _, mx', w') \<Rightarrow> (mx', write_json w' 200 (sort (map fst catalog))))"

definition healthHandler :: "bytes reply \<Rightarrow> bytes reply" where
  "healthHandler w =
     (set_reply_header ''Content-Type'' ''text/plain; charset=utf-8'' w)
       \<lparr>rp_status := 200, rp_body := Content (''ok'' @ [CHR 0x0A])\<rparr>"

definition modelsHandler :: "Model list \<Rightarrow> Model list reply \<Rightarrow> Model list reply" where
  "modelsHandler models w = write_json w 200 models"

subsection \<open>Properties\<close>

text \<open>
  With a store, a request is let in exactly when it carries one well-formed bearer token
  that the store accepts, and then as that identity; an unusable or rejected credential is
  answered 401 and is not counted as an error, an outage of the store is answered 503 and counted once.
\<close>
theorem authenticate_contract:
  "case authenticate (Some s) d h mx (fresh_reply :: 'b reply) of
     (Some \<iota>, mx', w) \<Rightarrow> (\<exists>token. bearer_token h = Some token \<and> as_Authenticate s token d = Inr \<iota>) \<and>
        mx' = mx \<and> w = fresh_reply
   | (None, mx', w) \<Rightarrow>
       (case bearer_token h of
          None \<Rightarrow> mx' = mx \<and> rp_status w = 401 \<and> rp_header w ''Www-Authenticate'' = [''Bearer'']
        | Some token \<Rightarrow>
            (\<exists>e. as_Authenticate s token d = Inl e \<and>
               (if e = InvalidKey
                then mx' = mx \<and> rp_status w = 401 \<and> rp_header w ''Www-Authenticate'' = [''Bearer'']
                else rp_status w = 503 \<and>
                  mx' = mx\<lparr>mx_meteringErrors := add_label (mx_meteringErrors mx) ''authenticate'' 1\<rparr>)))"
  by (auto simp: authenticate_def unauthorized_def split: option.split sum.split)

end
