(* ===== verification/Membership.thy ===== *)
theory Membership
  imports Routing
begin

text \<open>
  Membership (\<open>gateway/membership.go\<close>, the construction in \<open>gateway/server.go\<close>): the table of
  backends the server keeps across reloads, the routing snapshots built over it, health probes
  and the reload of the registry. A snapshot is replaced in one assignment; the loops that Go
  runs over maps are recursions over association lists with distinct keys.
  Environment: the file's content, and for each probed backend the answer to its health request
  (\<open>probe_reply\<close>).
\<close>

subsection \<open>State\<close>

record routingSnapshot =
  rs_models :: "Model list"
  rs_proxies :: "(bytes \<times> modelRoute) list"
  rs_fingerprint :: bytes

record gateway =
  gw_heap :: heap
  gw_backends :: "(bytes \<times> bref) list"
  gw_routing :: routingSnapshot
  gw_models :: "Model list"
  gw_catalog :: "(bytes \<times> Model) list"
  gw_metrics :: metrics

text \<open>What never changes: the libraries and the options.\<close>

record gatewayEnv =
  ge_parse :: url_parser
  ge_decode :: "bytes \<Rightarrow> (Model list option \<times> bool) option"
  ge_sha256 :: "bytes \<Rightarrow> bytes"
  ge_authenticated :: bool
  ge_backendAPIKey :: bytes

subsection \<open>Building a snapshot\<close>

definition backend_key :: "routeBackend \<Rightarrow> bytes" where
  "backend_key b = rb_model b @ CHR 0x00 # rb_origin b"

definition routing_modes :: "bytes list" where
  "routing_modes =
     [''single'', ''affinity'', ''round_robin'',
      ''single_failover'', ''affinity_failover'', ''round_robin_failover'']"

definition new_backend :: "gatewayEnv \<Rightarrow> Model \<Rightarrow> goURL \<Rightarrow> routeBackend" where
  "new_backend env model target =
     \<lparr>rb_proxy = \<lparr>pc_target = target, pc_authenticated = ge_authenticated env,
                  pc_backendAPIKey = ge_backendAPIKey env\<rparr>,
      rb_origin = origin target, rb_model = Name model, rb_healthy = True\<rparr>"

text \<open>The series created for a new backend; its inflight gauge is set to 0.\<close>

definition new_series :: "bytes \<Rightarrow> bytes \<Rightarrow> metrics \<Rightarrow> metrics" where
  "new_series model org mx =
     mx\<lparr>mx_inflight := (mx_inflight mx)((model, org) \<mapsto> 0),
        mx_headers := with_label (mx_headers mx) (model, org),
        mx_routed := fold (\<lambda>mode s. with_label s (model, org, mode)) routing_modes (mx_routed mx)\<rparr>"

record build =
  bd_heap :: heap
  bd_backends :: "(bytes \<times> bref) list"
  bd_proxies :: "(bytes \<times> modelRoute) list"
  bd_added :: "bref list"
  bd_metrics :: metrics

definition get_backend :: "gatewayEnv \<Rightarrow> Model \<Rightarrow> goURL \<Rightarrow> build \<Rightarrow> bref \<times> build" where
  "get_backend env model target st =
     (let key = Name model @ CHR 0x00 # origin target in
      case map_of (bd_backends st) key of
        Some b \<Rightarrow> (b, st)
      | None \<Rightarrow>
          let b = length (bd_heap st) in
          (b, st\<lparr>bd_heap := bd_heap st @ [new_backend env model target],
                 bd_backends := AList.update key b (bd_backends st),
                 bd_added := bd_added st @ [b],
                 bd_metrics := new_series (Name model) (origin target) (bd_metrics st)\<rparr>))"

text \<open>One turn of the loop; \<open>None\<close> is the nil dereference for a URL that does not parse.\<close>

definition add_member :: "gatewayEnv \<Rightarrow> Model \<Rightarrow> build \<Rightarrow> build option" where
  "add_member env model st =
     (case ge_parse env (URL model) of
        None \<Rightarrow> None
      | Some target \<Rightarrow>
          (case get_backend env model target st of (b, st1) \<Rightarrow>
             let route = (case map_of (bd_proxies st1) (Name model) of
                            None \<Rightarrow> new_route (Name model)
                          | Some r \<Rightarrow> r)
             in Some (st1\<lparr>bd_proxies := AList.update (Name model)
                           (route\<lparr>mr_backends := mr_backends route @ [b]\<rparr>) (bd_proxies st1)\<rparr>)))"

fun add_members :: "gatewayEnv \<Rightarrow> Model list \<Rightarrow> build \<Rightarrow> build option" where
  "add_members env [] st = Some st"
| "add_members env (m # ms) st = Option.bind (add_member env m st) (add_members env ms)"

text \<open>The new snapshot, the added backends, and the server with its new table, heap and series.\<close>

definition buildRouting ::
    "gatewayEnv \<Rightarrow> Model list \<Rightarrow> gateway \<Rightarrow> (routingSnapshot \<times> bref list \<times> gateway) option" where
  "buildRouting env models g =
     (case membershipFingerprint (ge_sha256 env) (ge_parse env) models of
        None \<Rightarrow> None
      | Some fp \<Rightarrow>
          (case add_members env models
                  \<lparr>bd_heap = gw_heap g, bd_backends = gw_backends g, bd_proxies = [],
                   bd_added = [], bd_metrics = gw_metrics g\<rparr> of
             None \<Rightarrow> None
           | Some st \<Rightarrow>
               Some (\<lparr>rs_models = models,
                      rs_proxies = map (\<lambda>(n, r). (n, buildRing (bd_heap st) r)) (bd_proxies st),
                      rs_fingerprint = fp\<rparr>,
                     bd_added st,
                     g\<lparr>gw_heap := bd_heap st, gw_backends := bd_backends st,
                       gw_metrics := bd_metrics st\<rparr>)))"

subsection \<open>Probes\<close>

text \<open>
  How a probe ended: the request could not be made, the context was done, there was no
  response, or a response with a status.
\<close>

datatype probe_reply = BadRequest | Cancelled | NoReply | Reply int

definition probe_healthy :: "probe_reply \<Rightarrow> bool" where
  "probe_healthy reply = (reply = Reply 200)"

definition probeBackend :: "probe_reply \<Rightarrow> bref \<Rightarrow> gateway \<Rightarrow> bool \<times> gateway" where
  "probeBackend reply b g =
     (if reply = BadRequest \<or> reply = Cancelled then (False, g)
      else
        let healthy = probe_healthy reply; backend = gw_heap g ! b in
        (healthy,
         g\<lparr>gw_heap := (gw_heap g)[b := backend\<lparr>rb_healthy := healthy\<rparr>],
           gw_metrics := (gw_metrics g)
             \<lparr>mx_backendHealthy := (mx_backendHealthy (gw_metrics g))
               ((rb_model backend, rb_origin backend) \<mapsto> (if healthy then 1 else 0))\<rparr>\<rparr>))"

text \<open>
  \<open>probeBackends\<close> runs the probes of all backends of the snapshot in parallel; \<open>order\<close> is the
  order in which they took effect. A probe that found the context done before it got a slot
  is \<open>Cancelled\<close>.
\<close>

definition snapshot_backends :: "routingSnapshot \<Rightarrow> bref list" where
  "snapshot_backends rs = concat (map (\<lambda>(n, r). mr_backends r) (rs_proxies rs))"

fun probe_all :: "(bref \<Rightarrow> probe_reply) \<Rightarrow> bref list \<Rightarrow> gateway \<Rightarrow> gateway" where
  "probe_all replies [] g = g"
| "probe_all replies (b # bs) g = probe_all replies bs (snd (probeBackend (replies b) b g))"

subsection \<open>Reload\<close>

datatype reload_error =
    LoadError registry_error
  | CatalogChanged
  | NotHealthy bytes

definition reload_rejected :: "gateway \<Rightarrow> gateway" where
  "reload_rejected g =
     g\<lparr>gw_metrics := (gw_metrics g)\<lparr>mx_reloadErrors := mx_reloadErrors (gw_metrics g) + 1\<rparr>\<rparr>"

definition drop_health_series :: "routeBackend \<Rightarrow> gateway \<Rightarrow> gateway" where
  "drop_health_series b g =
     g\<lparr>gw_metrics := (gw_metrics g)
        \<lparr>mx_backendHealthy := (mx_backendHealthy (gw_metrics g))((rb_model b, rb_origin b) := None)\<rparr>\<rparr>"

text \<open>The probes of the added backends, up to the first that is not healthy.\<close>

fun probe_added :: "(bref \<Rightarrow> probe_reply) \<Rightarrow> bref list \<Rightarrow> gateway \<Rightarrow> bref option \<times> gateway" where
  "probe_added replies [] g = (None, g)"
| "probe_added replies (b # bs) g =
     (case probeBackend (replies b) b g of
        (True, g') \<Rightarrow> probe_added replies bs g'
      | (False, g') \<Rightarrow> (Some b, g'))"

fun forget_added :: "bref list \<Rightarrow> gateway \<Rightarrow> gateway" where
  "forget_added [] g = g"
| "forget_added (b # bs) g =
     forget_added bs (drop_health_series (gw_heap g ! b)
       (g\<lparr>gw_backends := AList.delete (backend_key (gw_heap g ! b)) (gw_backends g)\<rparr>))"

text \<open>The keys that \<open>ReloadRegistry\<close> regards as active: from the raw URL of each model.\<close>

definition active_key :: "Model \<Rightarrow> bytes" where
  "active_key model = Name model @ CHR 0x00 # trimSuffix (URL model) ''/''"

fun forget_inactive :: "bytes list \<Rightarrow> (bytes \<times> bref) list \<Rightarrow> gateway \<Rightarrow> gateway" where
  "forget_inactive active [] g = g"
| "forget_inactive active ((key, b) # rest) g =
     forget_inactive active rest
       (if key \<in> set active then g
        else drop_health_series (gw_heap g ! b) (g\<lparr>gw_backends := AList.delete key (gw_backends g)\<rparr>))"

definition publish :: "routingSnapshot \<Rightarrow> gateway \<Rightarrow> gateway" where
  "publish next g =
     (let mx = gw_metrics g; old = gw_routing g in
      g\<lparr>gw_routing := next,
        gw_metrics := mx\<lparr>mx_registryInfo :=
          ((mx_registryInfo mx)(rs_fingerprint old := None))(rs_fingerprint next \<mapsto> 1)\<rparr>\<rparr>)"

text \<open>\<open>None\<close> is a panic; otherwise the returned error, if any, and the server.\<close>

definition ReloadRegistry ::
    "gatewayEnv \<Rightarrow> bytes option \<Rightarrow> (bref \<Rightarrow> probe_reply) \<Rightarrow> gateway \<Rightarrow>
     (reload_error option \<times> gateway) option" where
  "ReloadRegistry env file replies g =
     (case loadModels (ge_parse env) (ge_decode env) file of
        Inl e \<Rightarrow> Some (Some (LoadError e), reload_rejected g)
      | Inr models \<Rightarrow>
          if \<not> sameCatalog (gw_catalog g) models
          then Some (Some CatalogChanged, reload_rejected g)
          else
            (case membershipFingerprint (ge_sha256 env) (ge_parse env) models of
               None \<Rightarrow> None
             | Some fp \<Rightarrow>
                 if fp = rs_fingerprint (gw_routing g) then Some (None, g)
                 else
                   (case buildRouting env models g of
                      None \<Rightarrow> None
                    | Some (next, added, g1) \<Rightarrow>
                        (case probe_added replies added g1 of
                           (Some b, g2) \<Rightarrow>
                             Some (Some (NotHealthy (rb_origin (gw_heap g2 ! b))),
                                   reload_rejected (forget_added added g2))
                         | (None, g2) \<Rightarrow>
                             let g3 = publish next g2 in
                             Some (None, forget_inactive (map active_key models) (gw_backends g3) g3)))))"

subsection \<open>Construction\<close>

text \<open>\<open>NewServerWithOptions\<close>: the server over the loaded models, before its first probes.\<close>

definition empty_gateway :: "Model list \<Rightarrow> gateway" where
  "empty_gateway models =
     \<lparr>gw_heap = [], gw_backends = [],
      gw_routing = \<lparr>rs_models = [], rs_proxies = [], rs_fingerprint = []\<rparr>,
      gw_models = models, gw_catalog = modelCatalog models, gw_metrics = no_metrics\<rparr>"

definition NewServer :: "gatewayEnv \<Rightarrow> bytes option \<Rightarrow> (registry_error + gateway) option" where
  "NewServer env file =
     (case loadModels (ge_parse env) (ge_decode env) file of
        Inl e \<Rightarrow> Some (Inl e)
      | Inr models \<Rightarrow>
          (case buildRouting env models (empty_gateway models) of
             None \<Rightarrow> None
           | Some (routing, added, g) \<Rightarrow>
               Some (Inr (g\<lparr>gw_routing := routing,
                 gw_metrics := (gw_metrics g)\<lparr>mx_registryInfo :=
                   (mx_registryInfo (gw_metrics g))(rs_fingerprint routing \<mapsto> 1)\<rparr>\<rparr>))))"

subsection \<open>The table of backends\<close>

text \<open>What \<open>url.Parse\<close> documents about control characters, as far as keys need it.\<close>

definition parser_law :: "url_parser \<Rightarrow> bool" where
  "parser_law parse \<longleftrightarrow>
     (\<forall>s. pred_option (\<lambda>u. CHR 0x00 \<notin> set (URLString u) \<and> CHR 0x0A \<notin> set (URLString u)) (parse s))"

lemma parser_law_origin:
  "parser_law parse \<Longrightarrow> CHR 0x00 \<notin> set (model_origin parse m)"
  unfolding parser_law_def
  by (drule spec [of _ "URL m"], cases "parse (URL m)")
    (auto simp: model_origin_def origin_def trimSuffix_def dest: in_set_takeD)

lemma demo_parser_law: "parser_law demo_parse"
  using demo_parse_control by (auto simp: parser_law_def option.pred_set)

definition table_ok :: "heap \<Rightarrow> (bytes \<times> bref) list \<Rightarrow> bool" where
  "table_ok h t \<longleftrightarrow>
     distinct (map fst t) \<and>
     (\<forall>k b. map_of t k = Some b \<longrightarrow>
        b < length h \<and> k = backend_key (h ! b) \<and> CHR 0x00 \<notin> set (rb_origin (h ! b)))"

lemma table_ok_empty [simp]: "table_ok h []"
  by (simp add: table_ok_def)

lemma table_ok_extend: "table_ok h t \<Longrightarrow> table_ok (h @ new) t"
  by (fastforce simp: table_ok_def nth_append)

lemma table_ok_update:
  assumes "table_ok h t" and "b < length h" and "k = backend_key (h ! b)"
    and "CHR 0x00 \<notin> set (rb_origin (h ! b))"
  shows "table_ok h (AList.update k b t)"
  using assms by (auto simp: table_ok_def distinct_update update_conv' split: if_splits)

lemma table_ok_delete: "table_ok h t \<Longrightarrow> table_ok h (AList.delete k t)"
  by (auto simp: table_ok_def distinct_delete delete_conv' split: if_splits)

text \<open>Looking up a member's key finds a backend of that name and origin.\<close>

lemma table_ok_member:
  assumes "table_ok h t" and "parser_law parse" and "map_of t (member_text parse m) = Some b"
  shows "b < length h" and "rb_model (h ! b) = Name m" and "rb_origin (h ! b) = model_origin parse m"
proof -
  from assms(1,3) have b: "b < length h" "member_text parse m = backend_key (h ! b)"
    "CHR 0x00 \<notin> set (rb_origin (h ! b))" by (auto simp: table_ok_def)
  then show "b < length h" by simp
  from b(2) have "Name m @ CHR 0x00 # model_origin parse m = rb_model (h ! b) @ CHR 0x00 # rb_origin (h ! b)"
    by (simp add: member_text_def backend_key_def)
  from snoc_sep_inj [OF parser_law_origin [OF assms(2)] b(3) this]
  show "rb_model (h ! b) = Name m" "rb_origin (h ! b) = model_origin parse m" by simp_all
qed

subsection \<open>The loop of buildRouting\<close>

text \<open>The route of a name over the models seen so far: its replicas in registry order.\<close>

definition route_refs :: "url_parser \<Rightarrow> (bytes \<times> bref) list \<Rightarrow> bytes \<Rightarrow> Model list \<Rightarrow> bref list" where
  "route_refs parse t n ms =
     map (\<lambda>m. the (map_of t (member_text parse m))) (filter (\<lambda>m. Name m = n) ms)"

text \<open>
  Heap, table and the list of added backends over the initial heap \<open>h0\<close> and table \<open>t0\<close>: known
  backends stay as they are, new ones are healthy and listed in \<open>added\<close>, each under its key.
\<close>

definition core_ok :: "heap \<Rightarrow> (bytes \<times> bref) list \<Rightarrow> build \<Rightarrow> bool" where
  "core_ok h0 t0 st \<longleftrightarrow>
     (\<exists>new. bd_heap st = h0 @ new \<and> list_all rb_healthy new) \<and>
     bd_added st = [length h0..<length (bd_heap st)] \<and>
     table_ok (bd_heap st) (bd_backends st) \<and>
     map_of t0 \<subseteq>\<^sub>m map_of (bd_backends st) \<and>
     (\<forall>b \<in> set (bd_added st). map_of (bd_backends st) (backend_key (bd_heap st ! b)) = Some b \<and>
        map_of t0 (backend_key (bd_heap st ! b)) = None) \<and>
     (\<forall>k b. map_of (bd_backends st) k = Some b \<longrightarrow> map_of t0 k = None \<longrightarrow> b \<in> set (bd_added st))"

lemma core_ok_proxies [simp]: "core_ok h0 t0 (st\<lparr>bd_proxies := ps\<rparr>) = core_ok h0 t0 st"
  by (simp add: core_ok_def)

definition build_ok ::
    "url_parser \<Rightarrow> heap \<Rightarrow> (bytes \<times> bref) list \<Rightarrow> Model list \<Rightarrow> build \<Rightarrow> bool" where
  "build_ok parse h0 t0 pre st \<longleftrightarrow>
     core_ok h0 t0 st \<and>
     dom (map_of (bd_backends st)) = dom (map_of t0) \<union> member_text parse ` set pre \<and>
     distinct (map fst (bd_proxies st)) \<and>
     (\<forall>n. map_of (bd_proxies st) n =
        (if n \<in> Name ` set pre
         then Some \<lparr>mr_backends = route_refs parse (bd_backends st) n pre, mr_ring = None,
                    mr_next = 0, mr_model = n\<rparr>
         else None))"

lemma build_ok_start:
  "table_ok h0 t0 \<Longrightarrow>
     build_ok parse h0 t0 [] \<lparr>bd_heap = h0, bd_backends = t0, bd_proxies = [], bd_added = [], bd_metrics = mx\<rparr>"
  by (simp add: build_ok_def core_ok_def)

text \<open>Getting the backend of a model: found, or allocated under the model's key.\<close>

lemma get_backend_found:
  assumes "ge_parse env (URL m) = Some u" and "map_of (bd_backends st) (member_text (ge_parse env) m) = Some b"
  shows "get_backend env m u st = (b, st)"
  using assms by (simp add: get_backend_def member_text_def model_origin_def)

lemma get_backend_new:
  assumes "ge_parse env (URL m) = Some u" and "map_of (bd_backends st) (member_text (ge_parse env) m) = None"
  shows "get_backend env m u st =
    (length (bd_heap st),
     st\<lparr>bd_heap := bd_heap st @ [new_backend env m u],
        bd_backends := AList.update (member_text (ge_parse env) m) (length (bd_heap st)) (bd_backends st),
        bd_added := bd_added st @ [length (bd_heap st)],
        bd_metrics := new_series (Name m) (origin u) (bd_metrics st)\<rparr>)"
  using assms by (simp add: get_backend_def member_text_def model_origin_def Let_def)

lemma new_backend_simps [simp]:
  "rb_model (new_backend env m u) = Name m" "rb_origin (new_backend env m u) = origin u"
  "rb_healthy (new_backend env m u)"
  by (simp_all add: new_backend_def)

lemma route_refs_snoc:
  "route_refs parse t n (pre @ [m]) =
     route_refs parse t n pre @ (if Name m = n then [the (map_of t (member_text parse m))] else [])"
  by (simp add: route_refs_def)

lemma route_refs_cong:
  assumes "\<And>m. m \<in> set pre \<Longrightarrow> map_of t (member_text parse m) = map_of t' (member_text parse m)"
  shows "route_refs parse t n pre = route_refs parse t' n pre"
  using assms by (simp add: route_refs_def)

lemma core_ok_new:
  assumes "core_ok h0 t0 st" and "map_of (bd_backends st) k = None"
    and "backend_key nb = k" and "rb_healthy nb" and "CHR 0x00 \<notin> set (rb_origin nb)"
  shows "core_ok h0 t0 (st\<lparr>bd_heap := bd_heap st @ [nb],
           bd_backends := AList.update k (length (bd_heap st)) (bd_backends st),
           bd_added := bd_added st @ [length (bd_heap st)], bd_metrics := mx\<rparr>)"
proof -
  let ?b = "length (bd_heap st)" and ?h = "bd_heap st @ [nb]" and ?t = "bd_backends st"
  obtain new where new: "bd_heap st = h0 @ new" "list_all rb_healthy new"
    using assms(1) by (auto simp: core_ok_def)
  have keys: "map_of ?t (backend_key (bd_heap st ! c)) = Some c"
      "map_of t0 (backend_key (bd_heap st ! c)) = None"
    if "length h0 \<le> c" "c < ?b" for c
    using assms(1) that by (auto simp: core_ok_def)
  have "table_ok ?h (AList.update k ?b ?t)"
    using assms by (intro table_ok_update table_ok_extend) (simp_all add: core_ok_def)
  moreover have t0: "map_of t0 k = None" "map_of t0 \<subseteq>\<^sub>m map_of ?t"
    using assms(1,2) by (auto simp: core_ok_def map_le_def dom_def)
  moreover have "map_of t0 \<subseteq>\<^sub>m (map_of ?t)(k \<mapsto> ?b)"
    using t0 by (auto simp: map_le_def dom_def)
  moreover have "backend_key (bd_heap st ! c) \<noteq> k" if "length h0 \<le> c" "c < ?b" for c
    using keys(1) [OF that] assms(2) by auto
  moreover have "\<forall>k' c. ((map_of ?t)(k \<mapsto> ?b)) k' = Some c \<longrightarrow> map_of t0 k' = None \<longrightarrow>
      length h0 \<le> c \<and> c \<le> ?b"
  proof -
    have "length h0 \<le> c \<and> c < ?b" if "map_of ?t k' = Some c" "map_of t0 k' = None" for k' c
      using assms(1) that by (auto simp: core_ok_def)
    moreover have "length h0 \<le> ?b" using new by simp
    ultimately show ?thesis by (simp add: less_imp_le)
  qed
  ultimately show ?thesis
    using new assms(1,3,4) keys by (auto simp: core_ok_def update_conv' nth_append)
qed

lemma get_backend_ok:
  assumes "core_ok h0 t0 st" and law: "parser_law (ge_parse env)"
    and u: "ge_parse env (URL m) = Some u" and get: "get_backend env m u st = (b, st')"
  shows "core_ok h0 t0 st'"
    and "map_of (bd_backends st') = (map_of (bd_backends st))(member_text (ge_parse env) m \<mapsto> b)"
    and "map_of (bd_backends st) \<subseteq>\<^sub>m map_of (bd_backends st')"
    and "bd_proxies st' = bd_proxies st"
proof -
  let ?k = "member_text (ge_parse env) m"
  have org: "model_origin (ge_parse env) m = origin u" using u by (simp add: model_origin_def)
  have "core_ok h0 t0 st' \<and> map_of (bd_backends st') = (map_of (bd_backends st))(?k \<mapsto> b) \<and>
    map_of (bd_backends st) \<subseteq>\<^sub>m map_of (bd_backends st') \<and> bd_proxies st' = bd_proxies st"
  proof (cases "map_of (bd_backends st) ?k")
    case (Some b')
    with get u assms(1) show ?thesis by (auto simp: get_backend_found fun_upd_idem)
  next
    case None
    have "core_ok h0 t0 st'"
      using core_ok_new [OF assms(1) None, of "new_backend env m u"] parser_law_origin [OF law, of m]
        get get_backend_new [OF u None]
      by (auto simp: backend_key_def member_text_def org)
    with None get get_backend_new [OF u None] show ?thesis
      by (auto simp: update_conv' map_le_def)
  qed
  then show "core_ok h0 t0 st'"
    and "map_of (bd_backends st') = (map_of (bd_backends st))(?k \<mapsto> b)"
    and "map_of (bd_backends st) \<subseteq>\<^sub>m map_of (bd_backends st')"
    and "bd_proxies st' = bd_proxies st" by blast+
qed

lemma add_member_ok:
  assumes ok: "build_ok (ge_parse env) h0 t0 pre st" and law: "parser_law (ge_parse env)"
    and u: "ge_parse env (URL m) = Some u"
  shows "pred_option (build_ok (ge_parse env) h0 t0 (pre @ [m])) (add_member env m st)"
    and "add_member env m st \<noteq> None"
proof -
  let ?parse = "ge_parse env"
  obtain b st1 where get: "get_backend env m u st = (b, st1)" by fastforce
  have core: "core_ok h0 t0 st" and dom: "dom (map_of (bd_backends st)) = dom (map_of t0) \<union> member_text ?parse ` set pre"
    and dist: "distinct (map fst (bd_proxies st))"
    and proxies: "map_of (bd_proxies st) n = (if n \<in> Name ` set pre
         then Some \<lparr>mr_backends = route_refs ?parse (bd_backends st) n pre, mr_ring = None,
                    mr_next = 0, mr_model = n\<rparr> else None)" for n
    using ok by (simp_all add: build_ok_def)
  note g = get_backend_ok [OF core law u get]
  let ?r = "(case map_of (bd_proxies st1) (Name m) of None \<Rightarrow> new_route (Name m) | Some r \<Rightarrow> r)"
  let ?st2 = "st1\<lparr>bd_proxies := AList.update (Name m) (?r\<lparr>mr_backends := mr_backends ?r @ [b]\<rparr>) (bd_proxies st1)\<rparr>"
  have refs: "route_refs ?parse (bd_backends st1) n pre = route_refs ?parse (bd_backends st) n pre" for n
  proof (rule route_refs_cong)
    fix m' assume "m' \<in> set pre"
    with dom have "member_text ?parse m' \<in> dom (map_of (bd_backends st))" by blast
    with g(3) show "map_of (bd_backends st1) (member_text ?parse m') = map_of (bd_backends st) (member_text ?parse m')"
      by (metis map_le_def)
  qed
  have none: "route_refs ?parse t n pre = []" if "n \<notin> Name ` set pre" for t n
    using that by (auto simp: route_refs_def filter_empty_conv)
  have "build_ok ?parse h0 t0 (pre @ [m]) ?st2"
    unfolding build_ok_def
  proof (intro conjI allI)
    show "core_ok h0 t0 ?st2" using g(1) by simp
    show "dom (map_of (bd_backends ?st2)) = dom (map_of t0) \<union> member_text ?parse ` set (pre @ [m])"
      using dom g(2) by auto
    show "distinct (map fst (bd_proxies ?st2))" using dist g(4) by (simp add: distinct_update)
    fix n
    show "map_of (bd_proxies ?st2) n = (if n \<in> Name ` set (pre @ [m])
         then Some \<lparr>mr_backends = route_refs ?parse (bd_backends ?st2) n (pre @ [m]), mr_ring = None,
                    mr_next = 0, mr_model = n\<rparr> else None)"
      by (simp add: update_conv' g(2,4) proxies route_refs_snoc refs none new_route_def)
  qed
  then show "pred_option (build_ok ?parse h0 t0 (pre @ [m])) (add_member env m st)"
    and "add_member env m st \<noteq> None"
    using u get by (simp_all add: add_member_def Let_def)
qed

lemma add_members_ok:
  assumes "build_ok (ge_parse env) h0 t0 pre st" and "parser_law (ge_parse env)"
    and "list_all (\<lambda>m. ge_parse env (URL m) \<noteq> None) ms"
  obtains st' where "add_members env ms st = Some st'" and "build_ok (ge_parse env) h0 t0 (pre @ ms) st'"
  using assms
proof (induction ms arbitrary: pre st thesis)
  case (Cons m ms)
  then obtain u where "ge_parse env (URL m) = Some u" by auto
  from add_member_ok [OF Cons.prems(2,3) this] obtain st1
    where "add_member env m st = Some st1" "build_ok (ge_parse env) h0 t0 (pre @ [m]) st1"
    by (cases "add_member env m st") auto
  with Cons.IH [where pre = "pre @ [m]" and st = st1] Cons.prems show ?case by auto
qed simp

subsection \<open>Published snapshots\<close>

text \<open>
  A snapshot is faithful to its models when every name of the registry has a well-formed route
  over the heap whose backends are, in registry order, exactly that name's destinations, and no
  other name has one.
\<close>

definition snapshot_ok :: "url_parser \<Rightarrow> heap \<Rightarrow> routingSnapshot \<Rightarrow> bool" where
  "snapshot_ok parse h rs \<longleftrightarrow>
     valid_registry parse (rs_models rs) \<and>
     distinct (map fst (rs_proxies rs)) \<and>
     fst ` set (rs_proxies rs) = Name ` set (rs_models rs) \<and>
     (\<forall>n r. map_of (rs_proxies rs) n = Some r \<longrightarrow>
        route_ok h r \<and> mr_model r = n \<and>
        map (\<lambda>b. (rb_model (h ! b), rb_origin (h ! b))) (mr_backends r) =
        map (dest parse) (filter (\<lambda>m. Name m = n) (rs_models rs)))"

lemma valid_registry_parses:
  "valid_registry parse ms \<Longrightarrow> list_all (\<lambda>m. parse (URL m) \<noteq> None) ms"
  by (auto simp: valid_registry_def list_all_iff model_ok_def split: option.splits)

lemma fingerprint_exists:
  assumes "valid_registry parse ms"
  shows "\<exists>fp. membershipFingerprint sha256 parse ms = Some fp"
proof -
  have "\<forall>m \<in> set ms. parse (URL m) \<noteq> None"
    using valid_registry_parses [OF assms] by (simp only: list_all_iff)
  then have "fingerprint_text parse ms \<noteq> None" by (simp only: fingerprint_text_eq if_True) simp
  then show ?thesis by (auto simp: membershipFingerprint_def)
qed

lemma buildRing_frame [simp]:
  "mr_backends (buildRing h r) = mr_backends r" "mr_model (buildRing h r) = mr_model r"
  "mr_next (buildRing h r) = mr_next r"
  by (simp_all add: buildRing_def)

lemma map_of_map_snd: "map_of (map (\<lambda>(n, r). (n, f r)) xs) n = map_option f (map_of xs n)"
  by (induction xs) auto

lemma route_ok_buildRing:
  assumes "mr_backends r \<noteq> []" and "list_all (\<lambda>b. b < length h) (mr_backends r)"
    and "distinct (map (\<lambda>b. rb_origin (h ! b)) (mr_backends r))" and "mr_ring r = None"
  shows "route_ok h (buildRing h r)"
  using assms by (auto simp: route_ok_def buildRing_def)

text \<open>The backends of a route built over the table are those of the name's models.\<close>

lemma route_refs_dest:
  assumes "table_ok h t" and "parser_law parse"
    and "member_text parse ` set ms \<subseteq> dom (map_of t)"
  shows "map (\<lambda>b. (rb_model (h ! b), rb_origin (h ! b))) (route_refs parse t n ms) =
      map (dest parse) (filter (\<lambda>m. Name m = n) ms)"
    and "list_all (\<lambda>b. b < length h) (route_refs parse t n ms)"
proof -
  let ?b = "\<lambda>m. the (map_of t (member_text parse m))"
  have b: "?b m < length h \<and> rb_model (h ! ?b m) = Name m \<and> rb_origin (h ! ?b m) = model_origin parse m"
    if "m \<in> set ms" for m
  proof -
    from that assms(3) obtain b where "map_of t (member_text parse m) = Some b" by blast
    with table_ok_member [OF assms(1,2) this] show ?thesis by simp
  qed
  show "map (\<lambda>b. (rb_model (h ! b), rb_origin (h ! b))) (route_refs parse t n ms) =
      map (dest parse) (filter (\<lambda>m. Name m = n) ms)"
    using b by (simp add: route_refs_def dest_def)
  show "list_all (\<lambda>b. b < length h) (route_refs parse t n ms)"
    using b by (auto simp: route_refs_def list_all_iff)
qed

lemma distinct_origins:
  assumes "valid_registry parse ms"
  shows "distinct (map (model_origin parse) (filter (\<lambda>m. Name m = n) ms))"
proof -
  have "distinct (map (dest parse) (filter (\<lambda>m. Name m = n) ms))"
    using assms by (simp add: valid_registry_def distinct_map_filter)
  moreover have "map (dest parse) (filter (\<lambda>m. Name m = n) ms) =
      map (Pair n) (map (model_origin parse) (filter (\<lambda>m. Name m = n) ms))"
    by (simp add: dest_def)
  ultimately show ?thesis by (metis distinct_map)
qed

lemma built_snapshot_ok:
  assumes ok: "build_ok parse h0 t0 ms st" and law: "parser_law parse" and valid: "valid_registry parse ms"
    and "rs_models rs = ms"
    and proxies: "rs_proxies rs = map (\<lambda>(n, r). (n, buildRing (bd_heap st) r)) (bd_proxies st)"
  shows "snapshot_ok parse (bd_heap st) rs"
  unfolding snapshot_ok_def \<open>rs_models rs = ms\<close>
proof (intro conjI allI impI)
  have tab: "table_ok (bd_heap st) (bd_backends st)"
    and dom: "member_text parse ` set ms \<subseteq> dom (map_of (bd_backends st))"
    using ok by (auto simp: build_ok_def core_ok_def)
  show "valid_registry parse ms" by (fact valid)
  show "distinct (map fst (rs_proxies rs))"
    using ok by (simp add: build_ok_def proxies comp_def case_prod_beta')
  have "fst ` set (bd_proxies st) = dom (map_of (bd_proxies st))" by (simp add: dom_map_of_conv_image_fst)
  also have "\<dots> = Name ` set ms" using ok by (auto simp: build_ok_def dom_def split: if_splits)
  finally show "fst ` set (rs_proxies rs) = Name ` set ms"
    by (simp add: image_image case_prod_beta' proxies)
  fix n r assume "map_of (rs_proxies rs) n = Some r"
  then have r: "r = buildRing (bd_heap st) \<lparr>mr_backends = route_refs parse (bd_backends st) n ms,
      mr_ring = None, mr_next = 0, mr_model = n\<rparr>" and n: "n \<in> Name ` set ms"
    using ok by (auto simp: map_of_map_snd build_ok_def proxies split: if_splits)
  note refs = route_refs_dest [OF tab law dom, of n]
  have origins: "map (\<lambda>b. rb_origin (bd_heap st ! b)) (route_refs parse (bd_backends st) n ms) =
      map (model_origin parse) (filter (\<lambda>m. Name m = n) ms)"
    using arg_cong [OF refs(1), of "map snd"] by (simp add: comp_def dest_def)
  have "route_refs parse (bd_backends st) n ms \<noteq> []"
    using n by (auto simp: route_refs_def filter_empty_conv)
  moreover have "distinct (map (\<lambda>b. rb_origin (bd_heap st ! b)) (route_refs parse (bd_backends st) n ms))"
    unfolding origins by (rule distinct_origins [OF valid])
  ultimately show "route_ok (bd_heap st) r"
    unfolding r using refs(2) by (intro route_ok_buildRing) simp_all
  show "mr_model r = n" by (simp add: r)
  show "map (\<lambda>b. (rb_model (bd_heap st ! b), rb_origin (bd_heap st ! b))) (mr_backends r) =
      map (dest parse) (filter (\<lambda>m. Name m = n) ms)"
    using refs(1) by (simp add: r)
qed

lemma buildRouting_ok:
  assumes "table_ok (gw_heap g) (gw_backends g)" and "parser_law (ge_parse env)"
    and valid: "valid_registry (ge_parse env) ms"
  obtains snap st where "build_ok (ge_parse env) (gw_heap g) (gw_backends g) ms st"
    and "buildRouting env ms g = Some (snap, bd_added st, g\<lparr>gw_heap := bd_heap st,
           gw_backends := bd_backends st, gw_metrics := bd_metrics st\<rparr>)"
    and "snapshot_ok (ge_parse env) (bd_heap st) snap" and "rs_models snap = ms"
    and "membershipFingerprint (ge_sha256 env) (ge_parse env) ms = Some (rs_fingerprint snap)"
    and "rs_proxies snap = map (\<lambda>(n, r). (n, buildRing (bd_heap st) r)) (bd_proxies st)"
proof -
  let ?parse = "ge_parse env"
  let ?st0 = "\<lparr>bd_heap = gw_heap g, bd_backends = gw_backends g, bd_proxies = [], bd_added = [],
    bd_metrics = gw_metrics g\<rparr>"
  obtain st where st: "add_members env ms ?st0 = Some st"
    and ok: "build_ok ?parse (gw_heap g) (gw_backends g) ms st"
    by (rule add_members_ok [OF build_ok_start [OF assms(1)] assms(2) valid_registry_parses [OF valid]]) simp
  obtain fp where fp: "membershipFingerprint (ge_sha256 env) ?parse ms = Some fp"
    using fingerprint_exists [OF valid] by blast
  let ?snap = "\<lparr>rs_models = ms, rs_proxies = map (\<lambda>(n, r). (n, buildRing (bd_heap st) r)) (bd_proxies st),
    rs_fingerprint = fp\<rparr>"
  have "snapshot_ok ?parse (bd_heap st) ?snap"
    using built_snapshot_ok [OF ok assms(2) valid] by simp
  then show thesis
    using that [of st ?snap] st fp ok by (simp add: buildRouting_def)
qed

text \<open>Health changes and new allocations keep a snapshot well-formed.\<close>

definition same_identity :: "heap \<Rightarrow> heap \<Rightarrow> bool" where
  "same_identity h h' \<longleftrightarrow>
     length h \<le> length h' \<and>
     (\<forall>b < length h. rb_origin (h' ! b) = rb_origin (h ! b) \<and> rb_model (h' ! b) = rb_model (h ! b) \<and>
        rb_proxy (h' ! b) = rb_proxy (h ! b))"

lemma same_identity_refl [simp]: "same_identity h h"
  by (simp add: same_identity_def)

lemma same_identity_trans: "same_identity h h' \<Longrightarrow> same_identity h' h'' \<Longrightarrow> same_identity h h''"
  by (simp add: same_identity_def)

lemma same_identity_append [simp]: "same_identity h (h @ new)"
  by (simp add: same_identity_def nth_append)

lemma same_identity_health [simp]: "same_identity h (h[b := (h ! b)\<lparr>rb_healthy := x\<rparr>])"
  by (cases "b < length h") (auto simp: same_identity_def nth_list_update)

lemma route_ok_identity:
  assumes "same_identity h h'" and "route_ok h r"
  shows "route_ok h' r"
proof -
  have org: "map (\<lambda>b. rb_origin (h' ! b)) (mr_backends r) = map (\<lambda>b. rb_origin (h ! b)) (mr_backends r)"
    and mem: "map (\<lambda>b. (rb_origin (h' ! b), b)) (mr_backends r) = map (\<lambda>b. (rb_origin (h ! b), b)) (mr_backends r)"
    using assms by (auto simp: same_identity_def route_ok_def list_all_iff)
  have "list_all (\<lambda>b. b < length h') (mr_backends r)"
    using assms by (auto simp: same_identity_def route_ok_def list_all_iff)
  with assms(2) org mem show ?thesis by (simp add: route_ok_def buildRing_def del: map_eq_conv)
qed

lemma snapshot_ok_identity:
  assumes "same_identity h h'" and "snapshot_ok parse h rs"
  shows "snapshot_ok parse h' rs"
proof -
  have "route_ok h' r \<and> map (\<lambda>b. (rb_model (h' ! b), rb_origin (h' ! b))) (mr_backends r) =
      map (\<lambda>b. (rb_model (h ! b), rb_origin (h ! b))) (mr_backends r)" if "route_ok h r" for r
    using that route_ok_identity [OF assms(1) that] assms(1)
    by (auto simp: same_identity_def route_ok_def list_all_iff)
  with assms(2) show ?thesis by (simp add: snapshot_ok_def del: map_eq_conv)
qed

lemma table_ok_identity:
  assumes "same_identity h h'" and "table_ok h t"
  shows "table_ok h' t"
  using assms by (fastforce simp: same_identity_def table_ok_def backend_key_def)

subsection \<open>Frames of the reload's steps\<close>

lemma reload_rejected_frame [simp]:
  "gw_heap (reload_rejected g) = gw_heap g" "gw_backends (reload_rejected g) = gw_backends g"
  "gw_routing (reload_rejected g) = gw_routing g" "gw_catalog (reload_rejected g) = gw_catalog g"
  "gw_models (reload_rejected g) = gw_models g"
  by (simp_all add: reload_rejected_def)

lemma drop_health_series_frame [simp]:
  "gw_heap (drop_health_series b g) = gw_heap g" "gw_backends (drop_health_series b g) = gw_backends g"
  "gw_routing (drop_health_series b g) = gw_routing g" "gw_catalog (drop_health_series b g) = gw_catalog g"
  "gw_models (drop_health_series b g) = gw_models g"
  by (simp_all add: drop_health_series_def)

lemma publish_frame [simp]:
  "gw_heap (publish rs g) = gw_heap g" "gw_backends (publish rs g) = gw_backends g"
  "gw_routing (publish rs g) = rs" "gw_catalog (publish rs g) = gw_catalog g"
  "gw_models (publish rs g) = gw_models g"
  by (simp_all add: publish_def Let_def)

lemma probeBackend_frame [simp]:
  "gw_backends (snd (probeBackend reply b g)) = gw_backends g"
  "gw_routing (snd (probeBackend reply b g)) = gw_routing g"
  "gw_catalog (snd (probeBackend reply b g)) = gw_catalog g"
  "gw_models (snd (probeBackend reply b g)) = gw_models g"
  "same_identity (gw_heap g) (gw_heap (snd (probeBackend reply b g)))"
  by (simp_all add: probeBackend_def Let_def)

lemma probe_all_frame [simp]:
  "gw_backends (probe_all replies bs g) = gw_backends g"
  "gw_routing (probe_all replies bs g) = gw_routing g"
  "gw_catalog (probe_all replies bs g) = gw_catalog g"
  "gw_models (probe_all replies bs g) = gw_models g"
  by (induction bs arbitrary: g) simp_all

lemma probe_all_identity [simp]: "same_identity (gw_heap g) (gw_heap (probe_all replies bs g))"
proof (induction bs arbitrary: g)
  case (Cons b bs)
  show ?case using same_identity_trans [OF probeBackend_frame(5) Cons.IH] by simp
qed simp

lemma probe_added_frame:
  assumes "probe_added replies bs g = (r, g')"
  shows "gw_backends g' = gw_backends g \<and> gw_routing g' = gw_routing g \<and>
    gw_catalog g' = gw_catalog g \<and> gw_models g' = gw_models g \<and>
    same_identity (gw_heap g) (gw_heap g')"
  using assms
proof (induction bs arbitrary: g)
  case (Cons b bs)
  obtain ok g1 where p: "probeBackend (replies b) b g = (ok, g1)" by fastforce
  then have g1: "gw_backends g1 = gw_backends g \<and> gw_routing g1 = gw_routing g \<and>
    gw_catalog g1 = gw_catalog g \<and> gw_models g1 = gw_models g \<and>
    same_identity (gw_heap g) (gw_heap g1)"
    using probeBackend_frame [where reply = "replies b" and b = b and g = g] by simp
  show ?case
  proof (cases ok)
    case True
    with Cons.prems p have "probe_added replies bs g1 = (r, g')" by simp
    from Cons.IH [OF this] g1 show ?thesis by (auto intro: same_identity_trans)
  next
    case False
    with Cons.prems p g1 show ?thesis by simp
  qed
qed simp

lemma probe_added_result:
  "fst (probe_added replies bs g) = find (\<lambda>b. \<not> probe_healthy (replies b)) bs"
  by (induction bs arbitrary: g)
    (auto simp: probeBackend_def probe_healthy_def Let_def split: prod.split bool.split)

lemma forget_added_frame [simp]:
  "gw_heap (forget_added bs g) = gw_heap g" "gw_routing (forget_added bs g) = gw_routing g"
  "gw_catalog (forget_added bs g) = gw_catalog g" "gw_models (forget_added bs g) = gw_models g"
  by (induction bs arbitrary: g) simp_all

lemma forget_added_backends:
  "map_of (gw_backends (forget_added bs g)) =
     (map_of (gw_backends g)) |` (- (\<lambda>b. backend_key (gw_heap g ! b)) ` set bs)"
  by (induction bs arbitrary: g)
    (auto simp: delete_conv' restrict_map_def fun_eq_iff)

lemma forget_added_table_ok:
  "table_ok (gw_heap g) (gw_backends g) \<Longrightarrow> table_ok (gw_heap g) (gw_backends (forget_added bs g))"
proof (induction bs arbitrary: g)
  case (Cons b bs)
  let ?g = "drop_health_series (gw_heap g ! b)
    (g\<lparr>gw_backends := AList.delete (backend_key (gw_heap g ! b)) (gw_backends g)\<rparr>)"
  from Cons.IH [of ?g] table_ok_delete [OF Cons.prems] show ?case by simp
qed simp

lemma forget_inactive_frame [simp]:
  "gw_heap (forget_inactive active bs g) = gw_heap g" "gw_routing (forget_inactive active bs g) = gw_routing g"
  "gw_catalog (forget_inactive active bs g) = gw_catalog g" "gw_models (forget_inactive active bs g) = gw_models g"
  by (induction active bs g rule: forget_inactive.induct) simp_all

lemma forget_inactive_backends:
  "map_of (gw_backends (forget_inactive active bs g)) =
     (map_of (gw_backends g)) |` (- (fst ` set bs - set active))"
  by (induction active bs g rule: forget_inactive.induct)
    (auto simp: delete_conv' restrict_map_def fun_eq_iff)

lemma forget_inactive_table_ok:
  "table_ok (gw_heap g) (gw_backends g) \<Longrightarrow>
     table_ok (gw_heap g) (gw_backends (forget_inactive active bs g))"
  by (induction active bs g rule: forget_inactive.induct) (auto simp: table_ok_delete)

lemma probe_added_length: "length (gw_heap (snd (probe_added replies bs g))) = length (gw_heap g)"
  by (induction bs arbitrary: g) (auto simp: probeBackend_def Let_def split: prod.split bool.split)

text \<open>Only the probed backends' health flags change.\<close>

lemma probe_added_untouched:
  assumes "probe_added replies bs g = (r, g')" and "list_all (\<lambda>b. n \<le> b) bs"
  shows "take n (gw_heap g') = take n (gw_heap g)"
  using assms
proof (induction bs arbitrary: g)
  case (Cons b bs)
  obtain ok g1 where p: "probeBackend (replies b) b g = (ok, g1)" by fastforce
  then have "take n (gw_heap g1) = take n (gw_heap g)"
    using Cons.prems(2) by (auto simp: probeBackend_def Let_def split: if_splits)
  with Cons p show ?case by (cases ok) auto
qed simp

subsection \<open>The invariant\<close>

definition gw_ok :: "gatewayEnv \<Rightarrow> gateway \<Rightarrow> bool" where
  "gw_ok env g \<longleftrightarrow>
     table_ok (gw_heap g) (gw_backends g) \<and>
     snapshot_ok (ge_parse env) (gw_heap g) (gw_routing g) \<and>
     membershipFingerprint (ge_sha256 env) (ge_parse env) (rs_models (gw_routing g)) =
       Some (rs_fingerprint (gw_routing g)) \<and>
     sameCatalog (gw_catalog g) (rs_models (gw_routing g)) \<and>
     gw_catalog g = modelCatalog (gw_models g)"

lemma gw_ok_probe_all: "gw_ok env g \<Longrightarrow> gw_ok env (probe_all replies bs g)"
  using table_ok_identity [OF probe_all_identity] snapshot_ok_identity [OF probe_all_identity]
  by (auto simp: gw_ok_def)

lemma gw_ok_reload_rejected: "gw_ok env (reload_rejected g) \<longleftrightarrow> gw_ok env g"
  by (simp add: gw_ok_def)

text \<open>What \<open>loadModels\<close> returns is a valid registry.\<close>

lemma loadModels_valid:
  assumes "loadModels parse decode file = Inr ms"
  shows "valid_registry parse ms"
proof -
  have "valid_registry parse []" by (simp add: valid_registry_def shared_metadata_def)
  from check_models_None [OF this, of 0 ms] assms show ?thesis
    by (auto simp: loadModels_def split: option.splits if_splits)
qed

text \<open>
  The part of a reload after the fingerprint test, for models that loaded: either an added
  backend is not healthy and everything but its own traces stays, or the snapshot of the new
  models is published.
\<close>

definition apply_membership ::
    "gatewayEnv \<Rightarrow> Model list \<Rightarrow> (bref \<Rightarrow> probe_reply) \<Rightarrow> gateway \<Rightarrow> (reload_error option \<times> gateway) option" where
  "apply_membership env models replies g =
     (case buildRouting env models g of
        None \<Rightarrow> None
      | Some (snap, added, g1) \<Rightarrow>
          (case probe_added replies added g1 of
             (Some b, g2) \<Rightarrow>
               Some (Some (NotHealthy (rb_origin (gw_heap g2 ! b))),
                     reload_rejected (forget_added added g2))
           | (None, g2) \<Rightarrow>
               Some (None, forget_inactive (map active_key models) (gw_backends g2) (publish snap g2))))"

lemma ReloadRegistry_cases:
  "ReloadRegistry env file replies g =
     (case loadModels (ge_parse env) (ge_decode env) file of
        Inl e \<Rightarrow> Some (Some (LoadError e), reload_rejected g)
      | Inr models \<Rightarrow>
          if \<not> sameCatalog (gw_catalog g) models
          then Some (Some CatalogChanged, reload_rejected g)
          else if membershipFingerprint (ge_sha256 env) (ge_parse env) models =
                  Some (rs_fingerprint (gw_routing g))
          then Some (None, g)
          else apply_membership env models replies g)"
  by (auto simp: ReloadRegistry_def apply_membership_def Let_def buildRouting_def
      split: sum.splits option.splits prod.splits)

text \<open>The backends that \<open>buildRouting\<close> added are exactly the ones it forgets on failure.\<close>

lemma forget_added_restores:
  assumes "core_ok h0 t0 st" and "same_identity (bd_heap st) (gw_heap g)"
    and "gw_backends g = bd_backends st"
  shows "map_of (gw_backends (forget_added (bd_added st) g)) = map_of t0"
proof (rule ext)
  fix k
  let ?t = "map_of (bd_backends st)"
  have key: "backend_key (gw_heap g ! b) = backend_key (bd_heap st ! b)" if "b \<in> set (bd_added st)" for b
    using assms(1,2) that by (auto simp: same_identity_def backend_key_def core_ok_def)
  have "k \<in> (\<lambda>b. backend_key (gw_heap g ! b)) ` set (bd_added st) \<longleftrightarrow> ?t k \<noteq> None \<and> map_of t0 k = None"
  proof
    assume "k \<in> (\<lambda>b. backend_key (gw_heap g ! b)) ` set (bd_added st)"
    then show "?t k \<noteq> None \<and> map_of t0 k = None"
      using assms(1) key by (auto simp: core_ok_def)
  next
    assume "?t k \<noteq> None \<and> map_of t0 k = None"
    then obtain b where "?t k = Some b" "b \<in> set (bd_added st)"
      using assms(1) by (auto simp: core_ok_def)
    moreover from this have "k = backend_key (bd_heap st ! b)"
      using assms(1) by (auto simp: core_ok_def table_ok_def)
    ultimately show "k \<in> (\<lambda>b. backend_key (gw_heap g ! b)) ` set (bd_added st)"
      using key by force
  qed
  moreover have "map_of t0 k = Some b \<Longrightarrow> ?t k = Some b" for b
    using assms(1) by (auto simp: core_ok_def map_le_def dom_def)
  ultimately show "map_of (gw_backends (forget_added (bd_added st) g)) k = map_of t0 k"
    by (cases "map_of t0 k") (auto simp: forget_added_backends assms(3) restrict_map_def)
qed

lemma reload_rejected_errors [simp]:
  "mx_reloadErrors (gw_metrics (reload_rejected g)) = mx_reloadErrors (gw_metrics g) + 1"
  by (simp add: reload_rejected_def)

text \<open>The error counter is touched by rejections only.\<close>

lemma drop_health_series_errors [simp]:
  "mx_reloadErrors (gw_metrics (drop_health_series b g)) = mx_reloadErrors (gw_metrics g)"
  by (simp add: drop_health_series_def)

lemma forget_added_errors [simp]:
  "mx_reloadErrors (gw_metrics (forget_added bs g)) = mx_reloadErrors (gw_metrics g)"
  by (induction bs arbitrary: g) simp_all

lemma probe_added_errors:
  "mx_reloadErrors (gw_metrics (snd (probe_added replies bs g))) = mx_reloadErrors (gw_metrics g)"
  by (induction bs arbitrary: g)
    (auto simp: probeBackend_def Let_def split: prod.split bool.split)

lemma add_members_errors:
  "add_members env ms st = Some st' \<Longrightarrow> mx_reloadErrors (bd_metrics st') = mx_reloadErrors (bd_metrics st)"
proof (induction ms arbitrary: st)
  case (Cons m ms)
  then obtain st1 where "add_member env m st = Some st1" "add_members env ms st1 = Some st'"
    by (auto split: bind_splits)
  with Cons.IH show ?case
    by (auto simp: add_member_def get_backend_def Let_def new_series_def split: option.splits)
qed simp

lemma buildRouting_errors:
  "buildRouting env ms g = Some (snap, added, g') \<Longrightarrow>
     mx_reloadErrors (gw_metrics g') = mx_reloadErrors (gw_metrics g)"
  by (auto simp: buildRouting_def dest!: add_members_errors split: option.splits)

text \<open>A backend that was there before is the one the new routes use.\<close>

definition reuses :: "url_parser \<Rightarrow> gateway \<Rightarrow> routingSnapshot \<Rightarrow> bool" where
  "reuses parse g rs \<longleftrightarrow>
     list_all (\<lambda>m. pred_option (\<lambda>b. pred_option (\<lambda>r. b \<in> set (mr_backends r)) (map_of (rs_proxies rs) (Name m)))
                 (map_of (gw_backends g) (member_text parse m)))
       (rs_models rs)"

lemma built_reuses:
  assumes "build_ok parse h0 (gw_backends g) ms st" and "rs_models rs = ms"
    and "rs_proxies rs = map (\<lambda>(n, r). (n, buildRing (bd_heap st) r)) (bd_proxies st)"
  shows "reuses parse g rs"
proof -
  have "b \<in> set (route_refs parse (bd_backends st) (Name m) ms)"
    if "m \<in> set ms" "map_of (gw_backends g) (member_text parse m) = Some b" for m b
  proof -
    have "map_of (bd_backends st) (member_text parse m) = Some b"
      using assms(1) that(2) by (auto simp: build_ok_def core_ok_def map_le_def dom_def)
    with that(1) show ?thesis by (force simp: route_refs_def)
  qed
  then show ?thesis
    using assms by (auto simp: reuses_def list_all_iff option.pred_set map_of_map_snd build_ok_def
        split: if_splits)
qed

text \<open>After the probes of the added backends: the known backends are as they were.\<close>

lemma probed_added:
  assumes core: "core_ok (gw_heap g) (gw_backends g) st"
    and p: "probe_added replies (bd_added st)
      (g\<lparr>gw_heap := bd_heap st, gw_backends := bd_backends st, gw_metrics := mx\<rparr>) = (r, g2)"
  shows "gw_backends g2 = bd_backends st" and "gw_routing g2 = gw_routing g"
    and "gw_catalog g2 = gw_catalog g" and "gw_models g2 = gw_models g"
    and "same_identity (bd_heap st) (gw_heap g2)" and "same_identity (gw_heap g) (gw_heap g2)"
    and "table_ok (gw_heap g2) (gw_backends g2)"
    and "take (length (gw_heap g)) (gw_heap g2) = gw_heap g"
    and "mx_reloadErrors (gw_metrics g2) = mx_reloadErrors mx"
proof -
  show frame: "gw_backends g2 = bd_backends st" "gw_routing g2 = gw_routing g"
    "gw_catalog g2 = gw_catalog g" "gw_models g2 = gw_models g" "same_identity (bd_heap st) (gw_heap g2)"
    using probe_added_frame [OF p] by simp_all
  obtain new where new: "bd_heap st = gw_heap g @ new" using core by (auto simp: core_ok_def)
  show "same_identity (gw_heap g) (gw_heap g2)"
    using same_identity_trans [OF same_identity_append] frame(5) new by simp
  show "table_ok (gw_heap g2) (gw_backends g2)"
    using table_ok_identity [OF frame(5)] core frame(1) by (simp add: core_ok_def)
  show "take (length (gw_heap g)) (gw_heap g2) = gw_heap g"
    using probe_added_untouched [OF p, of "length (gw_heap g)"] core new
    by (auto simp: core_ok_def list_all_iff)
  show "mx_reloadErrors (gw_metrics g2) = mx_reloadErrors mx"
    using probe_added_errors [of replies "bd_added st"
        "g\<lparr>gw_heap := bd_heap st, gw_backends := bd_backends st, gw_metrics := mx\<rparr>"] p by simp
qed

lemma apply_membership_ok:
  assumes ok: "gw_ok env g" and law: "parser_law (ge_parse env)"
    and valid: "valid_registry (ge_parse env) ms" and cat: "sameCatalog (gw_catalog g) ms"
  shows "\<exists>res g'. apply_membership env ms replies g = Some (res, g') \<and> gw_ok env g' \<and>
    take (length (gw_heap g)) (gw_heap g') = gw_heap g \<and>
    (case res of
       Some e \<Rightarrow> gw_routing g' = gw_routing g \<and> map_of (gw_backends g') = map_of (gw_backends g) \<and>
         mx_reloadErrors (gw_metrics g') = mx_reloadErrors (gw_metrics g) + 1
     | None \<Rightarrow> rs_models (gw_routing g') = ms \<and> reuses (ge_parse env) g (gw_routing g') \<and>
         list_all (\<lambda>b. probe_healthy (replies b)) [length (gw_heap g)..<length (gw_heap g')] \<and>
         dom (map_of (gw_backends g')) =
           (dom (map_of (gw_backends g)) \<union> member_text (ge_parse env) ` set ms) \<inter> active_key ` set ms)"
proof -
  have tab: "table_ok (gw_heap g) (gw_backends g)" using ok by (simp add: gw_ok_def)
  obtain snap st where b: "build_ok (ge_parse env) (gw_heap g) (gw_backends g) ms st"
    and built: "buildRouting env ms g = Some (snap, bd_added st, g\<lparr>gw_heap := bd_heap st,
           gw_backends := bd_backends st, gw_metrics := bd_metrics st\<rparr>)"
    and snap: "snapshot_ok (ge_parse env) (bd_heap st) snap" "rs_models snap = ms"
      "membershipFingerprint (ge_sha256 env) (ge_parse env) ms = Some (rs_fingerprint snap)"
      "rs_proxies snap = map (\<lambda>(n, r). (n, buildRing (bd_heap st) r)) (bd_proxies st)"
    using buildRouting_ok [OF tab law valid] .
  let ?g1 = "g\<lparr>gw_heap := bd_heap st, gw_backends := bd_backends st, gw_metrics := bd_metrics st\<rparr>"
  obtain r g2 where p: "probe_added replies (bd_added st) ?g1 = (r, g2)" by fastforce
  have core: "core_ok (gw_heap g) (gw_backends g) st" using b by (simp add: build_ok_def)
  note frame = probed_added [OF core p]
  show ?thesis
  proof (cases r)
    case (Some x)
    let ?g' = "reload_rejected (forget_added (bd_added st) g2)"
    have "apply_membership env ms replies g = Some (Some (NotHealthy (rb_origin (gw_heap g2 ! x))), ?g')"
      using built p Some by (simp add: apply_membership_def)
    moreover have "gw_ok env ?g'"
      using ok frame forget_added_table_ok [OF frame(7)] snapshot_ok_identity [OF frame(6)]
      by (auto simp: gw_ok_def)
    moreover have "map_of (gw_backends ?g') = map_of (gw_backends g)"
      using forget_added_restores [OF core frame(5,1)] by simp
    moreover have "mx_reloadErrors (gw_metrics g2) = mx_reloadErrors (gw_metrics g)"
      using frame(9) buildRouting_errors [OF built] by simp
    ultimately show ?thesis using frame by simp
  next
    case None
    let ?g' = "forget_inactive (map active_key ms) (gw_backends g2) (publish snap g2)"
    have "apply_membership env ms replies g = Some (None, ?g')"
      using built p None by (simp add: apply_membership_def)
    moreover have "gw_ok env ?g'"
      using ok cat frame snap snapshot_ok_identity [OF frame(5) snap(1)] frame(7)
        forget_inactive_table_ok [of "publish snap g2" "map active_key ms" "gw_backends g2"]
      by (auto simp: gw_ok_def)
    moreover have "dom (map_of (gw_backends ?g')) =
        (dom (map_of (gw_backends g)) \<union> member_text (ge_parse env) ` set ms) \<inter> active_key ` set ms"
      using b by (auto simp: forget_inactive_backends frame(1) build_ok_def dom_map_of_conv_image_fst)
    moreover have "find (\<lambda>b. \<not> probe_healthy (replies b)) (bd_added st) = None"
      using probe_added_result [of replies "bd_added st" ?g1] p None by simp
    then have "list_all (\<lambda>b. probe_healthy (replies b)) (bd_added st)"
      by (simp add: find_None_iff list_all_iff)
    moreover have "bd_added st = [length (gw_heap g)..<length (gw_heap ?g')]"
      using core probe_added_length [of replies "bd_added st" ?g1] p by (simp add: core_ok_def)
    ultimately show ?thesis using frame(8) snap(2) built_reuses [OF b snap(2,4)] by simp
  qed
qed

lemma ReloadRegistry_ok:
  assumes ok: "gw_ok env g" and law: "parser_law (ge_parse env)"
  shows "\<exists>res g'. ReloadRegistry env file replies g = Some (res, g') \<and> gw_ok env g' \<and>
    take (length (gw_heap g)) (gw_heap g') = gw_heap g \<and>
    (case res of
       Some e \<Rightarrow> gw_routing g' = gw_routing g \<and> map_of (gw_backends g') = map_of (gw_backends g) \<and>
         mx_reloadErrors (gw_metrics g') = mx_reloadErrors (gw_metrics g) + 1
     | None \<Rightarrow> \<exists>ms. loadModels (ge_parse env) (ge_decode env) file = Inr ms \<and>
         membershipFingerprint (ge_sha256 env) (ge_parse env) ms = Some (rs_fingerprint (gw_routing g')) \<and>
         (if rs_fingerprint (gw_routing g') = rs_fingerprint (gw_routing g) then g' = g
          else rs_models (gw_routing g') = ms \<and> reuses (ge_parse env) g (gw_routing g') \<and>
            list_all (\<lambda>b. probe_healthy (replies b)) [length (gw_heap g)..<length (gw_heap g')] \<and>
            dom (map_of (gw_backends g')) =
              (dom (map_of (gw_backends g)) \<union> member_text (ge_parse env) ` set ms) \<inter> active_key ` set ms))"
proof (cases "loadModels (ge_parse env) (ge_decode env) file")
  case (Inl e)
  with ok show ?thesis by (simp add: ReloadRegistry_cases gw_ok_reload_rejected)
next
  case (Inr ms)
  show ?thesis
  proof (cases "sameCatalog (gw_catalog g) ms")
    case False
    with ok Inr show ?thesis by (simp add: ReloadRegistry_cases gw_ok_reload_rejected)
  next
    case True
    show ?thesis
    proof (cases "membershipFingerprint (ge_sha256 env) (ge_parse env) ms = Some (rs_fingerprint (gw_routing g))")
      case same: True
      with ok Inr True show ?thesis by (simp add: ReloadRegistry_cases)
    next
      case False
      with Inr True have "ReloadRegistry env file replies g = apply_membership env ms replies g"
        by (simp add: ReloadRegistry_cases)
      with apply_membership_ok [OF ok law loadModels_valid [OF Inr] True, of replies] False Inr
      show ?thesis by (fastforce simp: gw_ok_def split: option.splits)
    qed
  qed
qed

lemma NewServer_ok:
  assumes law: "parser_law (ge_parse env)" and "loadModels (ge_parse env) (ge_decode env) file = Inr ms"
  obtains g where "NewServer env file = Some (Inr g)" and "gw_ok env g" and "rs_models (gw_routing g) = ms"
    and "gw_catalog g = modelCatalog ms"
proof -
  note valid = loadModels_valid [OF assms(2)]
  have "table_ok (gw_heap (empty_gateway ms)) (gw_backends (empty_gateway ms))"
    by (simp add: empty_gateway_def)
  from buildRouting_ok [OF this law valid] obtain snap st
    where b: "build_ok (ge_parse env) (gw_heap (empty_gateway ms)) (gw_backends (empty_gateway ms)) ms st"
    and built: "buildRouting env ms (empty_gateway ms) = Some (snap, bd_added st,
      (empty_gateway ms)\<lparr>gw_heap := bd_heap st, gw_backends := bd_backends st, gw_metrics := bd_metrics st\<rparr>)"
    and snap: "snapshot_ok (ge_parse env) (bd_heap st) snap" "rs_models snap = ms"
      "membershipFingerprint (ge_sha256 env) (ge_parse env) ms = Some (rs_fingerprint snap)" .
  have "sameCatalog (modelCatalog ms) ms"
    by (simp add: sameCatalog_entries)
  let ?g = "(empty_gateway ms)\<lparr>gw_heap := bd_heap st, gw_backends := bd_backends st, gw_routing := snap,
    gw_metrics := (bd_metrics st)\<lparr>mx_registryInfo :=
      (mx_registryInfo (bd_metrics st))(rs_fingerprint snap \<mapsto> 1)\<rparr>\<rparr>"
  have "NewServer env file = Some (Inr ?g)"
    using built assms(2) by (simp add: NewServer_def)
  moreover have "gw_ok env ?g"
    using \<open>sameCatalog (modelCatalog ms) ms\<close> snap b
    by (simp add: gw_ok_def build_ok_def core_ok_def empty_gateway_def)
  ultimately show thesis using that [of ?g] snap(2) by (simp add: empty_gateway_def)
qed

subsection \<open>Reachable servers\<close>

text \<open>A request advances the round-robin counter of the route it found in the snapshot.\<close>

definition set_route :: "bytes \<Rightarrow> modelRoute \<Rightarrow> gateway \<Rightarrow> gateway" where
  "set_route n r g =
     g\<lparr>gw_routing := (gw_routing g)\<lparr>rs_proxies := AList.update n r (rs_proxies (gw_routing g))\<rparr>\<rparr>"

text \<open>
  The life of a server: construction, then reloads, probe rounds that may stop early, and
  requests, in any order.
\<close>

inductive reachable :: "gatewayEnv \<Rightarrow> ringLib \<Rightarrow> gateway \<Rightarrow> bool" for env lib where
  start: "NewServer env file = Some (Inr g) \<Longrightarrow> reachable env lib g"
| reload: "reachable env lib g \<Longrightarrow> ReloadRegistry env file replies g = Some (res, g') \<Longrightarrow>
    reachable env lib g'"
| probe: "reachable env lib g \<Longrightarrow> set bs \<subseteq> set (snapshot_backends (gw_routing g)) \<Longrightarrow>
    reachable env lib (probe_all replies bs g)"
| request: "reachable env lib g \<Longrightarrow> map_of (rs_proxies (gw_routing g)) n = Some r \<Longrightarrow>
    selectHealthyBackend lib health r key = (sel, r') \<Longrightarrow> reachable env lib (set_route n r' g)"

inductive_cases reachable_cases: "reachable env lib g"

lemma route_ok_frame:
  "mr_backends r' = mr_backends r \<Longrightarrow> mr_ring r' = mr_ring r \<Longrightarrow> route_ok h r' \<longleftrightarrow> route_ok h r"
  by (simp add: route_ok_def buildRing_def)

lemma gw_ok_set_route:
  assumes "gw_ok env g" and "map_of (rs_proxies (gw_routing g)) n = Some r"
    and "mr_backends r' = mr_backends r" and "mr_ring r' = mr_ring r" and "mr_model r' = mr_model r"
  shows "gw_ok env (set_route n r' g)"
proof -
  have "n \<in> fst ` set (rs_proxies (gw_routing g))"
    using assms(2) by (metis map_of_eq_None_iff option.distinct(1))
  then show ?thesis
    using assms route_ok_frame [OF assms(3,4)]
    by (auto simp: gw_ok_def set_route_def snapshot_ok_def update_conv' distinct_update dom_update)
qed

lemma NewServer_gw_ok:
  assumes "parser_law (ge_parse env)" and "NewServer env file = Some (Inr g)"
  shows "gw_ok env g"
proof (cases "loadModels (ge_parse env) (ge_decode env) file")
  case (Inl e)
  with assms(2) show ?thesis by (simp add: NewServer_def)
next
  case (Inr ms)
  from NewServer_ok [OF assms(1) this] assms(2) show ?thesis by (metis option.inject sum.inject(2))
qed

lemma reachable_gw_ok:
  assumes "reachable env lib g" and "parser_law (ge_parse env)"
  shows "gw_ok env g"
  using assms
proof (induction rule: reachable.induct)
  case (start f g)
  then show ?case by (simp add: NewServer_gw_ok)
next
  case (reload g f replies res g')
  from ReloadRegistry_ok [OF reload.IH [OF reload.prems] reload.prems, of f replies] reload.hyps(2)
  show ?case by auto
next
  case (probe g bs replies)
  then show ?case by (simp add: gw_ok_probe_all)
next
  case (request g n r health key sel r')
  from request.hyps(3) have "r' = snd (selectBackend lib r key)"
    by (metis snd_conv snd_selectHealthyBackend)
  with request show ?case by (simp add: gw_ok_set_route)
qed

text \<open>A route of a reachable server: well-formed, and its backends are the model's replicas.\<close>

lemma gw_ok_route:
  assumes "gw_ok env g" and "map_of (rs_proxies (gw_routing g)) n = Some r"
  shows "route_ok (gw_heap g) r"
    and "b \<in> set (mr_backends r) \<Longrightarrow> (rb_model (gw_heap g ! b), rb_origin (gw_heap g ! b)) \<in>
      dest (ge_parse env) ` {m \<in> set (rs_models (gw_routing g)). Name m = n}"
proof -
  show "route_ok (gw_heap g) r" using assms by (simp add: gw_ok_def snapshot_ok_def)
  have "map (\<lambda>b. (rb_model (gw_heap g ! b), rb_origin (gw_heap g ! b))) (mr_backends r) =
      map (dest (ge_parse env)) (filter (\<lambda>m. Name m = n) (rs_models (gw_routing g)))"
    using assms by (simp add: gw_ok_def snapshot_ok_def)
  from arg_cong [OF this, of set]
  show "b \<in> set (mr_backends r) \<Longrightarrow> (rb_model (gw_heap g ! b), rb_origin (gw_heap g ! b)) \<in>
      dest (ge_parse env) ` {m \<in> set (rs_models (gw_routing g)). Name m = n}"
    by (simp only: set_map set_filter) blast
qed

text \<open>
  The servers of the concrete instances: the empty file holds the first registry, any other file
  the second.
\<close>

definition demo_env :: "Model list \<Rightarrow> Model list \<Rightarrow> gatewayEnv" where
  "demo_env ms ms' = \<lparr>ge_parse = demo_parse,
     ge_decode = (\<lambda>d. Some (Some (if d = [] then ms else ms'), True)),
     ge_sha256 = rev, ge_authenticated = True, ge_backendAPIKey = ''k''\<rparr>"

lemma demo_env_simps [simp]:
  "ge_parse (demo_env ms ms') = demo_parse" "ge_sha256 (demo_env ms ms') = rev"
  "ge_decode (demo_env ms ms') data = Some (Some (if data = [] then ms else ms'), True)"
  by (simp_all add: demo_env_def)

lemma loads_valid:
  assumes "valid_registry parse ms" and "decode data = Some (Some ms, True)"
  shows "loadModels parse decode (Some data) = Inr ms"
proof -
  have "valid_registry parse []" by (simp add: valid_registry_def shared_metadata_def)
  from check_models_None [OF this, of 0 ms] assms show ?thesis by (simp add: loadModels_def)
qed

lemma demo_reachable:
  assumes "valid_registry demo_parse ms"
  obtains g where "reachable (demo_env ms ms') lib g" and "rs_models (gw_routing g) = ms"
    and "gw_ok (demo_env ms ms') g" and "gw_catalog g = modelCatalog ms"
proof -
  have "parser_law (ge_parse (demo_env ms ms'))" by (simp add: demo_parser_law)
  moreover have "loadModels (ge_parse (demo_env ms ms')) (ge_decode (demo_env ms ms')) (Some []) = Inr ms"
    using assms by (intro loads_valid) simp_all
  ultimately obtain g where "NewServer (demo_env ms ms') (Some []) = Some (Inr g)"
    "gw_ok (demo_env ms ms') g" "rs_models (gw_routing g) = ms" "gw_catalog g = modelCatalog ms"
    by (rule NewServer_ok)
  then show thesis using that reachable.start by metis
qed

text \<open>With healthy backends a loaded registry over the same catalog is accepted.\<close>

lemma reload_accepted:
  assumes ok: "gw_ok env g" and law: "parser_law (ge_parse env)"
    and load: "loadModels (ge_parse env) (ge_decode env) file = Inr ms"
    and cat: "sameCatalog (gw_catalog g) ms" and "\<And>b. replies b = Reply 200"
  obtains g' where "ReloadRegistry env file replies g = Some (None, g')"
proof -
  have tab: "table_ok (gw_heap g) (gw_backends g)" using ok by (simp add: gw_ok_def)
  obtain snap and st :: build where "buildRouting env ms g = Some (snap, bd_added st, g\<lparr>gw_heap := bd_heap st,
      gw_backends := bd_backends st, gw_metrics := bd_metrics st\<rparr>)" (is "_ = Some (_, _, ?g1)")
    by (rule buildRouting_ok [OF tab law loadModels_valid [OF load]]) (rule that)
  moreover have "fst (probe_added replies (bd_added st) ?g1) = None"
    by (simp add: probe_added_result find_None_iff probe_healthy_def assms(5))
  ultimately have "\<exists>g'. apply_membership env ms replies g = Some (None, g')"
    by (auto simp: apply_membership_def split: prod.split)
  then have "\<exists>g'. ReloadRegistry env file replies g = Some (None, g')"
    using load cat by (simp add: ReloadRegistry_cases)
  then show thesis using that by blast
qed

subsection \<open>Probes in any order\<close>

lemma probeBackend_swap:
  assumes "b \<noteq> c" and "(rb_model (gw_heap g ! b), rb_origin (gw_heap g ! b)) \<noteq>
      (rb_model (gw_heap g ! c), rb_origin (gw_heap g ! c))"
  shows "snd (probeBackend rc c (snd (probeBackend rb b g))) =
    snd (probeBackend rb b (snd (probeBackend rc c g)))"
  using assms by (auto simp: probeBackend_def Let_def list_update_swap fun_upd_twist)

text \<open>The series of a backend's health: labels tell the backends of a snapshot apart.\<close>

definition distinct_labels :: "heap \<Rightarrow> bref list \<Rightarrow> bool" where
  "distinct_labels h bs \<longleftrightarrow> distinct (map (\<lambda>b. (rb_model (h ! b), rb_origin (h ! b))) bs)"

lemma distinct_labels_probe:
  assumes "list_all (\<lambda>b. b < length (gw_heap g)) bs" and "distinct_labels (gw_heap g) bs"
  shows "distinct_labels (gw_heap (snd (probeBackend rb b g))) bs"
proof -
  have "map (\<lambda>b'. (rb_model (gw_heap (snd (probeBackend rb b g)) ! b'),
        rb_origin (gw_heap (snd (probeBackend rb b g)) ! b'))) bs =
      map (\<lambda>b. (rb_model (gw_heap g ! b), rb_origin (gw_heap g ! b))) bs"
    using assms(1) probeBackend_frame(5) [of g rb b] by (auto simp: same_identity_def list_all_iff)
  with assms(2) show ?thesis by (simp add: distinct_labels_def del: map_eq_conv)
qed

lemma length_probeBackend [simp]: "length (gw_heap (snd (probeBackend rb b g))) = length (gw_heap g)"
  by (simp add: probeBackend_def Let_def)

lemma probe_all_pull:
  assumes "list_all (\<lambda>b. b < length (gw_heap g)) (xs @ b # ys)" and "distinct_labels (gw_heap g) (xs @ b # ys)"
  shows "probe_all replies (xs @ b # ys) g = probe_all replies (b # xs @ ys) g"
  using assms
proof (induction xs arbitrary: g)
  case (Cons x xs)
  let ?g = "snd (probeBackend (replies x) x g)"
  have neq: "x \<noteq> b" "(rb_model (gw_heap g ! x), rb_origin (gw_heap g ! x)) \<noteq>
      (rb_model (gw_heap g ! b), rb_origin (gw_heap g ! b))"
    using Cons.prems(2) by (auto simp: distinct_labels_def)
  have "distinct_labels (gw_heap ?g) (xs @ b # ys)"
    using Cons.prems by (intro distinct_labels_probe) (auto simp: distinct_labels_def)
  with Cons have "probe_all replies (xs @ b # ys) ?g = probe_all replies (b # xs @ ys) ?g" by simp
  then show ?case using probeBackend_swap [OF neq] by simp
qed simp

lemma probe_all_perm:
  assumes "mset bs = mset bs'" and "list_all (\<lambda>b. b < length (gw_heap g)) bs" and "distinct_labels (gw_heap g) bs"
  shows "probe_all replies bs g = probe_all replies bs' g"
  using assms
proof (induction bs arbitrary: bs' g)
  case (Cons b bs)
  then obtain xs ys where bs': "bs' = xs @ b # ys"
    by (metis in_set_conv_decomp list.set_intros(1) mset_eq_setD)
  with Cons.prems(1) have m: "mset bs = mset (xs @ ys)" by simp
  let ?g = "snd (probeBackend (replies b) b g)"
  have perm: "set bs' = set (b # bs)" using Cons.prems(1) by (metis mset_eq_setD)
  have "distinct (map (\<lambda>b. (rb_model (gw_heap g ! b), rb_origin (gw_heap g ! b))) bs')"
    using Cons.prems(1,3) unfolding distinct_labels_def by (metis mset_map mset_eq_imp_distinct_iff)
  then have "probe_all replies bs' g = probe_all replies (b # xs @ ys) g"
    using Cons.prems(2) perm unfolding bs'
    by (intro probe_all_pull) (simp_all add: distinct_labels_def list_all_iff)
  moreover have "distinct_labels (gw_heap ?g) bs"
    using Cons.prems by (intro distinct_labels_probe) (auto simp: distinct_labels_def)
  then have "probe_all replies bs ?g = probe_all replies (xs @ ys) ?g"
    using Cons.IH [OF m] Cons.prems(2) by simp
  ultimately show ?case by simp
qed simp

lemma concat_labels:
  assumes "distinct (map fst ps)"
    and "\<And>n r. (n, r) \<in> set ps \<Longrightarrow> distinct (map f (mr_backends r)) \<and> set (map (fst \<circ> f) (mr_backends r)) \<subseteq> {n}"
  shows "distinct (map f (concat (map (\<lambda>(n, r). mr_backends r) ps)))"
  using assms
proof (induction ps)
  case (Cons p ps)
  obtain n r where p: "p = (n, r)" by (cases p)
  have "fst ` f ` set (mr_backends r) \<subseteq> {n}" using Cons.prems(2) [of n r] p by auto
  moreover have "fst ` f ` set (concat (map (\<lambda>(n, r). mr_backends r) ps)) \<subseteq> fst ` set ps"
  proof
    fix x assume "x \<in> fst ` f ` set (concat (map (\<lambda>(n, r). mr_backends r) ps))"
    then obtain m r' b where mem: "(m, r') \<in> set ps" "b \<in> set (mr_backends r')" "x = fst (f b)" by auto
    with Cons.prems(2) [of m r'] have "x = m" by auto
    with mem(1) show "x \<in> fst ` set ps" by force
  qed
  moreover have "n \<notin> fst ` set ps" using Cons.prems(1) p by simp
  ultimately have "f ` set (mr_backends r) \<inter> f ` set (concat (map (\<lambda>(n, r). mr_backends r) ps)) = {}"
    by blast
  with Cons p show ?case by auto
qed simp

lemma gw_ok_labels:
  assumes "gw_ok env g"
  shows "distinct_labels (gw_heap g) (snapshot_backends (gw_routing g))"
    and "list_all (\<lambda>b. b < length (gw_heap g)) (snapshot_backends (gw_routing g))"
proof -
  let ?ps = "rs_proxies (gw_routing g)" and ?f = "\<lambda>b. (rb_model (gw_heap g ! b), rb_origin (gw_heap g ! b))"
  have dist: "distinct (map fst ?ps)" using assms by (simp add: gw_ok_def snapshot_ok_def)
  have r: "route_ok (gw_heap g) r \<and> set (map (fst \<circ> ?f) (mr_backends r)) \<subseteq> {n}" if "(n, r) \<in> set ?ps" for n r
    using gw_ok_route [OF assms map_of_is_SomeI [OF dist that]] by (force simp: dest_def)
  have "distinct (map ?f (mr_backends r))" if "route_ok h r" "h = gw_heap g" for r h
  proof -
    have "distinct (map (snd \<circ> ?f) (mr_backends r))" using that by (simp add: route_ok_def comp_def)
    then show ?thesis by (metis distinct_map map_map)
  qed
  with r show "distinct_labels (gw_heap g) (snapshot_backends (gw_routing g))"
    unfolding distinct_labels_def snapshot_backends_def by (intro concat_labels [OF dist]) auto
  show "list_all (\<lambda>b. b < length (gw_heap g)) (snapshot_backends (gw_routing g))"
    using r by (fastforce simp: snapshot_backends_def list_all_iff route_ok_def)
qed

subsection \<open>A reload of concrete registries\<close>

text \<open>One replica whose URL has an upper-case scheme, then a second replica.\<close>

definition demo_one :: "Model list" where
  "demo_one = [demo_model ''q'' ''HTTP://a'']"

definition demo_two :: "Model list" where
  "demo_two = [demo_model ''q'' ''HTTP://a'', demo_model ''q'' ''http://b'']"

lemma demo_registries_valid: "valid_registry demo_parse demo_one" "valid_registry demo_parse demo_two"
proof -
  have "demo_parse ''HTTP://a'' = Some \<lparr>Scheme = ''http'', Host = ''a'', Hostname = ''a'',
     HasUser = False, Path = [], RawQuery = [], ForceQuery = False, Fragment = [],
     URLString = ''http://a''\<rparr>"
    by (simp add: demo_parse_def hasPrefix_def)
  then show "valid_registry demo_parse demo_one" "valid_registry demo_parse demo_two"
    by (simp_all add: valid_registry_def demo_one_def demo_two_def demo_model_def model_ok_def dest_def
        model_origin_def origin_def absolute_http_def origin_only_def shared_metadata_def
        demo_parse_simps trimSuffix_def hasSuffix_def trimSpace_single)
qed

lemma demo_fingerprints:
  "membershipFingerprint rev demo_parse demo_one \<noteq> membershipFingerprint rev demo_parse demo_two"
  by code_simp

lemma demo_catalog: "sameCatalog (modelCatalog demo_one) demo_two"
  by code_simp

lemma demo_active:
  "member_text demo_parse (demo_model ''q'' ''HTTP://a'') \<notin> active_key ` set demo_two"
  by code_simp

lemma demo_two_dests: "(''q'', ''http://a'') \<in> set (map (dest demo_parse) demo_two)"
  by code_simp

text \<open>The server over \<open>demo_one\<close> after it accepted \<open>demo_two\<close>.\<close>

lemma demo_reload:
  obtains g g' where "reachable (demo_env demo_one demo_two) lib g"
    and "ReloadRegistry (demo_env demo_one demo_two) (Some ''x'') (\<lambda>_. Reply 200) g = Some (None, g')"
    and "rs_fingerprint (gw_routing g') \<noteq> rs_fingerprint (gw_routing g)"
    and "loadModels (ge_parse (demo_env demo_one demo_two)) (ge_decode (demo_env demo_one demo_two)) (Some ''x'') = Inr demo_two"
proof -
  let ?env = "demo_env demo_one demo_two"
  obtain g where g: "reachable ?env lib g" "rs_models (gw_routing g) = demo_one" "gw_ok ?env g"
    "gw_catalog g = modelCatalog demo_one"
    using demo_reachable [OF demo_registries_valid(1)] .
  have law: "parser_law (ge_parse ?env)" by (simp add: demo_parser_law)
  have load: "loadModels (ge_parse ?env) (ge_decode ?env) (Some ''x'') = Inr demo_two"
    by (rule loads_valid) (simp_all add: demo_registries_valid)
  have "sameCatalog (gw_catalog g) demo_two" by (simp add: g(4) demo_catalog)
  from reload_accepted [OF g(3) law load this, of "\<lambda>_. Reply 200"] obtain g'
    where g': "ReloadRegistry ?env (Some ''x'') (\<lambda>_. Reply 200) g = Some (None, g')" by auto
  then have "rs_fingerprint (gw_routing g') \<noteq> rs_fingerprint (gw_routing g)"
    using ReloadRegistry_ok [OF g(3) law, of "Some ''x''" "\<lambda>_. Reply 200"] load g(2,3) demo_fingerprints
    by (auto simp: gw_ok_def)
  with g g' load that show thesis by blast
qed

subsection \<open>Properties\<close>

text \<open>
  C5: in every reachable server, whatever reloads, probes and requests came before, a model has a
  route exactly when it is in the published registry; selecting on that route never panics, is
  refused only after every replica was read unhealthy, and otherwise gives a backend that was
  read healthy and whose model and origin are those of a registry entry for the requested name.
\<close>
theorem every_model_routable:
  assumes "reachable env lib g" and "parser_law (ge_parse env)" and "ring_law lib"
  shows "case map_of (rs_proxies (gw_routing g)) n of
      None \<Rightarrow> n \<notin> Name ` set (rs_models (gw_routing g))
    | Some r \<Rightarrow>
        n \<in> Name ` set (rs_models (gw_routing g)) \<and>
        (case fst (selectHealthyBackend lib health r key) of
           Panic \<Rightarrow> False
         | Unavailable \<Rightarrow> list_all (\<lambda>b. \<exists>t. \<not> health t b) (mr_backends r)
         | Selected b fo \<Rightarrow>
             (\<exists>t. health t b) \<and>
             (rb_model (gw_heap g ! b), rb_origin (gw_heap g ! b)) \<in>
               dest (ge_parse env) ` {m \<in> set (rs_models (gw_routing g)). Name m = n})"
proof (cases "map_of (rs_proxies (gw_routing g)) n")
  case None
  note ok = reachable_gw_ok [OF assms(1,2)]
  from None have "n \<notin> fst ` set (rs_proxies (gw_routing g))" by (simp add: map_of_eq_None_iff)
  with ok None show ?thesis by (simp add: gw_ok_def snapshot_ok_def)
next
  case (Some r)
  note ok = reachable_gw_ok [OF assms(1,2)]
  note route = gw_ok_route [OF ok Some]
  have "n \<in> fst ` set (rs_proxies (gw_routing g))"
    using Some by (metis map_of_eq_None_iff option.distinct(1))
  with ok have n: "n \<in> Name ` set (rs_models (gw_routing g))" by (simp add: gw_ok_def snapshot_ok_def)
  obtain sel r' where sel: "selectHealthyBackend lib health r key = (sel, r')" by fastforce
  show ?thesis
    using selection_total [OF route(1) assms(3), of health key] route(2) n
    by (auto simp: Some sel split: selection.splits)
qed

theorem every_model_routable_witness:
  "\<exists>(g :: gateway) r. map_of (rs_proxies (gw_routing g)) ''q'' = Some r \<and>
     fst (selectHealthyBackend demo_ring (\<lambda>_ _. True) r ''c'') \<notin> {Panic, Unavailable}"
proof -
  obtain g where g: "reachable (demo_env demo_one demo_two) demo_ring g" "rs_models (gw_routing g) = demo_one"
    "gw_ok (demo_env demo_one demo_two) g"
    using demo_reachable [OF demo_registries_valid(1)] by metis
  have law: "parser_law (ge_parse (demo_env demo_one demo_two))" by (simp add: demo_parser_law)
  note th = every_model_routable [OF g(1) law demo_ring_law, of "''q''" "\<lambda>_ _. True" "''c''"]
  have "''q'' \<in> Name ` set (rs_models (gw_routing g))" by (simp add: g(2) demo_one_def demo_model_def)
  with th obtain r where r: "map_of (rs_proxies (gw_routing g)) ''q'' = Some r"
    by (cases "map_of (rs_proxies (gw_routing g)) ''q''") auto
  have "mr_backends r \<noteq> []" using gw_ok_route(1) [OF g(3) r] by (simp add: route_ok_def)
  then have "fst (selectHealthyBackend demo_ring (\<lambda>_ _. True) r ''c'') \<notin> {Panic, Unavailable}"
    using th r by (cases "mr_backends r") (auto split: selection.splits)
  with r show ?thesis by blast
qed

text \<open>
  C12: a reload of a reachable server never panics and leaves a reachable, well-formed server; the
  backends allocated before keep their identity, their proxies and their health, so a request in
  flight is never moved or re-probed by a reload.
\<close>
theorem reload_keeps_backends:
  assumes "reachable env lib g" and "parser_law (ge_parse env)"
  shows "\<exists>res g'. ReloadRegistry env file replies g = Some (res, g') \<and> gw_ok env g' \<and>
    take (length (gw_heap g)) (gw_heap g') = gw_heap g"
  using ReloadRegistry_ok [OF reachable_gw_ok [OF assms] assms(2), of "file" replies] by blast

theorem reload_keeps_backends_witness:
  "\<exists>g res g'. ReloadRegistry (demo_env demo_one demo_two) (Some ''x'') (\<lambda>_. NoReply) g = Some (res, g') \<and>
    gw_ok (demo_env demo_one demo_two) g' \<and> take (length (gw_heap g)) (gw_heap g') = gw_heap g"
proof -
  obtain g where "reachable (demo_env demo_one demo_two) demo_ring g"
    using demo_reachable [OF demo_registries_valid(1)] by metis
  from reload_keeps_backends [OF this, of "Some ''x''" "\<lambda>_. NoReply"] show ?thesis
    using demo_parser_law by auto
qed

text \<open>
  C23: a rejected reload has no effect on serving: the routing snapshot and the table of backends
  are those from before, and the rejection is counted exactly once.
\<close>
theorem rejected_reload_changes_nothing:
  assumes "reachable env lib g" and "parser_law (ge_parse env)"
    and "ReloadRegistry env file replies g = Some (Some e, g')"
  shows "gw_routing g' = gw_routing g \<and> map_of (gw_backends g') = map_of (gw_backends g) \<and>
    mx_reloadErrors (gw_metrics g') = mx_reloadErrors (gw_metrics g) + 1"
  using ReloadRegistry_ok [OF reachable_gw_ok [OF assms(1,2)] assms(2), of "file" replies] assms(3) by auto

theorem rejected_reload_changes_nothing_witness:
  "\<exists>g g'. ReloadRegistry (demo_env demo_one demo_two) None (\<lambda>_. NoReply) g = Some (Some (LoadError ReadFailed), g') \<and>
    gw_routing g' = gw_routing g \<and> map_of (gw_backends g') = map_of (gw_backends g) \<and>
    mx_reloadErrors (gw_metrics g') = mx_reloadErrors (gw_metrics g) + 1"
proof -
  obtain g where g: "reachable (demo_env demo_one demo_two) demo_ring g"
    using demo_reachable [OF demo_registries_valid(1)] by metis
  have r: "ReloadRegistry (demo_env demo_one demo_two) None (\<lambda>_. NoReply) g =
      Some (Some (LoadError ReadFailed), reload_rejected g)"
    by (simp add: ReloadRegistry_def loadModels_def)
  have "parser_law (ge_parse (demo_env demo_one demo_two))" by (simp add: demo_parser_law)
  from rejected_reload_changes_nothing [OF g this r] r show ?thesis by blast
qed

text \<open>
  C24: a reload that returns no error loaded a registry whose fingerprint is the published one.
  Either that was the old fingerprint and nothing changed, or the new snapshot serves exactly the
  loaded models, every backend known under a member's key is reused by its route, and every new
  backend answered its health probe with 200 before it was published.
\<close>
theorem reload_publishes:
  assumes "reachable env lib g" and "parser_law (ge_parse env)"
    and "ReloadRegistry env file replies g = Some (None, g')"
  shows "\<exists>ms. loadModels (ge_parse env) (ge_decode env) file = Inr ms \<and>
    membershipFingerprint (ge_sha256 env) (ge_parse env) ms = Some (rs_fingerprint (gw_routing g')) \<and>
    (if rs_fingerprint (gw_routing g') = rs_fingerprint (gw_routing g) then g' = g
     else rs_models (gw_routing g') = ms \<and> reuses (ge_parse env) g (gw_routing g') \<and>
       list_all (\<lambda>b. replies b = Reply 200) [length (gw_heap g)..<length (gw_heap g')])"
  using ReloadRegistry_ok [OF reachable_gw_ok [OF assms(1,2)] assms(2), of "file" replies] assms(3)
  by (fastforce simp: probe_healthy_def)

theorem reload_publishes_witness:
  "\<exists>g (g' :: gateway). reachable (demo_env demo_one demo_two) demo_ring g \<and> rs_models (gw_routing g') = demo_two \<and>
    reuses demo_parse g (gw_routing g')"
proof -
  obtain g g' where g: "reachable (demo_env demo_one demo_two) demo_ring g"
      "ReloadRegistry (demo_env demo_one demo_two) (Some ''x'') (\<lambda>_. Reply 200) g = Some (None, g')"
      "rs_fingerprint (gw_routing g') \<noteq> rs_fingerprint (gw_routing g)"
    and load: "loadModels (ge_parse (demo_env demo_one demo_two)) (ge_decode (demo_env demo_one demo_two)) (Some ''x'') = Inr demo_two"
    by (rule demo_reload)
  have "parser_law (ge_parse (demo_env demo_one demo_two))" by (simp add: demo_parser_law)
  from reload_publishes [OF g(1) this g(2)] g(3) load
  have "rs_models (gw_routing g') = demo_two \<and> reuses (ge_parse (demo_env demo_one demo_two)) g (gw_routing g')"
    by (auto simp del: demo_env_simps)
  with g(1) show ?thesis by (intro exI [of _ g] exI [of _ g']) simp
qed

text \<open>
  after a reload that published new membership the table keeps a replica of the new registry
  exactly when its raw URL, without a trailing slash, is written as \<open>url.Parse\<close> prints it. A
  replica registered as \<open>HTTP://a\<close> is serving but forgotten: the next reload that changes
  anything will take it for a new backend, with a new pool and a probe that can reject the
  reload, although the comment of \<open>buildRouting\<close> promises to reuse it.
\<close>
theorem reload_table:
  assumes "reachable env lib g" and "parser_law (ge_parse env)"
    and "ReloadRegistry env file replies g = Some (None, g')"
    and "rs_fingerprint (gw_routing g') \<noteq> rs_fingerprint (gw_routing g)"
    and "m \<in> set (rs_models (gw_routing g'))"
  shows "map_of (gw_backends g') (member_text (ge_parse env) m) \<noteq> None \<longleftrightarrow>
    member_text (ge_parse env) m \<in> active_key ` set (rs_models (gw_routing g'))"
proof -
  have "dom (map_of (gw_backends g')) = (dom (map_of (gw_backends g)) \<union>
      member_text (ge_parse env) ` set (rs_models (gw_routing g'))) \<inter> active_key ` set (rs_models (gw_routing g'))"
    using ReloadRegistry_ok [OF reachable_gw_ok [OF assms(1,2)] assms(2), of "file" replies] assms(3,4)
    by auto
  then have "member_text (ge_parse env) m \<in> dom (map_of (gw_backends g')) \<longleftrightarrow>
      member_text (ge_parse env) m \<in> active_key ` set (rs_models (gw_routing g'))"
    using assms(5) by blast
  then show ?thesis by (simp add: domIff)
qed

theorem reload_table_witness:
  "\<exists>(g' :: gateway) r. map_of (rs_proxies (gw_routing g')) ''q'' = Some r \<and>
    (\<exists>b \<in> set (mr_backends r). rb_origin (gw_heap g' ! b) = ''http://a'') \<and>
    map_of (gw_backends g') (member_text demo_parse (demo_model ''q'' ''HTTP://a'')) = None"
proof -
  let ?env = "demo_env demo_one demo_two" and ?m = "demo_model ''q'' ''HTTP://a''"
  obtain g g' where g: "reachable ?env demo_ring g"
      "ReloadRegistry ?env (Some ''x'') (\<lambda>_. Reply 200) g = Some (None, g')"
      "rs_fingerprint (gw_routing g') \<noteq> rs_fingerprint (gw_routing g)"
    and load: "loadModels (ge_parse ?env) (ge_decode ?env) (Some ''x'') = Inr demo_two"
    by (rule demo_reload)
  have law: "parser_law (ge_parse ?env)" by (simp add: demo_parser_law)
  have ms: "rs_models (gw_routing g') = demo_two"
    using ReloadRegistry_ok [OF reachable_gw_ok [OF g(1) law] law, of "Some ''x''" "\<lambda>_. Reply 200"] g load by auto
  have ok: "gw_ok ?env g'" using reachable_gw_ok [OF reachable.reload [OF g(1,2)] law] .
  have m: "?m \<in> set (rs_models (gw_routing g'))" by (simp add: ms demo_two_def)
  from reload_table [OF g(1) law g(2,3) m] have "map_of (gw_backends g') (member_text demo_parse ?m) = None"
    using demo_active by (simp add: ms)
  moreover have "''q'' \<in> fst ` set (rs_proxies (gw_routing g'))"
    using ok by (simp add: gw_ok_def snapshot_ok_def ms demo_two_def demo_model_def)
  then obtain r where r: "map_of (rs_proxies (gw_routing g')) ''q'' = Some r"
    by (metis map_of_eq_None_iff option.exhaust)
  moreover have "map (\<lambda>b. (rb_model (gw_heap g' ! b), rb_origin (gw_heap g' ! b))) (mr_backends r) =
      map (dest demo_parse) demo_two"
    using ok r by (simp add: gw_ok_def snapshot_ok_def ms demo_two_def demo_model_def)
  then have "(''q'', ''http://a'') \<in> (\<lambda>b. (rb_model (gw_heap g' ! b), rb_origin (gw_heap g' ! b))) ` set (mr_backends r)"
    by (simp add: demo_two_dests flip: set_map)
  ultimately show ?thesis by (intro exI [of _ g'] exI [of _ r]) auto
qed

text \<open>
  The parallel probes of a round commute: in a reachable server, any order in which the probes
  of the published backends take effect, complete or not, gives the same server.
\<close>
theorem probe_order_irrelevant:
  assumes "reachable env lib g" and "parser_law (ge_parse env)"
    and "mset bs = mset (snapshot_backends (gw_routing g))"
  shows "probe_all replies bs g = probe_all replies (snapshot_backends (gw_routing g)) g"
  using probe_all_perm [OF assms(3) [symmetric]] gw_ok_labels [OF reachable_gw_ok [OF assms(1,2)]] by simp

theorem probe_order_irrelevant_witness:
  "\<exists>g. probe_all (\<lambda>_. Reply 503) (rev (snapshot_backends (gw_routing g))) g =
    probe_all (\<lambda>_. Reply 503) (snapshot_backends (gw_routing g)) g"
proof -
  obtain g where "reachable (demo_env demo_two demo_one) demo_ring g"
    using demo_reachable [OF demo_registries_valid(2)] by metis
  then have "probe_all (\<lambda>_. Reply 503) (rev (snapshot_backends (gw_routing g))) g =
      probe_all (\<lambda>_. Reply 503) (snapshot_backends (gw_routing g)) g"
    by (rule probe_order_irrelevant) (simp_all add: demo_parser_law)
  then show ?thesis ..
qed

end
