(* ===== verification/Completions.thy ===== *)
theory Completions
  imports Proxy Accounts Membership
begin

text \<open>
  The completion endpoint (\<open>serveCompletions\<close> and \<open>handleCompletions\<close> of \<open>gateway/proxy.go\<close>):
  the concurrency limit, the request body and its routing metadata, the usage record that is
  begun before the backend is called and finished in the deferred function, and the route. The
  JSON decoder is a parameter; what the client, the backend and the connection do is the request's
  environment (\<open>completion\<close>).
\<close>

subsection \<open>State and environment\<close>

record 'd server =
  sv_gateway :: gateway
  sv_inflight :: nat
  sv_store :: 'd

text \<open>
  \<open>sx_fields\<close> is \<open>json.Unmarshal\<close> into the map of raw fields, \<open>sx_string\<close> the one of a raw field
  into a string; \<open>sx_limit\<close> is the capacity of \<open>inflightLimit\<close>, \<open>None\<close> without the channel.
\<close>

record 'd serverEnv =
  sx_store :: "'d accountStore option"
  sx_limit :: "nat option"
  sx_lib :: ringLib
  sx_fields :: "bytes \<Rightarrow> (bytes \<Rightarrow> bytes option) option"
  sx_string :: "bytes \<Rightarrow> bytes option"
  sx_usage :: usage_decoder

text \<open>
  \<open>cq_body\<close>: the bytes the client sends and whether reading then fails; \<open>cq_health\<close>: what reading
  a backend's flag returns; \<open>cq_cancelled\<close>: whether the client is gone when the round trip has
  failed, and at the end.
\<close>

record completion =
  cq_header :: header
  cq_body :: "bytes \<times> bool"
  cq_health :: "nat \<Rightarrow> bref \<Rightarrow> bool"
  cq_exchange :: "bref \<Rightarrow> exchange"
  cq_cancelled :: "bool \<times> bool"
  cq_writeFailed :: bool

subsection \<open>Admission\<close>

definition admit :: "'d serverEnv \<Rightarrow> 'd server \<Rightarrow> 'd server option" where
  "admit env sv =
     (case sx_limit env of
        None \<Rightarrow> Some sv
      | Some n \<Rightarrow> if sv_inflight sv < n then Some (sv\<lparr>sv_inflight := sv_inflight sv + 1\<rparr>) else None)"

definition release :: "'d serverEnv \<Rightarrow> 'd server \<Rightarrow> 'd server" where
  "release env sv =
     (case sx_limit env of None \<Rightarrow> sv | Some n \<Rightarrow> sv\<lparr>sv_inflight := sv_inflight sv - 1\<rparr>)"

definition refuse_limit :: "'b reply \<Rightarrow> 'b reply" where
  "refuse_limit w =
     writeAPIError (set_reply_header ''Retry-After'' ''1'' w) 429 ''gateway is at its concurrency limit''"

subsection \<open>The request\<close>

definition maxRequestBytes :: nat where
  "maxRequestBytes = 2 ^ 20"

text \<open>\<open>io.ReadAll\<close> over \<open>http.MaxBytesReader\<close>: the status and message of an error, or the body.\<close>

definition read_request :: "bytes \<times> bool \<Rightarrow> (int \<times> bytes) + bytes" where
  "read_request b =
     (case b of (data, failed) \<Rightarrow>
        if length data > maxRequestBytes then Inl (413, ''request body exceeds 1 MiB'')
        else if failed then Inl (400, ''could not read request body'')
        else Inr data)"

text \<open>The model a request names, and whether it asks for a stream.\<close>

definition request_model :: "'d serverEnv \<Rightarrow> bytes \<Rightarrow> (bytes \<times> bool) option" where
  "request_model env body =
     (case sx_fields env body of
        None \<Rightarrow> None
      | Some fs \<Rightarrow>
          (case fs ''model'' of
             None \<Rightarrow> None
           | Some raw \<Rightarrow>
               (case sx_string env raw of
                  None \<Rightarrow> None
                | Some model \<Rightarrow>
                    if model = [] then None else Some (model, fs ''stream'' = Some ''true''))))"

definition find_route ::
    "'d serverEnv \<Rightarrow> bytes \<times> bool \<Rightarrow> gateway \<Rightarrow> (int \<times> bytes) + bytes \<times> bool \<times> modelRoute" where
  "find_route env b g =
     (case read_request b of
        Inl err \<Rightarrow> Inl err
      | Inr body \<Rightarrow>
          (case request_model env body of
             None \<Rightarrow> Inl (400, ''request must be a JSON object with a nonempty model string'')
           | Some (model, streaming) \<Rightarrow>
               (case map_of (rs_proxies (gw_routing g)) model of
                  None \<Rightarrow> Inl (404, ''unknown model'')
                | Some route \<Rightarrow> Inr (model, streaming, route))))"

subsection \<open>The backend call\<close>

text \<open>
  \<open>observedTransport.RoundTrip\<close>: the time to the response headers is observed for a request inside
  \<open>wrap\<close> whose round trip succeeded. The proxy's transport is always the observed one.
\<close>

definition RoundTrip :: "requestObservation option \<Rightarrow> exchange \<Rightarrow> metrics \<Rightarrow> metrics" where
  "RoundTrip state ex mx =
     (case (state, ex) of
        (Some st, Answer status ct reads) \<Rightarrow>
          mx\<lparr>mx_headers := add_label (mx_headers mx) (ob_model st, ob_backend st) 1\<rparr>
      | _ \<Rightarrow> mx)"

lemma RoundTrip_frame [simp]:
  "mx_requests (RoundTrip state ex mx) = mx_requests mx" "mx_duration (RoundTrip state ex mx) = mx_duration mx"
  "mx_inflight (RoundTrip state ex mx) = mx_inflight mx" "mx_routed (RoundTrip state ex mx) = mx_routed mx"
  "mx_meteringErrors (RoundTrip state ex mx) = mx_meteringErrors mx" "mx_metered (RoundTrip state ex mx) = mx_metered mx"
  by (simp_all add: RoundTrip_def split: option.split exchange.split)

definition backend_call ::
    "completion \<Rightarrow> bref \<Rightarrow> requestObservation option \<Rightarrow> metrics \<Rightarrow> bytes reply \<Rightarrow>
     requestObservation option \<times> metrics \<times> bytes reply" where
  "backend_call q b state mx w =
     (case proxy_ServeHTTP (cq_exchange q b) (fst (cq_cancelled q)) state w of
        (state', w') \<Rightarrow> (state', RoundTrip state (cq_exchange q b) mx, w'))"

definition set_metrics :: "metrics \<Rightarrow> 'd server \<Rightarrow> 'd server" where
  "set_metrics mx sv = sv\<lparr>sv_gateway := (sv_gateway sv)\<lparr>gw_metrics := mx\<rparr>\<rparr>"

definition call_route ::
    "'d serverEnv \<Rightarrow> completion \<Rightarrow> bytes \<Rightarrow> bytes \<Rightarrow> modelRoute \<Rightarrow> requestObservation option \<Rightarrow>
     'd server \<Rightarrow> bytes reply \<Rightarrow> (requestObservation option \<times> bytes reply \<times> 'd server) option" where
  "call_route env q account model route state sv w =
     (let g = sv_gateway sv in
      case route_ServeHTTP (sx_lib env) (cq_health q) (gw_heap g) (backend_call q) route (cq_header q)
             account state (gw_metrics g) w of
        (None, route') \<Rightarrow> None
      | (Some (state', mx, w'), route') \<Rightarrow>
          Some (state', w', set_metrics mx (sv\<lparr>sv_gateway := set_route model route' g\<rparr>)))"

subsection \<open>Metering\<close>

definition count_metering_error :: "bytes \<Rightarrow> 'd server \<Rightarrow> 'd server" where
  "count_metering_error op sv =
     (let mx = gw_metrics (sv_gateway sv) in
      set_metrics (mx\<lparr>mx_meteringErrors := add_label (mx_meteringErrors mx) op 1\<rparr>) sv)"

definition count_metered :: "bytes \<Rightarrow> 'd server \<Rightarrow> 'd server" where
  "count_metered outcome sv =
     (let mx = gw_metrics (sv_gateway sv) in
      set_metrics (mx\<lparr>mx_metered := add_label (mx_metered mx) outcome 1\<rparr>) sv)"

definition usage_start :: "KeyIdentity \<Rightarrow> bytes \<Rightarrow> bytes \<Rightarrow> UsageStart" where
  "usage_start \<iota> requestID model =
     \<lparr>us_RequestID = requestID, us_AccountID = ki_AccountID \<iota>, us_KeyID = ki_KeyID \<iota>, us_Model = model\<rparr>"

text \<open>\<open>metered\<close> is the capture the request's state points to.\<close>

definition usage_finish ::
    "usage_decoder \<Rightarrow> bool \<Rightarrow> requestObservation \<Rightarrow> usageCapture \<Rightarrow> UsageFinish" where
  "usage_finish decode incomplete st metered =
     (case result decode metered incomplete of (status, outcome, prompt, completion) \<Rightarrow>
        \<lparr>uf_RequestID = ob_id st, uf_Backend = ob_backend st, uf_Status = status, uf_Outcome = outcome,
         uf_PromptTokens = prompt, uf_CompletionTokens = completion\<rparr>)"

text \<open>The deferred function.\<close>

definition finish_metering ::
    "'d serverEnv \<Rightarrow> 'd accountStore \<Rightarrow> completion \<Rightarrow> requestObservation \<Rightarrow> 'd server \<Rightarrow> 'd server" where
  "finish_metering env store q st sv =
     (case ob_usage st of
        None \<Rightarrow> sv
      | Some metered \<Rightarrow>
          let finish = usage_finish (sx_usage env) (snd (cq_cancelled q) \<or> cq_writeFailed q) st metered in
          (case as_FinishUsage store finish (sv_store sv) of
             (Inl e, d) \<Rightarrow> count_metering_error ''finish'' (sv\<lparr>sv_store := d\<rparr>)
           | (Inr _, d) \<Rightarrow> count_metered (uf_Outcome finish) (sv\<lparr>sv_store := d\<rparr>)))"

text \<open>A request with an account: the record is begun before the backend is called.\<close>

definition serve_metered ::
    "'d serverEnv \<Rightarrow> 'd accountStore \<Rightarrow> KeyIdentity \<Rightarrow> completion \<Rightarrow> bytes \<Rightarrow> bool \<Rightarrow> modelRoute \<Rightarrow>
     requestObservation option \<Rightarrow> 'd server \<Rightarrow> bytes reply \<Rightarrow>
     (requestObservation option \<times> bytes reply \<times> 'd server) option" where
  "serve_metered env store \<iota> q model streaming route state sv w =
     (case state of
        None \<Rightarrow> None
      | Some st \<Rightarrow>
          (case as_BeginUsage store (usage_start \<iota> (ob_id st) model) (sv_store sv) of
             (Inl e, d) \<Rightarrow>
               Some (Some st, writeAPIError w 503 ''usage store unavailable'',
                     count_metering_error ''begin'' (sv\<lparr>sv_store := d\<rparr>))
           | (Inr _, d) \<Rightarrow>
               (case call_route env q (ki_AccountID \<iota>) model route
                       (Some (st\<lparr>ob_usage := Some (new_capture streaming)\<rparr>)) (sv\<lparr>sv_store := d\<rparr>) w of
                  None \<Rightarrow> None
                | Some (None, w', sv') \<Rightarrow> Some (None, w', sv')
                | Some (Some st', w', sv') \<Rightarrow> Some (Some st', w', finish_metering env store q st' sv'))))"

definition serve_admitted ::
    "'d serverEnv \<Rightarrow> KeyIdentity \<Rightarrow> completion \<Rightarrow> requestObservation option \<Rightarrow> 'd server \<Rightarrow> bytes reply \<Rightarrow>
     (requestObservation option \<times> bytes reply \<times> 'd server) option" where
  "serve_admitted env \<iota> q state sv w =
     (case find_route env (cq_body q) (sv_gateway sv) of
        Inl (status, message) \<Rightarrow> Some (state, writeAPIError w status message, sv)
      | Inr (model, streaming, route) \<Rightarrow>
          (case sx_store env of
             None \<Rightarrow> call_route env q [] model route state sv w
           | Some store \<Rightarrow> serve_metered env store \<iota> q model streaming route state sv w))"

definition serveCompletions ::
    "'d serverEnv \<Rightarrow> KeyIdentity \<Rightarrow> completion \<Rightarrow> requestObservation option \<Rightarrow> 'd server \<Rightarrow> bytes reply \<Rightarrow>
     (requestObservation option \<times> bytes reply \<times> 'd server) option" where
  "serveCompletions env \<iota> q state sv w =
     (case admit env sv of
        None \<Rightarrow> Some (state, refuse_limit w, sv)
      | Some sv1 \<Rightarrow>
          map_option (\<lambda>(state', w', sv'). (state', w', release env sv')) (serve_admitted env \<iota> q state sv1 w))"

definition handleCompletions ::
    "'d serverEnv \<Rightarrow> completion \<Rightarrow> requestObservation option \<Rightarrow> 'd server \<Rightarrow> bytes reply \<Rightarrow>
     (requestObservation option \<times> bytes reply \<times> 'd server) option" where
  "handleCompletions env q state sv w =
     (case authenticate (sx_store env) (sv_store sv) (cq_header q) (gw_metrics (sv_gateway sv)) w of
        (None, mx, w') \<Rightarrow> Some (state, w', set_metrics mx sv)
      | (Some \<iota>, mx, w') \<Rightarrow> serveCompletions env \<iota> q state (set_metrics mx sv) w')"

end
