(* ===== verification/Account_Invariant.thy ===== *)
theory Account_Invariant
  imports Account_Store
begin

text \<open>
  The integrity of the account database: primary keys and unique columns, foreign keys, the CHECK
  constraints and the life cycle of a usage event, as one invariant of the tables, preserved by
  every statement.
\<close>

subsection \<open>The invariant\<close>

definition users_ok :: "database \<Rightarrow> bool" where
  "users_ok db \<longleftrightarrow>
     distinct (map usr_ID (db_users db)) \<and> distinct (map usr_Email (db_users db)) \<and>
     distinct (map fst (db_passwords db)) \<and> fst ` set (db_passwords db) \<subseteq> usr_ID ` set (db_users db) \<and>
     distinct (map acc_ID (db_accounts db)) \<and>
     distinct (map (\<lambda>m. (mem_AccountID m, mem_UserID m)) (db_members db)) \<and>
     mem_AccountID ` set (db_members db) \<subseteq> acc_ID ` set (db_accounts db) \<and>
     mem_UserID ` set (db_members db) \<subseteq> usr_ID ` set (db_users db)"

definition keys_ok :: "database \<Rightarrow> bool" where
  "keys_ok db \<longleftrightarrow>
     distinct (map key_ID (db_keys db)) \<and>
     key_AccountID ` set (db_keys db) \<subseteq> acc_ID ` set (db_accounts db) \<and>
     key_CreatedByUserID ` set (db_keys db) \<subseteq> usr_ID ` set (db_users db)"

definition prices_ok :: "database \<Rightarrow> bool" where
  "prices_ok db \<longleftrightarrow>
     distinct (map price_ID (db_prices db)) \<and>
     list_all (\<lambda>p. 0 \<le> price_InputRateMicroPerMillion p \<and> 0 \<le> price_OutputRateMicroPerMillion p)
       (db_prices db)"

text \<open>A pending event has not finished, carries no counts and is not rolled up.\<close>

definition event_ok :: "UsageEvent \<Rightarrow> bool" where
  "event_ok e \<longleftrightarrow>
     event_check e \<and>
     (ev_State e = ''pending'' \<longleftrightarrow> ev_FinishedAt e = None) \<and>
     (ev_State e = ''pending'' \<longrightarrow>
        ev_PromptTokens e = None \<and> ev_CompletionTokens e = None \<and>
        ev_EstimatedCostMicro e = None \<and> ev_RolledUpAt e = None) \<and>
     (ev_State e \<noteq> ''complete'' \<longrightarrow> ev_EstimatedCostMicro e = None)"

definition events_ok :: "database \<Rightarrow> bool" where
  "events_ok db \<longleftrightarrow>
     distinct (map ev_RequestID (db_events db)) \<and> list_all event_ok (db_events db) \<and>
     ev_AccountID ` set (db_events db) \<subseteq> acc_ID ` set (db_accounts db) \<and>
     ev_KeyID ` set (db_events db) \<subseteq> key_ID ` set (db_keys db) \<and>
     ev_PriceID ` set (db_events db) - {None} \<subseteq> Some ` price_ID ` set (db_prices db)"

definition sessions_ok :: "database \<Rightarrow> bool" where
  "sessions_ok db \<longleftrightarrow>
     distinct (map ses_TokenHash (db_sessions db)) \<and>
     ses_UserID ` set (db_sessions db) \<subseteq> usr_ID ` set (db_users db) \<and>
     ses_AccountID ` set (db_sessions db) \<subseteq> acc_ID ` set (db_accounts db)"

definition attempts_ok :: "database \<Rightarrow> bool" where
  "attempts_ok db \<longleftrightarrow>
     distinct (map la_Email (db_attempts db)) \<and> list_all (\<lambda>a. 1 \<le> la_Attempts a) (db_attempts db)"

definition daily_key :: "UsageDaily \<Rightarrow> date \<times> bytes \<times> bytes \<times> bytes" where
  "daily_key d = (day_Day d, day_AccountID d, day_KeyID d, day_Model d)"

definition daily_ok :: "database \<Rightarrow> bool" where
  "daily_ok db \<longleftrightarrow>
     distinct (map daily_key (db_daily db)) \<and>
     day_AccountID ` set (db_daily db) \<subseteq> acc_ID ` set (db_accounts db) \<and>
     day_KeyID ` set (db_daily db) \<subseteq> key_ID ` set (db_keys db)"

definition db_ok :: "database \<Rightarrow> bool" where
  "db_ok db \<longleftrightarrow> users_ok db \<and> keys_ok db \<and> prices_ok db \<and> events_ok db \<and> sessions_ok db \<and>
     attempts_ok db \<and> daily_ok db"

lemmas db_ok_defs = db_ok_def users_ok_def keys_ok_def prices_ok_def events_ok_def sessions_ok_def
  attempts_ok_def daily_ok_def

lemma empty_db_ok: "db_ok empty_db"
  by (simp add: db_ok_defs empty_db_def)

subsection \<open>Statements\<close>

lemma update_rows_map:
  assumes "update_rows P f rs = Inr (n, rs')"
  shows "rs' = map (\<lambda>r. if P r then projr (f r) else r) rs"
    and "list_all (\<lambda>r. \<not> P r \<or> \<not> isl (f r)) rs" and "n = length (filter P rs)"
  using assms by (induction rs arbitrary: n rs') (auto split: sum.splits if_splits)

text \<open>When an insertion succeeds, and what it does.\<close>

lemma inserts:
  "CreateUser now i email db = Inr db' \<longleftrightarrow>
     text_ok i \<and> text_ok email \<and> i \<notin> usr_ID ` set (db_users db) \<and> email \<notin> usr_Email ` set (db_users db) \<and>
     db' = db\<lparr>db_users := db_users db @ [\<lparr>usr_ID = i, usr_Email = email, usr_CreatedAt = now\<rparr>]\<rparr>"
  "CreateAccount now i name db = Inr db' \<longleftrightarrow>
     text_ok i \<and> text_ok name \<and> i \<notin> acc_ID ` set (db_accounts db) \<and>
     db' = db\<lparr>db_accounts := db_accounts db @ [\<lparr>acc_ID = i, acc_Name = name, acc_CreatedAt = now\<rparr>]\<rparr>"
  "AddAccountOwner a u db = Inr db' \<longleftrightarrow>
     text_ok a \<and> text_ok u \<and> (a, u) \<notin> (\<lambda>m. (mem_AccountID m, mem_UserID m)) ` set (db_members db) \<and>
     a \<in> acc_ID ` set (db_accounts db) \<and> u \<in> usr_ID ` set (db_users db) \<and>
     db' = db\<lparr>db_members := db_members db @ [\<lparr>mem_AccountID = a, mem_UserID = u, mem_Role = ''owner''\<rparr>]\<rparr>"
  "CreateAPIKey now i a u name h db = Inr db' \<longleftrightarrow>
     text_ok i \<and> text_ok a \<and> text_ok u \<and> text_ok name \<and> i \<notin> key_ID ` set (db_keys db) \<and>
     a \<in> acc_ID ` set (db_accounts db) \<and> u \<in> usr_ID ` set (db_users db) \<and>
     db' = db\<lparr>db_keys := db_keys db @
        [\<lparr>key_ID = i, key_AccountID = a, key_CreatedByUserID = u, key_Name = name,
          key_TokenHash = h, key_CreatedAt = now, key_RevokedAt = None\<rparr>]\<rparr>"
  "insert_password u h db = Inr db' \<longleftrightarrow>
     text_ok u \<and> text_ok h \<and> u \<notin> fst ` set (db_passwords db) \<and> u \<in> usr_ID ` set (db_users db) \<and>
     db' = db\<lparr>db_passwords := db_passwords db @ [(u, h)]\<rparr>"
  "insert_session now h u a db = Inr db' \<longleftrightarrow>
     text_ok u \<and> text_ok a \<and> h \<notin> ses_TokenHash ` set (db_sessions db) \<and>
     u \<in> usr_ID ` set (db_users db) \<and> a \<in> acc_ID ` set (db_accounts db) \<and>
     db' = db\<lparr>db_sessions := db_sessions db @
        [\<lparr>ses_TokenHash = h, ses_UserID = u, ses_AccountID = a, ses_ExpiresAt = now + seven_days\<rparr>]\<rparr>"
  "SetModelPrice now i m x y db = Inr db' \<longleftrightarrow>
     text_ok i \<and> text_ok m \<and> 0 \<le> x \<and> 0 \<le> y \<and> i \<notin> price_ID ` set (db_prices db) \<and>
     db' = db\<lparr>db_prices := db_prices db @
        [\<lparr>price_ID = i, price_Model = m, price_InputRateMicroPerMillion = x,
          price_OutputRateMicroPerMillion = y, price_CreatedAt = now\<rparr>]\<rparr>"
  by (auto simp: CreateUser_def CreateAccount_def AddAccountOwner_def CreateAPIKey_def
      insert_password_def insert_session_def SetModelPrice_def)

lemmas insert_simps = inserts db_ok_defs subset_insertI2

lemma CreateUser_ok: "db_ok db \<Longrightarrow> CreateUser now i email db = Inr db' \<Longrightarrow> db_ok db'"
  by (simp add: insert_simps)

lemma CreateAccount_ok: "db_ok db \<Longrightarrow> CreateAccount now i name db = Inr db' \<Longrightarrow> db_ok db'"
  by (simp add: insert_simps)

lemma AddAccountOwner_ok: "db_ok db \<Longrightarrow> AddAccountOwner a u db = Inr db' \<Longrightarrow> db_ok db'"
  by (simp add: insert_simps)

lemma CreateAPIKey_ok: "db_ok db \<Longrightarrow> CreateAPIKey now i a u n h db = Inr db' \<Longrightarrow> db_ok db'"
  by (simp add: insert_simps)

lemma insert_password_ok: "db_ok db \<Longrightarrow> insert_password u h db = Inr db' \<Longrightarrow> db_ok db'"
  by (simp add: insert_simps)

lemma insert_session_ok: "db_ok db \<Longrightarrow> insert_session now h u a db = Inr db' \<Longrightarrow> db_ok db'"
  by (simp add: insert_simps)

lemma SetModelPrice_ok: "db_ok db \<Longrightarrow> SetModelPrice now i m x y db = Inr db' \<Longrightarrow> db_ok db'"
  by (simp add: insert_simps subset_insertI2 insert_commute)

lemma RevokeAPIKey_keys:
  assumes "RevokeAPIKey now i db = Inr (n, db')"
  shows "db' = db\<lparr>db_keys := map (\<lambda>k. if key_ID k = i \<and> key_RevokedAt k = None
      then k\<lparr>key_RevokedAt := Some now\<rparr> else k) (db_keys db)\<rparr>"
    and "n = length (filter (\<lambda>k. key_ID k = i \<and> key_RevokedAt k = None) (db_keys db))"
proof -
  from assms obtain ks where u: "update_rows (\<lambda>k. key_ID k = i \<and> key_RevokedAt k = None)
      (\<lambda>k. Inr (k\<lparr>key_RevokedAt := Some now\<rparr>)) (db_keys db) = Inr (n, ks)" and "db' = db\<lparr>db_keys := ks\<rparr>"
    by (auto simp: RevokeAPIKey_def split: if_splits sum.splits)
  with update_rows_map(1,3) [OF u] show
    "db' = db\<lparr>db_keys := map (\<lambda>k. if key_ID k = i \<and> key_RevokedAt k = None
      then k\<lparr>key_RevokedAt := Some now\<rparr> else k) (db_keys db)\<rparr>"
    "n = length (filter (\<lambda>k. key_ID k = i \<and> key_RevokedAt k = None) (db_keys db))"
    by (simp_all cong: if_cong)
qed

text \<open>Changing rows without changing the columns the constraints speak about.\<close>

lemma map_rows:
  assumes "\<And>r. c (f r) = c r"
  shows "c \<circ> f = c" and "c ` f ` S = c ` S"
  using assms by (simp_all add: fun_eq_iff image_image)

lemma db_ok_keys_map:
  assumes "db_ok db" and "\<And>k. key_ID (f k) = key_ID k" and "\<And>k. key_AccountID (f k) = key_AccountID k"
    and "\<And>k. key_CreatedByUserID (f k) = key_CreatedByUserID k"
  shows "db_ok (db\<lparr>db_keys := map f (db_keys db)\<rparr>)"
  using assms(1) map_rows [of key_ID f, OF assms(2)] map_rows [of key_AccountID f, OF assms(3)]
    map_rows [of key_CreatedByUserID f, OF assms(4)]
  by (simp add: db_ok_defs)

lemma RevokeAPIKey_ok:
  assumes "db_ok db" and "RevokeAPIKey now i db = Inr (n, db')"
  shows "db_ok db'"
  unfolding RevokeAPIKey_keys(1) [OF assms(2)] using assms(1) by (rule db_ok_keys_map) simp_all

lemma latest_price_mem: "latest_price m ps = Some p \<Longrightarrow> p \<in> set ps \<and> price_Model p = m"
  by (induction ps arbitrary: p) (auto split: if_splits option.splits)

text \<open>The row that no other row of its model is after, in the order of the sub-select, is its result.\<close>

lemma latest_price_is:
  assumes "q \<in> set ps" and "price_Model q = n"
    and "\<And>r. r \<in> set ps \<Longrightarrow> price_Model r = n \<Longrightarrow> r = q \<or> price_CreatedAt r < price_CreatedAt q \<or>
      price_CreatedAt r = price_CreatedAt q \<and> price_ID r < price_ID q"
  shows "latest_price n ps = Some q"
  using assms
proof (induction ps)
  case (Cons p ps)
  show ?case
  proof (cases "latest_price n ps")
    case None
    then have "list_all (\<lambda>r. price_Model r \<noteq> n) ps"
      by (induction ps) (auto split: if_splits option.splits)
    with Cons.prems None show ?thesis by (auto simp: list_all_iff)
  next
    case (Some r)
    then have r: "r \<in> set ps" "price_Model r = n" using latest_price_mem [OF Some] by auto
    show ?thesis
    proof (cases "q \<in> set ps")
      case True
      with Cons have "latest_price n ps = Some q" by auto
      with Cons.prems(3) [of p] Cons.prems(2) show ?thesis by auto
    next
      case False
      with Cons.prems(1) have "p = q" by simp
      moreover have "r \<noteq> q" using False r(1) by blast
      ultimately show ?thesis using Some r Cons.prems(2) Cons.prems(3) [of r] by auto
    qed
  qed
qed simp

lemma begins:
  "BeginUsage now r a k m db = Inr db' \<longleftrightarrow>
     text_ok r \<and> text_ok a \<and> text_ok k \<and> text_ok m \<and> r \<notin> ev_RequestID ` set (db_events db) \<and>
     a \<in> acc_ID ` set (db_accounts db) \<and> k \<in> key_ID ` set (db_keys db) \<and>
     db' = db\<lparr>db_events := db_events db @
        [\<lparr>ev_RequestID = r, ev_AccountID = a, ev_KeyID = k, ev_Model = m,
          ev_Backend = [], ev_PriceID = map_option price_ID (latest_price m (db_prices db)),
          ev_StartedAt = now, ev_FinishedAt = None, ev_State = ''pending'', ev_HttpStatus = None,
          ev_PromptTokens = None, ev_CompletionTokens = None, ev_EstimatedCostMicro = None,
          ev_RolledUpAt = None\<rparr>]\<rparr>"
  by (auto simp: BeginUsage_def)

lemma BeginUsage_ok:
  assumes "db_ok db" and "BeginUsage now r a k m db = Inr db'"
  shows "db_ok db'"
proof -
  have "latest_price m (db_prices db) = Some q \<Longrightarrow> Some (price_ID q) \<in> Some ` price_ID ` set (db_prices db)" for q
    using latest_price_mem [of m "db_prices db" q] by blast
  with assms show ?thesis
    by (cases "latest_price m (db_prices db)")
      (simp_all add: begins db_ok_defs event_ok_def event_check_def event_states_def insert_Diff_if)
qed

text \<open>The row an event becomes when it finishes, and when it may.\<close>

definition finished_row ::
    "ModelPrice list \<Rightarrow> time \<Rightarrow> bytes \<Rightarrow> int option \<Rightarrow> bytes \<Rightarrow> int option \<Rightarrow> int option \<Rightarrow> UsageEvent \<Rightarrow> UsageEvent" where
  "finished_row prices now backend httpStatus state prompt completion e =
     e\<lparr>ev_Backend := backend, ev_HttpStatus := httpStatus, ev_State := state,
       ev_PromptTokens := prompt, ev_CompletionTokens := completion, ev_FinishedAt := Some now,
       ev_EstimatedCostMicro := event_cost prices (ev_PriceID e) state prompt completion\<rparr>"

lemma finished_row_simps [simp]:
  "ev_RequestID (finished_row ps now b h st p c e) = ev_RequestID e"
  "ev_AccountID (finished_row ps now b h st p c e) = ev_AccountID e"
  "ev_KeyID (finished_row ps now b h st p c e) = ev_KeyID e"
  "ev_Model (finished_row ps now b h st p c e) = ev_Model e"
  "ev_PriceID (finished_row ps now b h st p c e) = ev_PriceID e"
  "ev_State (finished_row ps now b h st p c e) = st"
  "ev_PromptTokens (finished_row ps now b h st p c e) = p"
  "ev_CompletionTokens (finished_row ps now b h st p c e) = c"
  "ev_FinishedAt (finished_row ps now b h st p c e) = Some now"
  "ev_RolledUpAt (finished_row ps now b h st p c e) = ev_RolledUpAt e"
  "ev_StartedAt (finished_row ps now b h st p c e) = ev_StartedAt e"
  "ev_EstimatedCostMicro (finished_row ps now b h st p c e) = event_cost ps (ev_PriceID e) st p c"
  by (simp_all add: finished_row_def)

lemma FinishUsage_events:
  assumes "FinishUsage now backend h state p c r db = Inr (n, db')"
  shows "db' = db\<lparr>db_events := map (\<lambda>e. if ev_RequestID e = r \<and> ev_State e = ''pending''
      then finished_row (db_prices db) now backend h state p c e else e) (db_events db)\<rparr>"
    and "n = length (filter (\<lambda>e. ev_RequestID e = r \<and> ev_State e = ''pending'') (db_events db))"
    and "list_all (\<lambda>e. \<not> (ev_RequestID e = r \<and> ev_State e = ''pending'') \<or>
      event_check (finished_row (db_prices db) now backend h state p c e)) (db_events db)"
proof -
  let ?P = "\<lambda>e. ev_RequestID e = r \<and> ev_State e = ''pending''"
  let ?row = "finished_row (db_prices db) now backend h state p c"
  let ?f = "\<lambda>e. if \<not> pred_option bigint_ok (event_cost (db_prices db) (ev_PriceID e) state p c)
    then Inl OutOfRange else if \<not> event_check (?row e) then Inl CheckViolation else Inr (?row e)"
  have "FinishUsage now backend h state p c r db =
      (if \<not> text_ok backend \<or> \<not> text_ok state \<or> \<not> text_ok r then Inl BadText
       else case update_rows ?P ?f (db_events db) of Inl e \<Rightarrow> Inl e
         | Inr (n, es) \<Rightarrow> Inr (n, db\<lparr>db_events := es\<rparr>))"
    by (simp add: FinishUsage_def finished_row_def Let_def cong: if_cong)
  with assms obtain es where u: "update_rows ?P ?f (db_events db) = Inr (n, es)" and db': "db' = db\<lparr>db_events := es\<rparr>"
    by (auto split: if_splits sum.splits)
  note m = update_rows_map [OF u]
  have "projr (?f e) = ?row e \<and> event_check (?row e)" if "e \<in> set (db_events db)" "?P e" for e
    using m(2) that by (auto simp: list_all_iff split: if_splits)
  then show "db' = db\<lparr>db_events := map (\<lambda>e. if ?P e then ?row e else e) (db_events db)\<rparr>"
    and "list_all (\<lambda>e. \<not> ?P e \<or> event_check (?row e)) (db_events db)"
    unfolding db' m(1) by (auto simp: list_all_iff)
  show "n = length (filter ?P (db_events db))" by (rule m(3))
qed

lemma events_ok_map:
  assumes "events_ok db" and "\<And>e. ev_RequestID (f e) = ev_RequestID e"
    and "\<And>e. ev_AccountID (f e) = ev_AccountID e" and "\<And>e. ev_KeyID (f e) = ev_KeyID e"
    and "\<And>e. ev_PriceID (f e) = ev_PriceID e"
    and "list_all event_ok (map f (db_events db))"
  shows "events_ok (db\<lparr>db_events := map f (db_events db)\<rparr>)"
  using assms(1,6) map_rows [of ev_RequestID f, OF assms(2)] map_rows [of ev_AccountID f, OF assms(3)]
    map_rows [of ev_KeyID f, OF assms(4)] map_rows [of ev_PriceID f, OF assms(5)]
  by (simp add: events_ok_def)

lemma db_ok_events:
  "db_ok db \<Longrightarrow> events_ok (db\<lparr>db_events := es\<rparr>) \<Longrightarrow> db_ok (db\<lparr>db_events := es\<rparr>)"
  by (simp add: db_ok_defs)

lemma if_intro: "(P \<Longrightarrow> Q x) \<Longrightarrow> (\<not> P \<Longrightarrow> Q y) \<Longrightarrow> Q (if P then x else y)"
  by simp

lemma finished_row_ok:
  "event_ok e \<Longrightarrow> ev_State e = ''pending'' \<Longrightarrow> state \<noteq> ''pending'' \<Longrightarrow>
     event_check (finished_row ps now b h state p c e) \<Longrightarrow> event_ok (finished_row ps now b h state p c e)"
  by (simp add: event_ok_def event_cost_def)

lemma FinishUsage_ok:
  assumes "db_ok db" and fin: "FinishUsage now backend h state p c r db = Inr (n, db')"
    and "state \<noteq> ''pending''"
  shows "db_ok db'"
proof -
  let ?P = "\<lambda>e. ev_RequestID e = r \<and> ev_State e = ''pending''"
  let ?row = "finished_row (db_prices db) now backend h state p c"
  have "event_ok (if ?P e then ?row e else e)" if e: "e \<in> set (db_events db)" for e
  proof -
    have "event_ok e" using assms(1) e by (simp add: db_ok_def events_ok_def list_all_iff)
    moreover have "?P e \<Longrightarrow> event_check (?row e)"
      using FinishUsage_events(3) [OF fin] e unfolding list_all_iff by blast
    ultimately show ?thesis
      using finished_row_ok [OF _ _ assms(3)] by - (rule if_intro [where Q = event_ok], blast+)
  qed
  then have "list_all event_ok (map (\<lambda>e. if ?P e then ?row e else e) (db_events db))"
    unfolding list_all_iff set_map by blast
  then show ?thesis
    unfolding FinishUsage_events(1) [OF fin] using assms(1)
    by (intro db_ok_events events_ok_map) (simp_all add: db_ok_def)
qed

lemma expired_row_ok:
  "event_ok e \<Longrightarrow> ev_State e = ''pending'' \<Longrightarrow>
     event_ok (e\<lparr>ev_State := ''incomplete'', ev_FinishedAt := Some now\<rparr>)"
  by (simp add: event_ok_def event_check_def event_states_def)

lemma ExpirePendingUsage_ok:
  assumes "db_ok db"
  shows "db_ok (ExpirePendingUsage now db)"
proof -
  let ?P = "\<lambda>e. ev_State e = ''pending'' \<and> ev_StartedAt e < now - seven_days"
  let ?row = "\<lambda>e. e\<lparr>ev_State := ''incomplete'', ev_FinishedAt := Some now\<rparr>"
  have "event_ok (if ?P e then ?row e else e)" if "e \<in> set (db_events db)" for e
  proof -
    have "event_ok e" using assms that by (simp add: db_ok_def events_ok_def list_all_iff)
    then show ?thesis
      using expired_row_ok by - (rule if_intro [where Q = event_ok], blast+)
  qed
  then have "list_all event_ok (map (\<lambda>e. if ?P e then ?row e else e) (db_events db))"
    unfolding list_all_iff set_map by blast
  then show ?thesis
    unfolding ExpirePendingUsage_def using assms
    by (intro db_ok_events events_ok_map) (simp_all add: db_ok_def)
qed

lemma count_attempt_ok:
  assumes "db_ok db" and "count_attempt now email db = Inr (n, db')"
  shows "db_ok db'"
proof (cases "find (\<lambda>a. la_Email a = email) (db_attempts db)")
  case None
  then have "email \<notin> la_Email ` set (db_attempts db)" by (auto simp: find_None_iff)
  with None assms show ?thesis
    by (auto simp: count_attempt_def db_ok_def attempts_ok_def split: if_splits)
      (simp_all add: db_ok_defs)
next
  case (Some a)
  let ?f = "\<lambda>b. if la_Email b = email then next_attempt now b else b"
  have "la_Email \<circ> ?f = la_Email" by (auto simp: fun_eq_iff next_attempt_def)
  moreover have "list_all (\<lambda>a. 1 \<le> la_Attempts a) (map ?f (db_attempts db))"
    using assms(1) by (auto simp: db_ok_def attempts_ok_def list_all_iff next_attempt_def)
  moreover have "db' = db\<lparr>db_attempts := map ?f (db_attempts db)\<rparr>"
    using assms(2) Some by (auto simp: count_attempt_def split: if_splits)
  ultimately show ?thesis using assms(1) by (simp add: db_ok_defs)
qed

lemma delete_attempts_ok: "db_ok db \<Longrightarrow> delete_attempts email db = Inr db' \<Longrightarrow> db_ok db'"
  by (auto simp: delete_attempts_def db_ok_def attempts_ok_def list_all_iff distinct_map_filter split: if_splits)
    (simp_all add: db_ok_defs)

lemma purge_sessions_ok: "db_ok db \<Longrightarrow> db_ok (db\<lparr>db_sessions := filter P (db_sessions db)\<rparr>)"
proof -
  have "f ` set (filter P xs) \<subseteq> S" if "f ` set xs \<subseteq> S"
    for f :: "PortalSessionRow \<Rightarrow> bytes" and xs S using that by auto
  then show "db_ok db \<Longrightarrow> db_ok (db\<lparr>db_sessions := filter P (db_sessions db)\<rparr>)"
    by (simp add: db_ok_defs distinct_map_filter del: set_filter)
qed

lemma purge_attempts_ok: "db_ok db \<Longrightarrow> db_ok (db\<lparr>db_attempts := filter P (db_attempts db)\<rparr>)"
  by (auto simp: db_ok_defs distinct_map_filter list_all_iff)

subsection \<open>Calls\<close>

lemma exec_ok:
  assumes "P db" and "\<And>x db'. stmt db = Inr (x, db') \<Longrightarrow> P db'"
  shows "P (snd (exec ft stmt db))"
  using assms by (auto simp: exec_def split: fault.split sum.split)

lemma exec_unit_ok:
  assumes "P db" and "\<And>db'. stmt db = Inr db' \<Longrightarrow> P db'"
  shows "P (snd (exec_unit ft stmt db))"
  unfolding exec_unit_def using assms by - (rule exec_ok, auto split: sum.splits)

lemma exec_Inr: "exec ft stmt db = (Inr x, db') \<longleftrightarrow> ft = Fine \<and> stmt db = Inr (x, db')"
  by (auto simp: exec_def split: fault.splits sum.splits)

lemma exec_unit_Inr: "exec_unit ft stmt db = (Inr x, db') \<longleftrightarrow> ft = Fine \<and> stmt db = Inr db'"
  by (auto simp: exec_unit_def exec_Inr split: sum.splits)

lemma query_Inr [simp]: "query ft stmt db = Inr x \<longleftrightarrow> ft = Fine \<and> stmt db = Inr x"
  by (simp add: query_def)

lemma call_Inr:
  "(case r of (Inl e, d) \<Rightarrow> (Inl (f e), d) | (Inr x, d) \<Rightarrow> (Inr (g x), d)) = (Inr y, d') \<longleftrightarrow>
     (\<exists>x. r = (Inr x, d') \<and> y = g x)"
  by (cases r; cases "fst r") auto

lemma run_tx_Cons_Inr:
  "run_tx fts i (stmt # stmts) db = Inr db' \<longleftrightarrow>
     (\<exists>d. fts i = Fine \<and> stmt db = Inr d \<and> run_tx fts (Suc i) stmts d = Inr db')"
  by (auto simp: query_def split: sum.split)

lemma run_tx_ok:
  assumes "P db" and "run_tx fts i stmts db = Inr db'"
    and "list_all (\<lambda>stmt. \<forall>d d'. P d \<longrightarrow> stmt d = Inr d' \<longrightarrow> P d') stmts"
  shows "P db'"
  using assms
proof (induction stmts arbitrary: i db)
  case (Cons stmt stmts)
  then obtain d where d: "stmt db = Inr d" "run_tx fts (Suc i) stmts d = Inr db'"
    by (auto split: sum.splits)
  with Cons.prems have "P d" by auto
  from Cons.IH [OF this d(2)] Cons.prems(3) show ?case by simp
qed simp

end
