(* ===== verification/Maintenance.thy ===== *)
theory Maintenance
  imports Account_Invariant "HOL-Library.Product_Lexorder"
begin

text \<open>
  Rollup, retention and reports (\<open>internal/accountdb/maintenance.go\<close>, the portal's \<open>Usage\<close>
  query, and the rollup statements of \<open>queries.sql.go\<close>): terminal events are claimed in batches
  and added to daily totals in one statement, old claimed events are deleted, and a report adds
  the totals and the events not yet claimed. \<open>locked\<close> are the rows another replica holds, which
  the statement skips. The loops end because every productive batch claims or deletes a row.
\<close>

subsection \<open>Counts\<close>

datatype counts =
  Counts (c_requests: int) (c_complete: int) (c_incomplete: int) (c_failed: int)
    (c_prompt: int) (c_completion: int) (c_cost: int) (c_priced: int)

instantiation counts :: comm_monoid_add
begin

definition zero_counts :: counts where
  "0 = Counts 0 0 0 0 0 0 0 0"

fun plus_counts :: "counts \<Rightarrow> counts \<Rightarrow> counts" where
  "Counts a b c d e f g h + Counts a' b' c' d' e' f' g' h' =
     Counts (a + a') (b + b') (c + c') (d + d') (e + e') (f + f') (g + g') (h + h')"

instance
proof
  fix x y z :: counts
  show "x + y + z = x + (y + z)" by (cases x; cases y; cases z) simp
  show "x + y = y + x" by (cases x; cases y) simp
  show "0 + x = x" by (cases x) (simp add: zero_counts_def)
qed

end

definition counts_ok :: "counts \<Rightarrow> bool" where
  "counts_ok c \<longleftrightarrow> list_all bigint_ok
     [c_requests c, c_complete c, c_incomplete c, c_failed c, c_prompt c, c_completion c, c_cost c, c_priced c]"

definition or_zero :: "int option \<Rightarrow> int" where
  "or_zero x = (case x of None \<Rightarrow> 0 | Some v \<Rightarrow> v)"

text \<open>What one event adds to the totals of its group.\<close>

definition event_counts :: "UsageEvent \<Rightarrow> counts" where
  "event_counts e =
     Counts 1 (of_bool (ev_State e = ''complete'')) (of_bool (ev_State e = ''incomplete''))
       (of_bool (ev_State e = ''failed'')) (or_zero (ev_PromptTokens e)) (or_zero (ev_CompletionTokens e))
       (or_zero (ev_EstimatedCostMicro e)) (of_bool (ev_EstimatedCostMicro e \<noteq> None))"

definition day_counts :: "UsageDaily \<Rightarrow> counts" where
  "day_counts d =
     Counts (day_RequestCount d) (day_CompleteCount d) (day_IncompleteCount d) (day_FailedCount d)
       (day_PromptTokens d) (day_CompletionTokens d) (day_EstimatedCostMicro d) (day_PricedCount d)"

definition daily_row :: "date \<times> bytes \<times> bytes \<times> bytes \<Rightarrow> counts \<Rightarrow> UsageDaily" where
  "daily_row k c =
     (case k of (day, accountID, keyID, model) \<Rightarrow>
      \<lparr>day_Day = day, day_AccountID = accountID, day_KeyID = keyID, day_Model = model,
       day_RequestCount = c_requests c, day_CompleteCount = c_complete c,
       day_IncompleteCount = c_incomplete c, day_FailedCount = c_failed c,
       day_PromptTokens = c_prompt c, day_CompletionTokens = c_completion c,
       day_EstimatedCostMicro = c_cost c, day_PricedCount = c_priced c\<rparr>)"

lemma daily_row_simps [simp]: "daily_key (daily_row k c) = k" "day_counts (daily_row k c) = c"
  by (simp_all add: daily_row_def daily_key_def day_counts_def split: prod.split)

definition event_key :: "UsageEvent \<Rightarrow> date \<times> bytes \<times> bytes \<times> bytes" where
  "event_key e = (day_of (ev_StartedAt e), ev_AccountID e, ev_KeyID e, ev_Model e)"

subsection \<open>Rollup\<close>

definition terminal_unrolled :: "UsageEvent \<Rightarrow> bool" where
  "terminal_unrolled e \<longleftrightarrow> ev_RolledUpAt e = None \<and> ev_State e \<noteq> ''pending''"

text \<open>The claimed rows: the oldest that are terminal, unclaimed and not locked by others.\<close>

definition claimed_ids :: "nat \<Rightarrow> (bytes \<Rightarrow> bool) \<Rightarrow> database \<Rightarrow> bytes list" where
  "claimed_ids limit locked db =
     map ev_RequestID (take limit (sort_key ev_StartedAt
       (filter (\<lambda>e. terminal_unrolled e \<and> \<not> locked (ev_RequestID e)) (db_events db))))"

definition group_total :: "UsageEvent list \<Rightarrow> date \<times> bytes \<times> bytes \<times> bytes \<Rightarrow> counts" where
  "group_total es k = sum_list (map event_counts (filter (\<lambda>e. event_key e = k) es))"

text \<open>\<open>INSERT ... ON CONFLICT DO UPDATE\<close> of one group; totals outside BIGINT are an error.\<close>

definition upsert_daily ::
    "date \<times> bytes \<times> bytes \<times> bytes \<Rightarrow> counts \<Rightarrow> UsageDaily list \<Rightarrow> pg_error + UsageDaily list" where
  "upsert_daily k c ds =
     (if \<not> counts_ok c then Inl OutOfRange
      else case find (\<lambda>d. daily_key d = k) ds of
        None \<Rightarrow> Inr (ds @ [daily_row k c])
      | Some d \<Rightarrow>
          if \<not> counts_ok (day_counts d + c) then Inl OutOfRange
          else Inr (map (\<lambda>d. if daily_key d = k then daily_row k (day_counts d + c) else d) ds))"

fun upsert_groups ::
    "UsageEvent list \<Rightarrow> (date \<times> bytes \<times> bytes \<times> bytes) list \<Rightarrow> UsageDaily list \<Rightarrow> pg_error + UsageDaily list" where
  "upsert_groups es [] ds = Inr ds"
| "upsert_groups es (k # ks) ds =
     (case upsert_daily k (group_total es k) ds of
        Inl e \<Rightarrow> Inl e
      | Inr ds' \<Rightarrow> upsert_groups es ks ds')"

definition RollupUsageBatch ::
    "time \<Rightarrow> nat \<Rightarrow> (bytes \<Rightarrow> bool) \<Rightarrow> database \<Rightarrow> pg_error + nat \<times> database" where
  "RollupUsageBatch now limit locked db =
     (let ids = claimed_ids limit locked db;
          claimed = filter (\<lambda>e. ev_RequestID e \<in> set ids) (db_events db);
          groups = remdups (map event_key claimed)
      in case upsert_groups claimed groups (db_daily db) of
           Inl e \<Rightarrow> Inl e
         | Inr ds \<Rightarrow>
             Inr (length groups,
                  db\<lparr>db_events := map (\<lambda>e. if ev_RequestID e \<in> set ids then e\<lparr>ev_RolledUpAt := Some now\<rparr> else e)
                       (db_events db),
                     db_daily := ds\<rparr>))"

definition old_ids :: "time \<Rightarrow> nat \<Rightarrow> database \<Rightarrow> bytes list" where
  "old_ids before limit db =
     map ev_RequestID (take limit (sort_key ev_StartedAt
       (filter (\<lambda>e. ev_RolledUpAt e \<noteq> None \<and> ev_StartedAt e < before) (db_events db))))"

definition DeleteOldUsageBatch :: "time \<Rightarrow> nat \<Rightarrow> database \<Rightarrow> pg_error + nat \<times> database" where
  "DeleteOldUsageBatch before limit db =
     (let ids = old_ids before limit db in
      Inr (length (filter (\<lambda>e. ev_RequestID e \<in> set ids) (db_events db)),
           db\<lparr>db_events := filter (\<lambda>e. ev_RequestID e \<notin> set ids) (db_events db)\<rparr>))"

subsection \<open>Maintain\<close>

definition rollupBatchSize :: nat where "rollupBatchSize = 1000"
definition deleteBatchSize :: nat where "deleteBatchSize = 1000"
definition usageRetention :: int where "usageRetention = 7 * 24 * 3600 * 1000000"

text \<open>The number of rows a batch can still claim; every productive batch lowers it.\<close>

definition unrolled :: "database \<Rightarrow> nat" where
  "unrolled db = length (filter terminal_unrolled (db_events db))"

lemma claimed_terminal:
  assumes "i \<in> set (claimed_ids limit locked db)"
  obtains e where "e \<in> set (db_events db)" and "ev_RequestID e = i" and "terminal_unrolled e"
  using assms by (auto simp: claimed_ids_def dest!: in_set_takeD)

lemma rollup_progress:
  assumes "RollupUsageBatch now limit locked db = Inr (n, db')" and "n \<noteq> 0"
  shows "unrolled db' < unrolled db"
proof -
  let ?ids = "set (claimed_ids limit locked db)"
  let ?f = "\<lambda>e. if ev_RequestID e \<in> ?ids then e\<lparr>ev_RolledUpAt := Some now\<rparr> else e"
  from assms have "filter (\<lambda>e. ev_RequestID e \<in> ?ids) (db_events db) \<noteq> []"
    and db': "db_events db' = map ?f (db_events db)"
    by (auto simp: RollupUsageBatch_def Let_def split: sum.splits)
  then obtain i where "i \<in> ?ids" by (auto simp: filter_empty_conv)
  then obtain e where e: "e \<in> set (db_events db)" "ev_RequestID e \<in> ?ids" "terminal_unrolled e"
    by (metis claimed_terminal)
  have "filter terminal_unrolled (map ?f es) = map ?f (filter (\<lambda>e. terminal_unrolled e \<and> ev_RequestID e \<notin> ?ids) es)" for es
    by (induction es) (auto simp: terminal_unrolled_def)
  then have "unrolled db' = length (filter (\<lambda>e. terminal_unrolled e \<and> ev_RequestID e \<notin> ?ids) (db_events db))"
    by (simp add: unrolled_def db')
  also have "\<dots> = length (filter (\<lambda>e. ev_RequestID e \<notin> ?ids) (filter terminal_unrolled (db_events db)))"
    by (simp add: filter_filter conj_commute)
  also have "\<dots> < unrolled db"
    unfolding unrolled_def by (rule length_filter_less [of e]) (use e in auto)
  finally show ?thesis .
qed

lemma delete_progress:
  assumes "DeleteOldUsageBatch before limit db = Inr (n, db')" and "n \<noteq> 0"
  shows "length (db_events db') < length (db_events db)"
proof -
  let ?P = "\<lambda>e. ev_RequestID e \<in> set (old_ids before limit db)"
  from assms have "0 < length (filter ?P (db_events db))"
    and d: "db_events db' = filter (\<lambda>e. \<not> ?P e) (db_events db)"
    by (auto simp: DeleteOldUsageBatch_def Let_def)
  with sum_length_filter_compl [of ?P "db_events db"] show ?thesis unfolding d by linarith
qed

text \<open>
  The two loops: \<open>nows\<close>, \<open>fts\<close> and \<open>locks\<close> give the time, the fault and the locked rows of the
  \<open>i\<close>-th statement. The result is the error, if any, the next statement's index and the database.
\<close>

function rollup_loop ::
    "(nat \<Rightarrow> time) \<Rightarrow> (nat \<Rightarrow> fault) \<Rightarrow> (nat \<Rightarrow> bytes \<Rightarrow> bool) \<Rightarrow> nat \<Rightarrow> database \<Rightarrow>
     pg_error option \<times> nat \<times> database" where
  "rollup_loop nows fts locks i db =
     (case exec (fts i) (RollupUsageBatch (nows i) rollupBatchSize (locks i)) db of
        (Inl e, db') \<Rightarrow> (Some e, Suc i, db')
      | (Inr rows, db') \<Rightarrow>
          if rows = 0 then (None, Suc i, db') else rollup_loop nows fts locks (Suc i) db')"
  by pat_completeness auto
termination
  by (relation "measure (\<lambda>(nows, fts, locks, i, db). unrolled db)")
    (auto dest!: sym [of "(_, _)"] simp: exec_Inr intro: rollup_progress)

function delete_loop ::
    "(nat \<Rightarrow> time) \<Rightarrow> (nat \<Rightarrow> fault) \<Rightarrow> nat \<Rightarrow> database \<Rightarrow> pg_error option \<times> database" where
  "delete_loop nows fts i db =
     (case exec (fts i) (DeleteOldUsageBatch (nows i - usageRetention) deleteBatchSize) db of
        (Inl e, db') \<Rightarrow> (Some e, db')
      | (Inr rows, db') \<Rightarrow> if rows = 0 then (None, db') else delete_loop nows fts (Suc i) db')"
  by pat_completeness auto
termination
  by (relation "measure (\<lambda>(nows, fts, i, db). length (db_events db))")
    (auto dest!: sym [of "(_, _)"] simp: exec_Inr intro: delete_progress)

declare rollup_loop.simps [simp del] delete_loop.simps [simp del]

text \<open>
  \<open>Maintain\<close>: statement 0 ends expired sessions, 1 forgets login windows, 2 expires pending
  events, then the two loops.
\<close>

definition Maintain ::
    "(nat \<Rightarrow> time) \<Rightarrow> (nat \<Rightarrow> fault) \<Rightarrow> (nat \<Rightarrow> bytes \<Rightarrow> bool) \<Rightarrow> database \<Rightarrow> pg_error option \<times> database" where
  "Maintain nows fts locks db =
     (case exec_unit (fts 0) (\<lambda>db. Inr (db\<lparr>db_sessions :=
               filter (\<lambda>s. \<not> ses_ExpiresAt s < nows 0) (db_sessions db)\<rparr>)) db of
        (Inl e, db1) \<Rightarrow> (Some e, db1)
      | (Inr _, db1) \<Rightarrow>
          (case exec_unit (fts 1) (\<lambda>db. Inr (db\<lparr>db_attempts :=
                   filter (\<lambda>a. \<not> la_WindowStarted a < nows 1 - login_window) (db_attempts db)\<rparr>)) db1 of
             (Inl e, db2) \<Rightarrow> (Some e, db2)
           | (Inr _, db2) \<Rightarrow>
               (case exec_unit (fts 2) (\<lambda>db. Inr (ExpirePendingUsage (nows 2) db)) db2 of
                  (Inl e, db3) \<Rightarrow> (Some e, db3)
                | (Inr _, db3) \<Rightarrow>
                    (case rollup_loop nows fts locks 3 db3 of
                       (Some e, i, db4) \<Rightarrow> (Some e, db4)
                     | (None, i, db4) \<Rightarrow> delete_loop nows fts i db4))))"

subsection \<open>Reports\<close>

record PortalUsage =
  pu_Day :: date
  pu_Model :: bytes
  pu_Counts :: counts

text \<open>
  The lines under the report: the account's daily totals, and its terminal events that are not
  rolled up, grouped by day and model.
\<close>

definition live_events :: "bytes \<Rightarrow> date \<Rightarrow> database \<Rightarrow> UsageEvent list" where
  "live_events accountID since db =
     filter (\<lambda>e. ev_AccountID e = accountID \<and> since \<le> day_of (ev_StartedAt e) \<and> terminal_unrolled e)
       (db_events db)"

definition usage_lines :: "bytes \<Rightarrow> date \<Rightarrow> database \<Rightarrow> ((date \<times> bytes) \<times> counts) list" where
  "usage_lines accountID since db =
     map (\<lambda>d. ((day_Day d, day_Model d), day_counts d))
       (filter (\<lambda>d. day_AccountID d = accountID \<and> since \<le> day_Day d) (db_daily db)) @
     (let es = live_events accountID since db;
          group = (\<lambda>e. (day_of (ev_StartedAt e), ev_Model e))
      in map (\<lambda>g. (g, sum_list (map event_counts (filter (\<lambda>e. group e = g) es))))
           (remdups (map group es)))"

definition line_total :: "((date \<times> bytes) \<times> counts) list \<Rightarrow> date \<times> bytes \<Rightarrow> counts" where
  "line_total ls g = sum_list (map snd (filter (\<lambda>l. fst l = g) ls))"

text \<open>\<open>GROUP BY day, model ORDER BY day DESC, model\<close>; a sum outside int64 fails to scan.\<close>

definition report_keys :: "((date \<times> bytes) \<times> counts) list \<Rightarrow> (date \<times> bytes) list" where
  "report_keys ls =
     map (\<lambda>(d, m). (- d, m)) (sorted_list_of_set ((\<lambda>l. (- fst (fst l), snd (fst l))) ` set ls))"

definition usage_report :: "bytes \<Rightarrow> date \<Rightarrow> database \<Rightarrow> PortalUsage list" where
  "usage_report accountID since db =
     (let ls = usage_lines accountID since db in
      map (\<lambda>g. \<lparr>pu_Day = fst g, pu_Model = snd g, pu_Counts = line_total ls g\<rparr>) (report_keys ls))"

definition Usage :: "fault \<Rightarrow> bytes \<Rightarrow> time \<Rightarrow> database \<Rightarrow> store_error + PortalUsage list" where
  "Usage ft accountID since db =
     (if ft \<noteq> Fine then Inl (DatabaseError Unavailable)
      else if \<not> text_ok accountID then Inl (DatabaseError BadText)
      else let rows = usage_report accountID (day_of since) db in
        if list_all (\<lambda>r. counts_ok (pu_Counts r)) rows then Inr rows else Inl (DatabaseError OutOfRange))"

text \<open>The rows of the table itself, for the operators' command.\<close>

record DailyUsage =
  du_Day :: date
  du_Model :: bytes
  du_KeyID :: bytes
  du_Counts :: counts

definition GetDailyUsage :: "bytes \<Rightarrow> date \<Rightarrow> database \<Rightarrow> pg_error + UsageDaily list" where
  "GetDailyUsage accountID day db =
     (if \<not> text_ok accountID then Inl BadText
      else Inr (sort_key (\<lambda>d. (day_Day d, day_Model d, day_KeyID d))
        (filter (\<lambda>d. day_AccountID d = accountID \<and> day \<le> day_Day d) (db_daily db))))"

definition Store_DailyUsage :: "fault \<Rightarrow> bytes \<Rightarrow> time \<Rightarrow> database \<Rightarrow> store_error + DailyUsage list" where
  "Store_DailyUsage ft accountID since db =
     (case query ft (GetDailyUsage accountID (day_of since)) db of
        Inl e \<Rightarrow> Inl (DatabaseError e)
      | Inr rows \<Rightarrow>
          Inr (map (\<lambda>row. \<lparr>du_Day = day_Day row, du_Model = day_Model row, du_KeyID = day_KeyID row,
                            du_Counts = day_counts row\<rparr>) rows))"

subsection \<open>The ledger's sums\<close>

type_synonym ledger_key = "date \<times> bytes \<times> bytes \<times> bytes"

definition daily_sum :: "(ledger_key \<Rightarrow> bool) \<Rightarrow> UsageDaily list \<Rightarrow> counts" where
  "daily_sum P ds = sum_list (map (\<lambda>d. if P (daily_key d) then day_counts d else 0) ds)"

definition event_sum :: "(ledger_key \<Rightarrow> bool) \<Rightarrow> UsageEvent list \<Rightarrow> counts" where
  "event_sum P es = sum_list (map (\<lambda>e. if P (event_key e) then event_counts e else 0) es)"

text \<open>Everything accounted for under the keys \<open>P\<close>: the totals and the terminal events left.\<close>

definition ledger :: "(ledger_key \<Rightarrow> bool) \<Rightarrow> database \<Rightarrow> counts" where
  "ledger P db = daily_sum P (db_daily db) + event_sum P (filter terminal_unrolled (db_events db))"

lemma daily_sum_simps [simp]:
  "daily_sum P [] = 0"
  "daily_sum P (d # ds) = (if P (daily_key d) then day_counts d else 0) + daily_sum P ds"
  "daily_sum P (ds @ ds') = daily_sum P ds + daily_sum P ds'"
  by (simp_all add: daily_sum_def)

lemma event_sum_simps [simp]:
  "event_sum P [] = 0"
  "event_sum P (e # es) = (if P (event_key e) then event_counts e else 0) + event_sum P es"
  by (simp_all add: event_sum_def)

lemma sum_list_filter: "sum_list (map f (filter Q xs)) = sum_list (map (\<lambda>x. if Q x then f x else 0) xs)"
  for f :: "'a \<Rightarrow> counts"
  by (induction xs) simp_all

lemma sum_list_if: "sum_list (map (\<lambda>x. if Q then f x else 0) xs) = (if Q then sum_list (map f xs) else 0)"
  for f :: "'a \<Rightarrow> counts"
  by (induction xs) simp_all

lemma event_sum_split:
  "event_sum P es = event_sum P (filter Q es) + event_sum P (filter (\<lambda>e. \<not> Q e) es)"
  by (induction es) (simp_all add: add.assoc add.left_commute)

lemma sum_list_single:
  fixes c :: counts
  shows "distinct ks \<Longrightarrow> sum_list (map (\<lambda>k. if k = x then c else 0) ks) = (if x \<in> set ks then c else 0)"
  by (induction ks) auto

lemma sum_list_plus: "sum_list (map (\<lambda>k. f k + g k) ks) = sum_list (map f ks) + sum_list (map g ks)"
  for f g :: "'a \<Rightarrow> counts"
  by (induction ks) (simp_all add: add.assoc add.left_commute)

lemma group_total_Cons: "group_total (e # es) k = (if event_key e = k then event_counts e else 0) + group_total es k"
  by (simp add: group_total_def)

lemma groups_sum:
  assumes "distinct ks"
  shows "event_key ` set es \<subseteq> set ks \<Longrightarrow>
    sum_list (map (\<lambda>k. if P k then group_total es k else 0) ks) = event_sum P es"
proof (induction es)
  case Nil
  then show ?case by (induction ks) (simp_all add: group_total_def)
next
  case (Cons e es)
  have "(if P k then group_total (e # es) k else 0) =
      (if k = event_key e then (if P (event_key e) then event_counts e else 0) else 0) +
      (if P k then group_total es k else 0)" for k
    by (simp add: group_total_Cons)
  then have "sum_list (map (\<lambda>k. if P k then group_total (e # es) k else 0) ks) =
      sum_list (map (\<lambda>k. if k = event_key e then (if P (event_key e) then event_counts e else 0) else 0) ks) +
      sum_list (map (\<lambda>k. if P k then group_total es k else 0) ks)"
    by (simp only: sum_list_plus)
  with Cons show ?case by (simp add: sum_list_single [OF assms])
qed

subsection \<open>Conservation\<close>

lemma daily_update_sum:
  assumes "distinct (map daily_key ds)" and "d \<in> set ds" and "daily_key d = k"
  shows "daily_sum P (map (\<lambda>d. if daily_key d = k then daily_row k (day_counts d + c) else d) ds) =
    daily_sum P ds + (if P k then c else 0)"
  using assms
proof (induction ds)
  case (Cons x xs)
  show ?case
  proof (cases "daily_key x = k")
    case True
    with Cons.prems(1) have "daily_key y \<noteq> k" if "y \<in> set xs" for y
      using that by (metis distinct.simps(2) image_eqI list.set_map list.simps(9))
    then have "map (\<lambda>d. if daily_key d = k then daily_row k (day_counts d + c) else d) xs = xs"
      by (auto intro!: map_idI)
    with True show ?thesis by (simp add: add.assoc add.left_commute add.commute)
  next
    case False
    with Cons show ?thesis by (auto simp: add.assoc)
  qed
qed simp

lemma upsert_daily_spec:
  assumes "distinct (map daily_key ds)" and "upsert_daily k c ds = Inr ds'"
  shows "distinct (map daily_key ds')" and "daily_key ` set ds' = insert k (daily_key ` set ds)"
    and "daily_sum P ds' = daily_sum P ds + (if P k then c else 0)"
proof -
  let ?f = "\<lambda>d. if daily_key d = k then daily_row k (day_counts d + c) else d"
  have "daily_key \<circ> ?f = daily_key" by (auto simp: fun_eq_iff)
  then have keys: "map daily_key (map ?f ds) = map daily_key ds" by simp
  consider "k \<notin> daily_key ` set ds" "ds' = ds @ [daily_row k c]"
    | d where "d \<in> set ds" "daily_key d = k" "ds' = map ?f ds"
  proof (cases "find (\<lambda>d. daily_key d = k) ds")
    case None
    then have "k \<notin> daily_key ` set ds" by (auto simp: find_None_iff)
    moreover from assms(2) None have "ds' = ds @ [daily_row k c]"
      by (simp add: upsert_daily_def split: if_splits)
    ultimately show ?thesis by (rule that(1))
  next
    case (Some d)
    then have "d \<in> set ds" "daily_key d = k" by (auto simp: find_Some_iff)
    with assms(2) that(2) Some show ?thesis by (simp add: upsert_daily_def split: if_splits)
  qed
  then have "distinct (map daily_key ds') \<and> daily_key ` set ds' = insert k (daily_key ` set ds) \<and>
    daily_sum P ds' = daily_sum P ds + (if P k then c else 0)"
  proof cases
    case 1
    with assms(1) show ?thesis by auto
  next
    case 2
    have same: "map daily_key ds' = map daily_key ds" unfolding 2(3) by (rule keys)
    then have "set (map daily_key ds') = set (map daily_key ds)" by (rule arg_cong)
    moreover have "k \<in> daily_key ` set ds" using 2(1,2) by blast
    ultimately have "daily_key ` set ds' = insert k (daily_key ` set ds)" by (simp add: insert_absorb)
    moreover have "distinct (map daily_key ds')" unfolding same by (rule assms(1))
    moreover have "daily_sum P ds' = daily_sum P ds + (if P k then c else 0)"
      unfolding 2(3) by (rule daily_update_sum [OF assms(1) 2(1,2)])
    ultimately show ?thesis by blast
  qed
  then show "distinct (map daily_key ds')" and "daily_key ` set ds' = insert k (daily_key ` set ds)"
    and "daily_sum P ds' = daily_sum P ds + (if P k then c else 0)" by blast+
qed

lemma upsert_groups_spec:
  assumes "distinct (map daily_key ds)" and "upsert_groups es ks ds = Inr ds'"
  shows "distinct (map daily_key ds') \<and> daily_key ` set ds' = set ks \<union> daily_key ` set ds \<and>
    daily_sum P ds' = daily_sum P ds + sum_list (map (\<lambda>k. if P k then group_total es k else 0) ks)"
  using assms
proof (induction ks arbitrary: ds)
  case (Cons k ks)
  then obtain d1 where u: "upsert_daily k (group_total es k) ds = Inr d1" and "upsert_groups es ks d1 = Inr ds'"
    by (auto split: sum.splits)
  with upsert_daily_spec [OF Cons.prems(1) u] Cons.IH [of d1] show ?case
    by (auto simp: add.assoc)
qed simp

text \<open>A claimed batch: the claimed rows are terminal and unclaimed, and become claimed.\<close>

lemma claimed_unique:
  assumes "distinct (map ev_RequestID (db_events db))" and "e \<in> set (db_events db)"
    and "ev_RequestID e \<in> set (claimed_ids limit locked db)"
  shows "terminal_unrolled e"
proof -
  obtain e' where "e' \<in> set (db_events db)" "ev_RequestID e' = ev_RequestID e" "terminal_unrolled e'"
    using claimed_terminal [OF assms(3)] by metis
  with assms(1,2) show ?thesis by (metis distinct_map inj_onD)
qed

lemma mark_claimed:
  "filter terminal_unrolled (map (\<lambda>e. if ev_RequestID e \<in> I then e\<lparr>ev_RolledUpAt := Some now\<rparr> else e) es) =
   filter (\<lambda>e. terminal_unrolled e \<and> ev_RequestID e \<notin> I) es"
  by (induction es) (auto simp: terminal_unrolled_def)

lemma rollup_spec:
  assumes ok: "db_ok db" and r: "RollupUsageBatch now limit locked db = Inr (n, db')"
  shows "ledger P db' = ledger P db"
    and "distinct (map daily_key (db_daily db'))"
    and "daily_key ` set (db_daily db') \<union> event_key ` set (filter terminal_unrolled (db_events db')) =
         daily_key ` set (db_daily db) \<union> event_key ` set (filter terminal_unrolled (db_events db))"
proof -
  let ?I = "set (claimed_ids limit locked db)"
  let ?es = "db_events db" and ?claimed = "filter (\<lambda>e. ev_RequestID e \<in> ?I) (db_events db)"
  let ?rest = "filter (\<lambda>e. terminal_unrolled e \<and> ev_RequestID e \<notin> ?I) (db_events db)"
  have uniq: "distinct (map ev_RequestID ?es)" and dk: "distinct (map daily_key (db_daily db))"
    using ok by (simp_all add: db_ok_defs)
  from r obtain ds where u: "upsert_groups ?claimed (remdups (map event_key ?claimed)) (db_daily db) = Inr ds"
    and db': "db_daily db' = ds" "filter terminal_unrolled (db_events db') = ?rest"
    by (auto simp: RollupUsageBatch_def Let_def mark_claimed split: sum.splits)
  note spec = upsert_groups_spec [OF dk u, of P]
  have claimed: "filter (\<lambda>e. ev_RequestID e \<in> ?I) (filter terminal_unrolled ?es) = ?claimed"
    using claimed_unique [OF uniq] by (auto intro: filter_cong simp: filter_filter)
  have rest: "filter (\<lambda>e. ev_RequestID e \<notin> ?I) (filter terminal_unrolled ?es) = ?rest"
    by (simp add: filter_filter conj_commute)
  have "sum_list (map (\<lambda>k. if P k then group_total ?claimed k else 0) (remdups (map event_key ?claimed))) =
      event_sum P ?claimed"
    by (rule groups_sum) simp_all
  with spec have "daily_sum P ds = daily_sum P (db_daily db) + event_sum P ?claimed" by simp
  moreover have "event_sum P (filter terminal_unrolled ?es) = event_sum P ?claimed + event_sum P ?rest"
    using event_sum_split [of P "filter terminal_unrolled ?es" "\<lambda>e. ev_RequestID e \<in> ?I"]
    by (simp only: claimed rest)
  ultimately show "ledger P db' = ledger P db" by (simp add: ledger_def db' add.assoc)
  show "distinct (map daily_key (db_daily db'))" using spec by (simp add: db')
  have "set (filter terminal_unrolled ?es) = set ?claimed \<union> set ?rest"
    using claimed_unique [OF uniq] by auto
  then have "event_key ` set (filter terminal_unrolled ?es) = event_key ` set ?claimed \<union> event_key ` set ?rest"
    by (simp only: image_Un)
  with spec show "daily_key ` set (db_daily db') \<union> event_key ` set (filter terminal_unrolled (db_events db')) =
      daily_key ` set (db_daily db) \<union> event_key ` set (filter terminal_unrolled (db_events db))"
    unfolding db' by (auto simp del: set_filter)
qed

lemma delete_spec:
  assumes ok: "db_ok db" and r: "DeleteOldUsageBatch before limit db = Inr (n, db')"
  shows "db_daily db' = db_daily db"
    and "filter terminal_unrolled (db_events db') = filter terminal_unrolled (db_events db)"
proof -
  let ?I = "set (old_ids before limit db)"
  have "ev_RequestID e \<notin> ?I" if e: "e \<in> set (db_events db)" "terminal_unrolled e" for e
  proof
    assume "ev_RequestID e \<in> ?I"
    then obtain e' where "e' \<in> set (db_events db)" "ev_RequestID e' = ev_RequestID e" "ev_RolledUpAt e' \<noteq> None"
      by (auto simp: old_ids_def dest!: in_set_takeD)
    moreover have "distinct (map ev_RequestID (db_events db))" using ok by (simp add: db_ok_defs)
    ultimately show False using e by (metis distinct_map inj_onD terminal_unrolled_def)
  qed
  then have "filter (\<lambda>e. ev_RequestID e \<notin> ?I \<and> terminal_unrolled e) (db_events db) =
      filter terminal_unrolled (db_events db)"
    by (auto intro: filter_cong)
  with r show "filter terminal_unrolled (db_events db') = filter terminal_unrolled (db_events db)"
    by (auto simp: DeleteOldUsageBatch_def Let_def filter_filter conj_commute)
  show "db_daily db' = db_daily db"
    using r by (auto simp: DeleteOldUsageBatch_def Let_def)
qed

end
