(* ===== verification/Reports.thy ===== *)
theory Reports
  imports Maintenance
begin

text \<open>
  What maintenance guarantees: the integrity of the database, reports that do not change while
  events move into the daily totals and out of the table, what a report of an account is, what a run
  without errors leaves behind under any clock and any rows held by others, and bounds on its
  statements.
\<close>

subsection \<open>Integrity\<close>

lemma daily_columns:
  "day_AccountID ` set ds = (\<lambda>k. fst (snd k)) ` daily_key ` set ds"
  "day_KeyID ` set ds = (\<lambda>k. fst (snd (snd k))) ` daily_key ` set ds"
  by (simp_all add: daily_key_def image_image)

lemma event_columns:
  "ev_AccountID ` S = (\<lambda>k. fst (snd k)) ` event_key ` S"
  "ev_KeyID ` S = (\<lambda>k. fst (snd (snd k))) ` event_key ` S"
  by (simp_all add: event_key_def image_image)

lemma rollup_rows:
  assumes "RollupUsageBatch now limit locked db = Inr (n, db')"
  obtains ds where "db' = db\<lparr>db_events := map (\<lambda>e. if ev_RequestID e \<in> set (claimed_ids limit locked db)
      then e\<lparr>ev_RolledUpAt := Some now\<rparr> else e) (db_events db), db_daily := ds\<rparr>"
  using assms by (auto simp: RollupUsageBatch_def Let_def split: sum.splits)

lemma rollup_events_ok:
  assumes ok: "db_ok db"
  shows "events_ok (db\<lparr>db_events := map (\<lambda>e. if ev_RequestID e \<in> set (claimed_ids limit locked db)
      then e\<lparr>ev_RolledUpAt := Some now\<rparr> else e) (db_events db)\<rparr>)"
proof (rule events_ok_map)
  show "events_ok db" using ok by (simp add: db_ok_def)
  have uniq: "distinct (map ev_RequestID (db_events db))" using ok by (simp add: db_ok_defs)
  have "event_ok (e\<lparr>ev_RolledUpAt := Some now\<rparr>)" if "event_ok e" "terminal_unrolled e" for e
    using that by (simp add: event_ok_def event_check_def terminal_unrolled_def)
  then show "list_all event_ok (map (\<lambda>e. if ev_RequestID e \<in> set (claimed_ids limit locked db)
      then e\<lparr>ev_RolledUpAt := Some now\<rparr> else e) (db_events db))"
    using ok claimed_unique [OF uniq] by (auto simp: db_ok_def events_ok_def list_all_iff)
qed simp_all

lemma RollupUsageBatch_ok:
  assumes ok: "db_ok db" and r: "RollupUsageBatch now limit locked db = Inr (n, db')"
  shows "db_ok db'"
proof -
  obtain ds where db': "db' = db\<lparr>db_events := map (\<lambda>e. if ev_RequestID e \<in> set (claimed_ids limit locked db)
      then e\<lparr>ev_RolledUpAt := Some now\<rparr> else e) (db_events db), db_daily := ds\<rparr>"
    by (rule rollup_rows [OF r])
  have "daily_key ` set (db_daily db') \<subseteq> daily_key ` set (db_daily db) \<union> event_key ` set (db_events db)"
    using rollup_spec(3) [OF ok r] by auto
  then have "day_AccountID ` set (db_daily db') \<subseteq> day_AccountID ` set (db_daily db) \<union> ev_AccountID ` set (db_events db)"
    and "day_KeyID ` set (db_daily db') \<subseteq> day_KeyID ` set (db_daily db) \<union> ev_KeyID ` set (db_events db)"
    unfolding daily_columns event_columns by (metis image_Un image_mono)+
  moreover have "ev_AccountID ` set (db_events db) \<subseteq> acc_ID ` set (db_accounts db)"
    "ev_KeyID ` set (db_events db) \<subseteq> key_ID ` set (db_keys db)"
    "day_AccountID ` set (db_daily db) \<subseteq> acc_ID ` set (db_accounts db)"
    "day_KeyID ` set (db_daily db) \<subseteq> key_ID ` set (db_keys db)"
    using ok by (simp_all add: db_ok_defs)
  ultimately have "day_AccountID ` set (db_daily db') \<subseteq> acc_ID ` set (db_accounts db)"
    "day_KeyID ` set (db_daily db') \<subseteq> key_ID ` set (db_keys db)"
    by (meson Un_least order_trans)+
  moreover have "db_accounts db' = db_accounts db" "db_keys db' = db_keys db" by (simp_all add: db')
  ultimately have "daily_ok db'"
    unfolding daily_ok_def using rollup_spec(2) [OF ok r] by simp
  moreover have "events_ok db'"
    using rollup_events_ok [OF ok, of limit locked now] by (simp add: db' events_ok_def)
  moreover have "users_ok db'" "keys_ok db'" "prices_ok db'" "sessions_ok db'" "attempts_ok db'"
    using ok by (simp_all add: db' db_ok_defs)
  ultimately show ?thesis by (simp add: db_ok_def)
qed

lemma events_ok_filter: "events_ok db \<Longrightarrow> events_ok (db\<lparr>db_events := filter P (db_events db)\<rparr>)"
  by (auto simp: events_ok_def distinct_map_filter list_all_iff)

lemma DeleteOldUsageBatch_ok:
  assumes "db_ok db" and "DeleteOldUsageBatch before limit db = Inr (n, db')"
  shows "db_ok db'"
  using assms db_ok_events [OF assms(1) events_ok_filter]
  by (auto simp: DeleteOldUsageBatch_def Let_def db_ok_def)

subsection \<open>The loops\<close>

text \<open>What every batch keeps, the loop keeps.\<close>

lemma rollup_loop_keeps:
  assumes "Q db" and "\<And>d d' k n. Q d \<Longrightarrow> RollupUsageBatch (nows k) rollupBatchSize (locks k) d = Inr (n, d') \<Longrightarrow> Q d'"
  shows "Q (snd (snd (rollup_loop nows fts locks i db)))"
  using assms
proof (induction "unrolled db" arbitrary: i db rule: less_induct)
  case less
  obtain r d where e: "exec (fts i) (RollupUsageBatch (nows i) rollupBatchSize (locks i)) db = (r, d)"
    by fastforce
  have "Q (snd (exec (fts i) (RollupUsageBatch (nows i) rollupBatchSize (locks i)) db))"
    by (rule exec_ok [where P = Q, OF less(2)]) (rule less(3) [OF less(2)])
  then have "Q d" by (simp only: e snd_conv)
  moreover have "Q (snd (snd (rollup_loop nows fts locks (Suc i) d)))" if "r = Inr n" "n \<noteq> 0" for n
  proof (rule less(1) [OF _ \<open>Q d\<close> less(3)])
    from e that(1) have "RollupUsageBatch (nows i) rollupBatchSize (locks i) db = Inr (n, d)"
      by (simp add: exec_Inr)
    then show "unrolled d < unrolled db" using that(2) by (rule rollup_progress)
  qed
  ultimately show ?case
    using e by (subst rollup_loop.simps) (auto split: sum.split)
qed

lemma delete_loop_keeps:
  assumes "Q db" and "\<And>d d' k n. Q d \<Longrightarrow>
    DeleteOldUsageBatch (nows k - usageRetention) deleteBatchSize d = Inr (n, d') \<Longrightarrow> Q d'"
  shows "Q (snd (delete_loop nows fts i db))"
  using assms
proof (induction "length (db_events db)" arbitrary: i db rule: less_induct)
  case less
  obtain r d where e: "exec (fts i) (DeleteOldUsageBatch (nows i - usageRetention) deleteBatchSize) db = (r, d)"
    by fastforce
  have "Q (snd (exec (fts i) (DeleteOldUsageBatch (nows i - usageRetention) deleteBatchSize) db))"
    by (rule exec_ok [where P = Q, OF less(2)]) (rule less(3) [OF less(2)])
  then have "Q d" by (simp only: e snd_conv)
  moreover have "Q (snd (delete_loop nows fts (Suc i) d))" if "r = Inr n" "n \<noteq> 0" for n
  proof (rule less(1) [OF _ \<open>Q d\<close> less(3)])
    from e that(1) have "DeleteOldUsageBatch (nows i - usageRetention) deleteBatchSize db = Inr (n, d)"
      by (simp add: exec_Inr)
    then show "length (db_events d) < length (db_events db)" using that(2) by (rule delete_progress)
  qed
  ultimately show ?case
    using e by (subst delete_loop.simps) (auto split: sum.split)
qed

lemma rollup_loop_ok: "db_ok db \<Longrightarrow> db_ok (snd (snd (rollup_loop nows fts locks i db)))"
  by (rule rollup_loop_keeps [where Q = db_ok]) (auto intro: RollupUsageBatch_ok)

lemma delete_loop_ok: "db_ok db \<Longrightarrow> db_ok (snd (delete_loop nows fts i db))"
  by (rule delete_loop_keeps [where Q = db_ok]) (auto intro: DeleteOldUsageBatch_ok)

text \<open>The database before the loops: sessions and windows purged, old requests expired or not.\<close>

lemma Maintain_phases:
  obtains db3 where "db_events db3 = db_events db \<or> db_events db3 = db_events (ExpirePendingUsage (nows 2) db)"
    and "db_daily db3 = db_daily db" and "db_ok db \<Longrightarrow> db_ok db3"
    and "snd (Maintain nows fts locks db) = db3 \<or>
      (\<exists>d. d = snd (snd (rollup_loop nows fts locks 3 db3)) \<and>
        (snd (Maintain nows fts locks db) = d \<or>
         (\<exists>i. snd (Maintain nows fts locks db) = snd (delete_loop nows fts i d))))"
proof -
  let ?s = "\<lambda>db. Inr (db\<lparr>db_sessions := filter (\<lambda>s. \<not> ses_ExpiresAt s < nows 0) (db_sessions db)\<rparr>)"
  let ?a = "\<lambda>db. Inr (db\<lparr>db_attempts :=
    filter (\<lambda>a. \<not> la_WindowStarted a < nows 1 - login_window) (db_attempts db)\<rparr>)"
  let ?x = "\<lambda>db. Inr (ExpirePendingUsage (nows 2) db)"
  let ?P = "\<lambda>d. db_events d = db_events db \<and> db_daily d = db_daily db \<and> (db_ok db \<longrightarrow> db_ok d)"
  obtain r1 d1 where 1: "exec_unit (fts 0) ?s db = (r1, d1)" by fastforce
  obtain r2 d2 where 2: "exec_unit (fts 1) ?a d1 = (r2, d2)" by fastforce
  obtain r3 d3 where 3: "exec_unit (fts 2) ?x d2 = (r3, d3)" by fastforce
  have "?P (snd (exec_unit (fts 0) ?s db))"
    by (rule exec_unit_ok [where P = ?P]) (auto simp: purge_sessions_ok)
  then have P1: "?P d1" by (simp add: 1)
  then have "?P (snd (exec_unit (fts 1) ?a d1))"
    by - (rule exec_unit_ok [where P = ?P], auto simp: purge_attempts_ok)
  then have P2: "?P d2" unfolding 2 snd_conv .
  let ?Q = "\<lambda>d. (db_events d = db_events db \<or> db_events d = db_events (ExpirePendingUsage (nows 2) db)) \<and>
    db_daily d = db_daily db \<and> (db_ok db \<longrightarrow> db_ok d)"
  have "?Q (snd (exec_unit (fts 2) ?x d2))"
    by (rule exec_unit_ok [where P = ?Q], use P2 in simp)
      (use P2 ExpirePendingUsage_ok [of d2 "nows 2"] in \<open>auto simp: ExpirePendingUsage_def\<close>)
  then have P3: "?Q d3" by (simp add: 3)
  note m = Maintain_def [of nows fts locks db] 1 2 [simplified One_nat_def] 3
  consider "snd (Maintain nows fts locks db) = d1" | "snd (Maintain nows fts locks db) = d2"
    | "snd (Maintain nows fts locks db) = d3"
    | "snd (Maintain nows fts locks db) = snd (snd (rollup_loop nows fts locks 3 d3))"
    | i where "snd (Maintain nows fts locks db) = snd (delete_loop nows fts i (snd (snd (rollup_loop nows fts locks 3 d3))))"
    by (cases r1; cases r2; cases r3; cases "rollup_loop nows fts locks 3 d3";
        cases "fst (rollup_loop nows fts locks 3 d3)") (simp_all add: m)
  then show ?thesis
  proof cases
    case 1
    with P1 that [of d1] show ?thesis by blast
  next
    case 2
    with P2 that [of d2] show ?thesis by blast
  qed (use P3 that [of d3] in blast)+
qed

lemma Maintain_ok: "db_ok db \<Longrightarrow> db_ok (snd (Maintain nows fts locks db))"
  by (rule Maintain_phases [of db nows fts locks]) (auto simp: rollup_loop_ok delete_loop_ok)

subsection \<open>Reports\<close>

text \<open>The entries of the ledger a line of a report adds up.\<close>

definition line_keys :: "bytes \<Rightarrow> date \<Rightarrow> date \<times> bytes \<Rightarrow> ledger_key \<Rightarrow> bool" where
  "line_keys a since g k = (case k of (d, a', i, m) \<Rightarrow> a' = a \<and> since \<le> d \<and> (d, m) = g)"

definition ledger_keys :: "database \<Rightarrow> ledger_key set" where
  "ledger_keys db = daily_key ` set (db_daily db) \<union> event_key ` set (filter terminal_unrolled (db_events db))"

lemma daily_lines:
  "line_total (map (\<lambda>d. ((day_Day d, day_Model d), day_counts d))
     (filter (\<lambda>d. day_AccountID d = a \<and> since \<le> day_Day d) ds)) g = daily_sum (line_keys a since g) ds"
  by (induction ds) (auto simp: line_total_def line_keys_def daily_key_def)

lemma group_lines:
  assumes "distinct gs"
  shows "line_total (map (\<lambda>g. (g, F g)) gs) g = (if g \<in> set gs then F g else 0)"
  using assms by (induction gs) (auto simp: line_total_def)

lemma line_total_append: "line_total (xs @ ys) g = line_total xs g + line_total ys g"
  by (simp add: line_total_def)

lemma live_sum:
  "sum_list (map event_counts (filter (\<lambda>e. (day_of (ev_StartedAt e), ev_Model e) = g) (live_events a since db))) =
   event_sum (line_keys a since g) (filter terminal_unrolled (db_events db))"
proof -
  have "sum_list (map event_counts (filter (\<lambda>e. (day_of (ev_StartedAt e), ev_Model e) = g)
      (filter (\<lambda>e. ev_AccountID e = a \<and> since \<le> day_of (ev_StartedAt e) \<and> terminal_unrolled e) es))) =
    event_sum (line_keys a since g) (filter terminal_unrolled es)" for es
    by (induction es) (auto simp: line_keys_def event_key_def)
  then show ?thesis by (simp only: live_events_def)
qed

lemma line_total_split:
  "line_total (usage_lines a since db) g =
     line_total (map (\<lambda>d. ((day_Day d, day_Model d), day_counts d))
       (filter (\<lambda>d. day_AccountID d = a \<and> since \<le> day_Day d) (db_daily db))) g +
     sum_list (map event_counts (filter (\<lambda>e. (day_of (ev_StartedAt e), ev_Model e) = g) (live_events a since db)))"
proof -
  let ?grp = "\<lambda>e. (day_of (ev_StartedAt e), ev_Model e)"
  let ?es = "live_events a since db"
  let ?F = "\<lambda>g. sum_list (map event_counts (filter (\<lambda>e. ?grp e = g) ?es))"
  have "?F g = 0" if "g \<notin> set (map ?grp ?es)"
  proof -
    have "filter (\<lambda>e. ?grp e = g) ?es = []" using that by (auto simp: filter_empty_conv)
    then show ?thesis by (simp only: list.map sum_list.Nil)
  qed
  then have "line_total (map (\<lambda>g. (g, ?F g)) (remdups (map ?grp ?es))) g = ?F g"
    by (subst group_lines) (simp_all only: distinct_remdups set_remdups if_split_mem1, simp)
  then show ?thesis
    by (simp only: usage_lines_def Let_def line_total_append)
qed

lemma line_total_ledger: "line_total (usage_lines a since db) g = ledger (line_keys a since g) db"
  by (simp only: line_total_split daily_lines live_sum ledger_def)

text \<open>
  What a report of an account has to be: one row for every day and model under which the account has
  a daily total or a finished event outside the totals, later days first and models in their order,
  each with the sums over exactly these totals and events.
\<close>

definition own_report :: "bytes \<Rightarrow> date \<Rightarrow> UsageDaily list \<Rightarrow> UsageEvent list \<Rightarrow> PortalUsage list \<Rightarrow> bool" where
  "own_report a since ds es rows \<longleftrightarrow>
     (let totals = filter (\<lambda>d. day_AccountID d = a \<and> since \<le> day_Day d) ds;
          left = filter (\<lambda>e. ev_AccountID e = a \<and> since \<le> day_of (ev_StartedAt e) \<and>
            ev_State e \<noteq> ''pending'' \<and> ev_RolledUpAt e = None) es
      in (\<lambda>r. (pu_Day r, pu_Model r)) ` set rows =
           (\<lambda>d. (day_Day d, day_Model d)) ` set totals \<union> (\<lambda>e. (day_of (ev_StartedAt e), ev_Model e)) ` set left \<and>
         sorted_wrt (\<lambda>r r'. pu_Day r' < pu_Day r \<or> pu_Day r = pu_Day r' \<and> pu_Model r < pu_Model r') rows \<and>
         list_all (\<lambda>r. pu_Counts r =
           sum_list (map day_counts (filter (\<lambda>d. day_Day d = pu_Day r \<and> day_Model d = pu_Model r) totals)) +
           sum_list (map event_counts (filter (\<lambda>e. day_of (ev_StartedAt e) = pu_Day r \<and> ev_Model e = pu_Model r) left))) rows)"

lemma line_total_map: "line_total (map (\<lambda>x. (k x, c x)) xs) g = sum_list (map c (filter (\<lambda>x. k x = g) xs))"
  by (induction xs) (auto simp: line_total_def)

lemma left_events:
  "live_events a since db = filter (\<lambda>e. ev_AccountID e = a \<and> since \<le> day_of (ev_StartedAt e) \<and>
     ev_State e \<noteq> ''pending'' \<and> ev_RolledUpAt e = None) (db_events db)"
  by (simp add: live_events_def terminal_unrolled_def conj_commute)

lemma report_keys_sorted: "sorted_wrt (\<lambda>g g'. fst g' < fst g \<or> fst g = fst g' \<and> snd g < snd g') (report_keys ls)"
  unfolding report_keys_def sorted_wrt_map
  by (rule sorted_wrt_mono_rel [OF _ strict_sorted_list_of_set]) (auto simp: less_prod_def' split: prod.splits)

lemma report_keys_set: "set (report_keys ls) = fst ` set ls"
  by (simp add: report_keys_def image_image)

lemma usage_report_own: "own_report a since (db_daily db) (db_events db) (usage_report a since db)"
proof -
  let ?ls = "usage_lines a since db"
  have keys: "(\<lambda>r. (pu_Day r, pu_Model r)) ` set (usage_report a since db) = fst ` set ?ls"
    by (simp add: usage_report_def Let_def image_image report_keys_set)
  have lines: "fst ` set ?ls =
      (\<lambda>d. (day_Day d, day_Model d)) ` set (filter (\<lambda>d. day_AccountID d = a \<and> since \<le> day_Day d) (db_daily db)) \<union>
      (\<lambda>e. (day_of (ev_StartedAt e), ev_Model e)) ` set (live_events a since db)"
    by (simp add: usage_lines_def Let_def image_Un image_image)
  have sorted: "sorted_wrt (\<lambda>r r'. pu_Day r' < pu_Day r \<or> pu_Day r = pu_Day r' \<and> pu_Model r < pu_Model r')
      (usage_report a since db)"
    using report_keys_sorted [of ?ls] by (simp add: usage_report_def Let_def sorted_wrt_map)
  have sums: "list_all (\<lambda>r. pu_Counts r =
       sum_list (map day_counts (filter (\<lambda>d. day_Day d = pu_Day r \<and> day_Model d = pu_Model r)
         (filter (\<lambda>d. day_AccountID d = a \<and> since \<le> day_Day d) (db_daily db)))) +
       sum_list (map event_counts (filter (\<lambda>e. day_of (ev_StartedAt e) = pu_Day r \<and> ev_Model e = pu_Model r)
         (live_events a since db)))) (usage_report a since db)"
    unfolding usage_report_def Let_def list.pred_map line_total_split line_total_map
    by (simp add: list_all_iff prod_eq_iff)
  show ?thesis
    unfolding own_report_def Let_def left_events [of a since db, symmetric] keys lines
    using sorted sums by simp
qed

lemma usage_line_keys:
  "fst ` set (usage_lines a since db) =
     (\<lambda>k. (fst k, snd (snd (snd k)))) ` {k \<in> ledger_keys db. fst (snd k) = a \<and> since \<le> fst k}"
proof -
  let ?pick = "\<lambda>k :: ledger_key. (fst k, snd (snd (snd k)))"
  let ?R = "\<lambda>k :: ledger_key. fst (snd k) = a \<and> since \<le> fst k"
  have "fst ` set (usage_lines a since db) =
      ?pick ` daily_key ` {d \<in> set (db_daily db). ?R (daily_key d)} \<union> ?pick ` event_key ` set (live_events a since db)"
    by (simp add: usage_lines_def Let_def image_Un image_image daily_key_def event_key_def)
  moreover have "daily_key ` {d \<in> set (db_daily db). ?R (daily_key d)} = {k \<in> daily_key ` set (db_daily db). ?R k}"
    by blast
  moreover have "event_key ` set (live_events a since db) =
      {k \<in> event_key ` set (filter terminal_unrolled (db_events db)). ?R k}"
    by (auto simp: live_events_def event_key_def)
  moreover have "{k \<in> ledger_keys db. ?R k} = {k \<in> daily_key ` set (db_daily db). ?R k} \<union>
      {k \<in> event_key ` set (filter terminal_unrolled (db_events db)). ?R k}"
    unfolding ledger_keys_def by blast
  ultimately show ?thesis by (simp only: image_Un)
qed

lemma report_cong:
  assumes "\<And>P. ledger P db' = ledger P db" and "ledger_keys db' = ledger_keys db"
  shows "usage_report a since db' = usage_report a since db"
proof -
  have "fst ` set (usage_lines a since db') = fst ` set (usage_lines a since db)"
    by (simp add: usage_line_keys assms(2))
  then have "(\<lambda>g. (- fst g, snd g)) ` fst ` set (usage_lines a since db') =
      (\<lambda>g. (- fst g, snd g)) ` fst ` set (usage_lines a since db)"
    by (rule arg_cong)
  then have "report_keys (usage_lines a since db') = report_keys (usage_lines a since db)"
    by (simp only: report_keys_def image_image)
  then show ?thesis by (simp add: usage_report_def Let_def line_total_ledger assms(1))
qed

lemma report_tables:
  "db_events db' = db_events db \<Longrightarrow> db_daily db' = db_daily db \<Longrightarrow>
     usage_report a since db' = usage_report a since db"
  by (simp add: usage_report_def usage_lines_def live_events_def)

lemma rollup_report:
  assumes "db_ok db" and "RollupUsageBatch now limit locked db = Inr (n, db')"
  shows "usage_report a since db' = usage_report a since db"
  by (rule report_cong) (simp_all only: ledger_keys_def rollup_spec(1,3) [OF assms])

lemma delete_report:
  assumes "db_ok db" and "DeleteOldUsageBatch before limit db = Inr (n, db')"
  shows "usage_report a since db' = usage_report a since db"
  by (rule report_cong) (simp_all only: ledger_keys_def ledger_def delete_spec [OF assms])

lemma rollup_loop_report:
  assumes "db_ok db"
  shows "usage_report a since (snd (snd (rollup_loop nows fts locks i db))) = usage_report a since db"
proof -
  let ?Q = "\<lambda>d. db_ok d \<and> usage_report a since d = usage_report a since db"
  have "?Q (snd (snd (rollup_loop nows fts locks i db)))"
    by (rule rollup_loop_keeps [where Q = ?Q])
      (use assms in \<open>auto intro: RollupUsageBatch_ok simp: rollup_report\<close>)
  then show ?thesis ..
qed

lemma delete_loop_report:
  assumes "db_ok db"
  shows "usage_report a since (snd (delete_loop nows fts i db)) = usage_report a since db"
proof -
  let ?Q = "\<lambda>d. db_ok d \<and> usage_report a since d = usage_report a since db"
  have "?Q (snd (delete_loop nows fts i db))"
    by (rule delete_loop_keeps [where Q = ?Q])
      (use assms in \<open>auto intro: DeleteOldUsageBatch_ok simp: delete_report\<close>)
  then show ?thesis ..
qed

subsection \<open>What a run leaves behind\<close>

lemma filter_not_taken:
  assumes "distinct (map f xs)"
  shows "filter (\<lambda>x. f x \<notin> f ` set (take k xs)) xs = drop k xs"
proof -
  have d: "distinct (map f (take k xs) @ map f (drop k xs))"
    using assms by (simp flip: map_append)
  then have "filter (\<lambda>x. f x \<notin> f ` set (take k xs)) (drop k xs) = drop k xs"
    by (auto simp: filter_id_conv)
  moreover have "filter (\<lambda>x. f x \<notin> f ` set (take k xs)) (take k xs) = []"
    by (auto simp: filter_empty_conv)
  ultimately show ?thesis by (metis append_take_drop_id filter_append append_Nil)
qed

lemma length_filter_sort: "length (filter Q (sort_key f xs)) = length (filter Q xs)"
  by (simp add: filter_sort)

lemma sort_key_Nil [simp]: "sort_key f xs = [] \<longleftrightarrow> xs = []"
  by (metis length_0_conv length_sort)

lemma none_claimed: "X \<subseteq> S \<Longrightarrow> (\<forall>x\<in>S. f x \<notin> f ` X) \<longleftrightarrow> X = {}"
  by blast

text \<open>A batch claims as many events as its limit allows, or all that wait and are not held by others.\<close>

definition claimable :: "(bytes \<Rightarrow> bool) \<Rightarrow> database \<Rightarrow> nat" where
  "claimable locked db = length (filter (\<lambda>e. terminal_unrolled e \<and> \<not> locked (ev_RequestID e)) (db_events db))"

lemma claimable_le: "claimable locked db \<le> unrolled db"
proof -
  have "filter (\<lambda>e. terminal_unrolled e \<and> \<not> locked (ev_RequestID e)) (db_events db) =
      filter (\<lambda>e. \<not> locked (ev_RequestID e)) (filter terminal_unrolled (db_events db))" by (simp add: conj_commute)
  then show ?thesis unfolding claimable_def unrolled_def by (simp only: length_filter_le)
qed

lemma claimable_all [simp]: "claimable (\<lambda>_. False) db = unrolled db"
  by (simp add: claimable_def unrolled_def)

lemma rollup_claims:
  assumes "db_ok db" and r: "RollupUsageBatch now limit locked db = Inr (n, db')"
  shows "unrolled db' + min limit (claimable locked db) = unrolled db" and "0 < limit \<Longrightarrow> n = 0 \<longleftrightarrow> claimable locked db = 0"
proof -
  let ?W = "filter (\<lambda>e. terminal_unrolled e \<and> \<not> locked (ev_RequestID e)) (db_events db)"
  let ?T = "sort_key ev_StartedAt ?W"
  let ?I = "set (claimed_ids limit locked db)"
  have I: "?I = ev_RequestID ` set (take limit ?T)" by (simp add: claimed_ids_def)
  have uniq: "distinct (map ev_RequestID (db_events db))" using assms(1) by (simp add: db_ok_defs)
  then have "distinct (map ev_RequestID ?W)" by (rule distinct_map_filter)
  then have d: "distinct (map ev_RequestID ?T)" by (simp add: distinct_map)
  let ?U = "filter terminal_unrolled (db_events db)"
  have W: "?W = filter (\<lambda>e. \<not> locked (ev_RequestID e)) ?U" by (simp add: conj_commute)
  have split: "length (filter Q ?U) = length (filter Q ?W) + length (filter Q (filter (\<lambda>e. locked (ev_RequestID e)) ?U))" for Q
    using sum_length_filter_compl [of "\<lambda>e. locked (ev_RequestID e)" "filter Q ?U"]
    by (simp add: conj_commute conj_left_commute)
  have held: "ev_RequestID e \<notin> ?I" if "locked (ev_RequestID e)" for e
    using that unfolding I by (auto dest!: in_set_takeD)
  have "unrolled db' = length (filter (\<lambda>e. terminal_unrolled e \<and> ev_RequestID e \<notin> ?I) (db_events db))"
    using r by (auto simp: unrolled_def RollupUsageBatch_def Let_def mark_claimed split: sum.splits)
  also have "\<dots> = length (filter (\<lambda>e. ev_RequestID e \<notin> ?I) ?U)"
    by (simp add: filter_filter conj_commute)
  also have "\<dots> = length (filter (\<lambda>e. ev_RequestID e \<notin> ?I) ?W) +
      length (filter (\<lambda>e. ev_RequestID e \<notin> ?I) (filter (\<lambda>e. locked (ev_RequestID e)) ?U))"
    by (rule split)
  also have "filter (\<lambda>e. ev_RequestID e \<notin> ?I) (filter (\<lambda>e. locked (ev_RequestID e)) ?U) =
      filter (\<lambda>e. locked (ev_RequestID e)) ?U"
    by (rule filter_True) (simp add: held)
  also have "length (filter (\<lambda>e. ev_RequestID e \<notin> ?I) ?W) = length (filter (\<lambda>e. ev_RequestID e \<notin> ?I) ?T)"
    by (simp only: length_filter_sort)
  also have "\<dots> = claimable locked db - limit"
    unfolding I filter_not_taken [OF d] by (simp add: claimable_def)
  finally have u: "unrolled db' = claimable locked db - limit + length (filter (\<lambda>e. locked (ev_RequestID e)) ?U)" .
  have "unrolled db = claimable locked db + length (filter (\<lambda>e. locked (ev_RequestID e)) ?U)"
    using split [of "\<lambda>_. True"] by (simp add: unrolled_def claimable_def)
  with u show "unrolled db' + min limit (claimable locked db) = unrolled db" by simp
  show "n = 0 \<longleftrightarrow> claimable locked db = 0" if "0 < limit"
  proof -
    from r have "n = 0 \<longleftrightarrow> filter (\<lambda>e. ev_RequestID e \<in> ?I) (db_events db) = []"
      by (auto simp: RollupUsageBatch_def Let_def split: sum.splits)
    also have "\<dots> \<longleftrightarrow> ?I = {}"
    proof -
      have "set (take limit ?T) \<subseteq> set (db_events db)"
        using set_take_subset [of limit ?T] by simp blast
      then show ?thesis unfolding I filter_empty_conv by (simp only: none_claimed image_is_empty)
    qed
    also have "\<dots> \<longleftrightarrow> claimable locked db = 0" using that by (simp add: I claimable_def)
    finally show ?thesis .
  qed
qed

text \<open>A batch that claimed nothing leaves the waiting events to their holders.\<close>

lemma rollup_nothing:
  assumes "db_ok db" and r: "RollupUsageBatch now limit locked db = Inr (0, db')" and "0 < limit"
  shows "list_all (\<lambda>e. terminal_unrolled e \<longrightarrow> locked (ev_RequestID e)) (db_events db')"
proof -
  have W: "filter (\<lambda>e. terminal_unrolled e \<and> \<not> locked (ev_RequestID e)) (db_events db) = []"
    using rollup_claims(2) [OF assms(1) r assms(3)] by (simp add: claimable_def)
  then have "claimed_ids limit locked db = []" by (simp add: claimed_ids_def)
  then have "db_events db' = db_events db"
    using r by (auto simp: RollupUsageBatch_def Let_def split: sum.splits)
  with W show ?thesis by (auto simp: list_all_iff filter_empty_conv)
qed

text \<open>The first loop with any faults and any rows held by others.\<close>

lemma rollup_loop_bounds:
  assumes "db_ok db" and "rollup_loop nows fts locks i db = (err, j, db')"
  shows "i < j" and "unrolled db' \<le> unrolled db" and "j \<le> i + (unrolled db - unrolled db') + 1"
    and "unrolled db - unrolled db' \<le> 1000 * (j - i)"
    and "err = None \<Longrightarrow> list_all (\<lambda>e. terminal_unrolled e \<longrightarrow> locks (j - 1) (ev_RequestID e)) (db_events db')"
proof -
  have "i < j \<and> unrolled db' \<le> unrolled db \<and> j \<le> i + (unrolled db - unrolled db') + 1 \<and>
      unrolled db - unrolled db' \<le> 1000 * (j - i) \<and>
      (err = None \<longrightarrow> list_all (\<lambda>e. terminal_unrolled e \<longrightarrow> locks (j - 1) (ev_RequestID e)) (db_events db'))"
    using assms
  proof (induction "unrolled db" arbitrary: i db rule: less_induct)
    case less
    let ?stmt = "RollupUsageBatch (nows i) rollupBatchSize (locks i)"
    obtain r d where e: "exec (fts i) ?stmt db = (r, d)" by fastforce
    have size: "rollupBatchSize = 1000" by (simp add: rollupBatchSize_def)
    have claims: "unrolled d' + min 1000 (claimable (locks i) db) = unrolled db" if "?stmt db = Inr (n, d')" for n d'
      using rollup_claims(1) [OF less(2) that] by (simp add: size)
    show ?case
    proof (cases r)
      case (Inl x)
      then have "\<exists>y. err = Some y" "j = Suc i" "db' = d"
        using less(3) e by (auto simp: rollup_loop.simps [of _ _ _ i db])
      moreover have "unrolled d \<le> unrolled db \<and> unrolled db - unrolled d \<le> 1000"
      proof (cases "d = db")
        case False
        then obtain n where "?stmt db = Inr (n, d)" using e Inl by (auto simp: exec_def split: fault.splits sum.splits)
        from claims [OF this] show ?thesis by linarith
      qed simp
      ultimately show ?thesis by auto
    next
      case (Inr n)
      with e have b: "?stmt db = Inr (n, d)" by (simp add: exec_Inr)
      note c = claims [OF b] and z = rollup_claims(2) [OF less(2) b, unfolded size]
      show ?thesis
      proof (cases "n = 0")
        case True
        with e Inr less(3) have r: "err = None" "j = Suc i" "db' = d" by (simp_all add: rollup_loop.simps [of _ _ _ i db])
        with rollup_nothing [OF less(2) b [unfolded True]] c z True show ?thesis by (auto simp: size)
      next
        case False
        with e Inr less(3) have l: "rollup_loop nows fts locks (Suc i) d = (err, j, db')"
          by (simp add: rollup_loop.simps [of _ _ _ i db])
        have "0 < claimable (locks i) db" using z False by simp
        with less(1) [OF rollup_progress [OF b False] RollupUsageBatch_ok [OF less(2) b] l] c
        show ?thesis by (auto simp: min_def split: if_splits)
      qed
    qed
  qed
  then show "i < j" "unrolled db' \<le> unrolled db" "j \<le> i + (unrolled db - unrolled db') + 1"
    "unrolled db - unrolled db' \<le> 1000 * (j - i)"
    "err = None \<Longrightarrow> list_all (\<lambda>e. terminal_unrolled e \<longrightarrow> locks (j - 1) (ev_RequestID e)) (db_events db')"
    by blast+
qed

lemma rollup_batch:
  assumes "db_ok db" and r: "RollupUsageBatch now limit (\<lambda>_. False) db = Inr (n, db')"
  shows "unrolled db' = unrolled db - limit" and "0 < limit \<Longrightarrow> n = 0 \<longleftrightarrow> unrolled db = 0"
  using rollup_claims [OF assms] by (auto simp: min_def split: if_splits)

text \<open>The number of statements of the first loop, when nothing else holds rows.\<close>

lemma rollup_loop_statements:
  assumes "db_ok db" and "rollup_loop nows fts (\<lambda>_ _. False) i db = (None, j, db')"
  shows "j = i + (unrolled db + 999) div 1000 + 1"
  using assms
proof (induction nows fts "\<lambda>_ :: nat. \<lambda>_ :: bytes. False" i db rule: rollup_loop.induct)
  case (1 nows fts i db)
  let ?exec = "exec (fts i) (RollupUsageBatch (nows i) rollupBatchSize (\<lambda>_. False)) db"
  obtain r d where e: "?exec = (r, d)" by fastforce
  with 1(3) obtain n where r: "r = Inr n"
    by (cases r) (auto simp: rollup_loop.simps [of _ _ _ i db])
  with e have b: "RollupUsageBatch (nows i) rollupBatchSize (\<lambda>_. False) db = Inr (n, d)"
    by (simp add: exec_Inr)
  note batch = rollup_batch [OF 1(2) b]
  have size: "rollupBatchSize = 1000" by (simp add: rollupBatchSize_def)
  show ?case
  proof (cases "n = 0")
    case True
    with e r 1(3) have "j = Suc i" by (simp add: rollup_loop.simps [of _ _ _ i db])
    moreover have "unrolled db = 0" using batch(2) True size by simp
    ultimately show ?thesis by simp
  next
    case False
    with e r 1(3) have "rollup_loop nows fts (\<lambda>_ _. False) (Suc i) d = (None, j, db')"
      by (simp add: rollup_loop.simps [of _ _ _ i db])
    from 1(1) [OF e [symmetric] r False RollupUsageBatch_ok [OF 1(2) b] this]
    have "j = Suc i + (unrolled db - 1000 + 999) div 1000 + 1" by (simp only: batch(1) size)
    moreover have "0 < unrolled db" using batch(2) False size by simp
    then have "(unrolled db + 999) div 1000 = Suc ((unrolled db - 1000 + 999) div 1000)"
      by (cases "1000 \<le> unrolled db") (simp_all add: div_if)
    ultimately show ?thesis by simp
  qed
qed

text \<open>The second loop ends when a batch finds nothing, and only takes rows away.\<close>

lemma delete_rows:
  assumes "DeleteOldUsageBatch before limit db = Inr (n, db')"
  shows "db' = db\<lparr>db_events := db_events db'\<rparr>" and "set (db_events db') \<subseteq> set (db_events db)"
    and "n = 0 \<Longrightarrow> 0 < limit \<Longrightarrow> list_all (\<lambda>e. ev_RolledUpAt e = None \<or> before \<le> ev_StartedAt e) (db_events db')"
proof -
  let ?O = "filter (\<lambda>e. ev_RolledUpAt e \<noteq> None \<and> ev_StartedAt e < before) (db_events db)"
  have n: "n = length (filter (\<lambda>e. ev_RequestID e \<in> set (old_ids before limit db)) (db_events db))"
    and d: "db' = db\<lparr>db_events := filter (\<lambda>e. ev_RequestID e \<notin> set (old_ids before limit db)) (db_events db)\<rparr>"
    using assms by (simp_all add: DeleteOldUsageBatch_def Let_def)
  then show "db' = db\<lparr>db_events := db_events db'\<rparr>" "set (db_events db') \<subseteq> set (db_events db)" by auto
  show "list_all (\<lambda>e. ev_RolledUpAt e = None \<or> before \<le> ev_StartedAt e) (db_events db')" if "n = 0" "0 < limit"
  proof -
    have "set (take limit (sort_key ev_StartedAt ?O)) \<subseteq> set (db_events db)"
      using set_take_subset [of limit "sort_key ev_StartedAt ?O"] by simp blast
    moreover have "filter (\<lambda>e. ev_RequestID e \<in> ev_RequestID ` set (take limit (sort_key ev_StartedAt ?O))) (db_events db) = []"
      using n that(1) by (simp add: old_ids_def)
    ultimately have "set (take limit (sort_key ev_StartedAt ?O)) = {}"
      unfolding filter_empty_conv by (simp only: none_claimed)
    then have "take limit (sort_key ev_StartedAt ?O) = []" by (simp only: set_empty)
    with that(2) have "sort_key ev_StartedAt ?O = []" by simp
    then have "set ?O = {}" by (metis list.set(1) set_sort)
    then show ?thesis unfolding d by (auto simp: list_all_iff not_less)
  qed
qed

lemma delete_loop_done:
  assumes "delete_loop nows fts i db = (None, db')"
  shows "\<exists>k\<ge>i. list_all (\<lambda>e. ev_RolledUpAt e = None \<or> nows k - usageRetention \<le> ev_StartedAt e) (db_events db')"
  using assms
proof (induction "length (db_events db)" arbitrary: i db rule: less_induct)
  case less
  obtain r d where e: "exec (fts i) (DeleteOldUsageBatch (nows i - usageRetention) deleteBatchSize) db = (r, d)"
    by fastforce
  with less(2) obtain n where r: "r = Inr n"
    by (cases r) (auto simp: delete_loop.simps [of _ _ i db])
  with e have b: "DeleteOldUsageBatch (nows i - usageRetention) deleteBatchSize db = Inr (n, d)"
    by (simp add: exec_Inr)
  show ?case
  proof (cases "n = 0")
    case True
    with less(2) e r have "db' = d" by (simp add: delete_loop.simps [of _ _ i db])
    with delete_rows(3) [OF b True] show ?thesis by (intro exI [of _ i]) (simp add: deleteBatchSize_def)
  next
    case False
    with less(2) e r have "delete_loop nows fts (Suc i) d = (None, db')"
      by (simp add: delete_loop.simps [of _ _ i db])
    from less(1) [OF delete_progress [OF b False] this] show ?thesis by (metis Suc_leD)
  qed
qed

end
