(* ===== verification/Account_Runs.thy ===== *)
theory Account_Runs
  imports Reports "HOL-Library.Sublist"
begin

text \<open>
  The account database as a transition system: a step is one committed statement or transaction
  of the store, so a run is any interleaving of the statements of any number of gateways. Every
  operation of the store is such a run, whatever calls are lost on the way; what every step
  preserves therefore holds under every interleaving of the operations.
\<close>

subsection \<open>Steps\<close>

inductive db_step :: "storeEnv \<Rightarrow> database \<Rightarrow> database \<Rightarrow> bool" for env where
  step_signup: "run_tx fts 1 (signup_statements env now rnd email name h) db = Inr db' \<Longrightarrow> db_step env db db'"
| step_create_key: "CreateAPIKey now i a u name h db = Inr db' \<Longrightarrow> db_step env db db'"
| step_revoke_key: "RevokeAPIKey now i db = Inr (n, db') \<Longrightarrow> db_step env db db'"
| step_price: "SetModelPrice now i m x y db = Inr db' \<Longrightarrow> db_step env db db'"
| step_begin: "BeginUsage now r a k m db = Inr db' \<Longrightarrow> db_step env db db'"
| step_finish: "FinishUsage now b h st p c r db = Inr (n, db') \<Longrightarrow>
    st \<in> {''complete'', ''incomplete'', ''failed''} \<Longrightarrow> db_step env db db'"
| step_count: "count_attempt now email db = Inr (n, db') \<Longrightarrow> db_step env db db'"
| step_session: "insert_session now h u a db = Inr db' \<Longrightarrow> db_step env db db'"
| step_reset: "delete_attempts email db = Inr db' \<Longrightarrow> db_step env db db'"
| step_end_sessions: "db_step env db (db\<lparr>db_sessions := filter P (db_sessions db)\<rparr>)"
| step_end_windows: "db_step env db (db\<lparr>db_attempts := filter P (db_attempts db)\<rparr>)"
| step_expire: "db_step env db (ExpirePendingUsage now db)"
| step_rollup: "RollupUsageBatch now limit locked db = Inr (n, db') \<Longrightarrow> db_step env db db'"
| step_delete: "DeleteOldUsageBatch before limit db = Inr (n, db') \<Longrightarrow> db_step env db db'"

abbreviation db_run :: "storeEnv \<Rightarrow> database \<Rightarrow> database \<Rightarrow> bool" where
  "db_run env \<equiv> (db_step env)\<^sup>*\<^sup>*"

lemma db_run_step [intro]: "db_run env db d \<Longrightarrow> db_step env d d' \<Longrightarrow> db_run env db d'"
  by simp

lemma db_run_invariant:
  assumes "db_run env db db'" and "Q db" and "\<And>d d'. Q d \<Longrightarrow> db_step env d d' \<Longrightarrow> Q d'"
  shows "Q db'"
  using assms by (induction rule: rtranclp_induct) auto

lemma signup_statements_ok:
  "list_all (\<lambda>stmt. \<forall>d d'. db_ok d \<longrightarrow> stmt d = Inr d' \<longrightarrow> db_ok d')
     (signup_statements env now rnd email name h)"
  unfolding signup_statements_def list.pred_inject
  by (intro conjI list.pred_inject(1) allI impI)
    (erule (1) CreateUser_ok insert_password_ok CreateAccount_ok AddAccountOwner_ok CreateAPIKey_ok
      insert_session_ok)+

lemma db_step_ok: "db_step env db db' \<Longrightarrow> db_ok db \<Longrightarrow> db_ok db'"
proof (induction rule: db_step.induct)
  case (step_signup fts now rnd email name h db db')
  from run_tx_ok [of db_ok, OF step_signup(2,1) signup_statements_ok] show ?case .
next
  case (step_finish now b h st p c r db n db')
  then have "st \<noteq> ''pending''" by auto
  with step_finish FinishUsage_ok show ?case by blast
qed (blast intro: CreateAPIKey_ok RevokeAPIKey_ok SetModelPrice_ok BeginUsage_ok count_attempt_ok
    insert_session_ok delete_attempts_ok purge_sessions_ok purge_attempts_ok ExpirePendingUsage_ok
    RollupUsageBatch_ok DeleteOldUsageBatch_ok)+

lemma db_run_ok: "db_run env db db' \<Longrightarrow> db_ok db \<Longrightarrow> db_ok db'"
  by (erule db_run_invariant) (auto intro: db_step_ok)

subsection \<open>Every operation is a run\<close>

lemma exec_run:
  assumes "db_run env db d" and "\<And>x d'. stmt d = Inr (x, d') \<Longrightarrow> db_step env d d'"
  shows "db_run env db (snd (exec ft stmt d))"
  by (rule exec_ok [where P = "db_run env db", OF assms(1)]) (use assms in auto)

lemma exec_unit_run:
  assumes "db_run env db d" and "\<And>d'. stmt d = Inr d' \<Longrightarrow> db_step env d d'"
  shows "db_run env db (snd (exec_unit ft stmt d))"
  by (rule exec_unit_ok [where P = "db_run env db", OF assms(1)]) (use assms in auto)

lemma Signup_db:
  "snd (Signup env now rnd fts email name password db) = db \<or>
   (\<exists>h. run_tx fts 1 (signup_statements env now rnd (normalize_email env email) (trimSpace name) h) db =
     Inr (snd (Signup env now rnd fts email name password db)))"
  by (auto simp: Signup_def Let_def exec_unit_def exec_def split: sum.split fault.split prod.split)

lemma Signup_run: "db_run env db (snd (Signup env now rnd fts email name password db))"
  using Signup_db [of env now rnd fts email name password db]
proof (elim disjE exE)
  fix h
  assume "run_tx fts 1 (signup_statements env now rnd (normalize_email env email) (trimSpace name) h) db =
     Inr (snd (Signup env now rnd fts email name password db))"
  from db_step.step_signup [OF this] show ?thesis ..
qed simp

lemma IssueKey_run: "db_run env db (snd (IssueKey env now keyID secret fts a name db))"
proof -
  have "db_run env db (snd (exec_unit (fts 1) (CreateAPIKey now keyID a u (trimSpace name) h) db))" for u h
    by (rule exec_unit_run [OF rtranclp.rtrancl_refl db_step.step_create_key])
  then show ?thesis by (simp add: IssueKey_def Let_def case_prod_beta' split: sum.split)
qed

lemma RevokeKey_run: "db_run env db (snd (RevokeKey now ft keyID db))"
proof -
  have "db_run env db (snd (exec ft (RevokeAPIKey now keyID) db))"
    by (rule exec_run [OF rtranclp.rtrancl_refl db_step.step_revoke_key])
  then show ?thesis by (simp add: RevokeKey_def case_prod_beta' split: sum.split)
qed

lemma Store_BeginUsage_run: "db_run env db (snd (Store_BeginUsage now ft start db))"
proof -
  have "db_run env db (snd (exec_unit ft (BeginUsage now r a k m) db))" for r a k m
    by (rule exec_unit_run [OF rtranclp.rtrancl_refl db_step.step_begin])
  then show ?thesis by (simp add: Store_BeginUsage_def case_prod_beta' split: sum.split)
qed

lemma snd_case_rows:
  "snd (case r of (Inl e, d) \<Rightarrow> (f e, d) | (Inr n, d) \<Rightarrow> if q n then (x, d) else (y, d)) = snd r"
  by (cases r; cases "fst r") auto

lemma Store_FinishUsage_run: "db_run env db (snd (Store_FinishUsage now ft finish db))"
proof -
  have fin: "db_run env db (snd (exec ft (FinishUsage now b h (uf_Outcome finish) p c r) db))"
    if "uf_Outcome finish \<in> {''complete'', ''incomplete'', ''failed''}" for b h p c r
    by (rule exec_run) (auto intro: db_step.step_finish [OF _ that])
  let ?Q = "\<lambda>r. db_run env db (snd r)"
  show ?thesis
    unfolding Store_FinishUsage_def
  proof (rule if_intro [where Q = ?Q], goal_cases)
    case 2
    then have "uf_Outcome finish \<in> {''complete'', ''incomplete'', ''failed''}" by blast
    from fin [OF this] show ?case
      by - (rule if_intro [where Q = ?Q], simp_all add: snd_case_rows)
  qed simp
qed

lemma SetPrice_run: "db_run env db (snd (SetPrice now i ft m x y db))"
proof -
  have "db_run env db (snd (exec_unit ft (SetModelPrice now i m x y) db))" for m x y
    by (rule exec_unit_run [OF rtranclp.rtrancl_refl db_step.step_price])
  then show ?thesis by (simp add: SetPrice_def Let_def case_prod_beta' split: sum.split)
qed

lemma Login_run: "db_run env db (snd (Login env now random fts email password db))"
proof -
  let ?e = "normalize_email env email"
  obtain r1 db1 where 1: "exec (fts 0) (count_attempt now ?e) db = (r1, db1)" by fastforce
  have "db_run env db (snd (exec (fts 0) (count_attempt now ?e) db))"
    by (rule exec_run [OF rtranclp.rtrancl_refl db_step.step_count])
  with 1 have run1: "db_run env db db1" by simp
  have run2: "db_run env db (snd (exec_unit (fts 2) (insert_session now d u a) db1))" for d u a
    by (rule exec_unit_run [OF run1 db_step.step_session])
  have run3: "db_run env db (snd (exec_unit (fts 3) (delete_attempts ?e) d))" if "db_run env db d" for d
    by (rule exec_unit_run [OF that db_step.step_reset])
  show ?thesis
    using 1 run1 run2 run3 by (simp add: Login_def Let_def case_prod_beta' split: sum.split)
qed

lemma Logout_run: "db_run env db (snd (Logout env ft token db))"
  by (auto simp: Logout_def exec_unit_def exec_def intro: db_step.step_end_sessions
      split: option.split fault.split)

lemma rollup_loop_run: "db_run env db (snd (snd (rollup_loop nows fts locks i db)))"
  by (rule rollup_loop_keeps [where Q = "db_run env db"]) (auto intro: db_step.step_rollup)

lemma delete_loop_run: "db_run env db (snd (delete_loop nows fts i db))"
  by (rule delete_loop_keeps [where Q = "db_run env db"]) (auto intro: db_step.step_delete)

lemma Maintain_run: "db_run env db (snd (Maintain nows fts locks db))"
proof -
  let ?s = "\<lambda>db. Inr (db\<lparr>db_sessions := filter (\<lambda>s. \<not> ses_ExpiresAt s < nows 0) (db_sessions db)\<rparr>)"
  let ?a = "\<lambda>db. Inr (db\<lparr>db_attempts :=
    filter (\<lambda>a. \<not> la_WindowStarted a < nows (Suc 0) - login_window) (db_attempts db)\<rparr>)"
  let ?x = "\<lambda>db. Inr (ExpirePendingUsage (nows 2) db)"
  obtain r1 d1 where 1: "exec_unit (fts 0) ?s db = (r1, d1)" by fastforce
  obtain r2 d2 where 2: "exec_unit (fts (Suc 0)) ?a d1 = (r2, d2)" by fastforce
  obtain r3 d3 where 3: "exec_unit (fts 2) ?x d2 = (r3, d3)" by fastforce
  obtain r4 i d4 where 4: "rollup_loop nows fts locks 3 d3 = (r4, i, d4)" by (metis prod_cases3)
  have "db_run env db (snd (exec_unit (fts 0) ?s db))"
    by (rule exec_unit_run) (auto intro: db_step.step_end_sessions)
  then have run1: "db_run env db d1" unfolding 1 snd_conv .
  then have "db_run env db (snd (exec_unit (fts (Suc 0)) ?a d1))"
    by (rule exec_unit_run) (auto intro: db_step.step_end_windows)
  then have run2: "db_run env db d2" unfolding 2 snd_conv .
  then have "db_run env db (snd (exec_unit (fts 2) ?x d2))"
    by (rule exec_unit_run) (auto intro: db_step.step_expire)
  then have run3: "db_run env db d3" unfolding 3 snd_conv .
  moreover have "db_run env d3 d4" using rollup_loop_run [of env d3 nows fts locks 3] by (simp add: 4)
  ultimately have run4: "db_run env db d4" by (rule rtranclp_trans)
  have "db_run env db (snd (delete_loop nows fts i d4))"
    using run4 delete_loop_run by (rule rtranclp_trans)
  with run1 run2 run3 run4 show ?thesis
    by (auto simp: Maintain_def 1 2 3 4 split: sum.split option.split)
qed

lemmas runs = Signup_run IssueKey_run RevokeKey_run Store_BeginUsage_run Store_FinishUsage_run
  SetPrice_run Login_run Logout_run Maintain_run

subsection \<open>What a step keeps\<close>

text \<open>A statement that keeps a property of the tables; the transaction keeps it too.\<close>

lemma signup_tx_keeps:
  assumes "run_tx fts i (signup_statements env now rnd email name h) db = Inr db'" and "Q db"
    and "\<And>d d' u e. Q d \<Longrightarrow> CreateUser now u e d = Inr d' \<Longrightarrow> Q d'"
    and "\<And>d d' u h. Q d \<Longrightarrow> insert_password u h d = Inr d' \<Longrightarrow> Q d'"
    and "\<And>d d' a n. Q d \<Longrightarrow> CreateAccount now a n d = Inr d' \<Longrightarrow> Q d'"
    and "\<And>d d' a u. Q d \<Longrightarrow> AddAccountOwner a u d = Inr d' \<Longrightarrow> Q d'"
    and "\<And>d d' i a u n h. Q d \<Longrightarrow> CreateAPIKey now i a u n h d = Inr d' \<Longrightarrow> Q d'"
    and "\<And>d d' h u a. Q d \<Longrightarrow> insert_session now h u a d = Inr d' \<Longrightarrow> Q d'"
  shows "Q db'"
  by (rule run_tx_ok [where P = Q, OF assms(2,1)], unfold signup_statements_def list.pred_inject,
    intro conjI list.pred_inject(1) allI impI) (erule (1) assms(3-8))+

text \<open>A key keeps its identity, and its revocation once it has one.\<close>

definition key_kept :: "ApiKey \<Rightarrow> database \<Rightarrow> bool" where
  "key_kept k db \<longleftrightarrow> (\<exists>k'\<in>set (db_keys db).
     key_ID k' = key_ID k \<and> key_AccountID k' = key_AccountID k \<and> key_TokenHash k' = key_TokenHash k \<and>
     (key_RevokedAt k \<noteq> None \<longrightarrow> key_RevokedAt k' = key_RevokedAt k))"

lemma key_kept_refl: "k \<in> set (db_keys db) \<Longrightarrow> key_kept k db"
  by (auto simp: key_kept_def)

lemma key_kept_same: "key_kept k d \<Longrightarrow> db_keys d' = db_keys d \<Longrightarrow> key_kept k d'"
  by (simp add: key_kept_def)

lemma key_kept_more: "key_kept k d \<Longrightarrow> set (db_keys d) \<subseteq> set (db_keys d') \<Longrightarrow> key_kept k d'"
  unfolding key_kept_def by blast

text \<open>The statements that leave the table of keys, or the tables of accounts, alone.\<close>

lemma keys_unchanged:
  "CreateUser now u e d = Inr d' \<Longrightarrow> db_keys d' = db_keys d"
  "insert_password u h d = Inr d' \<Longrightarrow> db_keys d' = db_keys d"
  "CreateAccount now a x d = Inr d' \<Longrightarrow> db_keys d' = db_keys d"
  "AddAccountOwner a u d = Inr d' \<Longrightarrow> db_keys d' = db_keys d"
  "insert_session now h u a d = Inr d' \<Longrightarrow> db_keys d' = db_keys d"
  "SetModelPrice now i m p q d = Inr d' \<Longrightarrow> db_keys d' = db_keys d"
  "BeginUsage now r a k m d = Inr d' \<Longrightarrow> db_keys d' = db_keys d"
  "FinishUsage now b hs st pt ct r d = Inr (n, d') \<Longrightarrow> db_keys d' = db_keys d"
  "count_attempt now e d = Inr (z, d') \<Longrightarrow> db_keys d' = db_keys d"
  "delete_attempts e d = Inr d' \<Longrightarrow> db_keys d' = db_keys d"
  "RollupUsageBatch now limit locked d = Inr (n, d') \<Longrightarrow> db_keys d' = db_keys d"
  "DeleteOldUsageBatch before limit d = Inr (n, d') \<Longrightarrow> db_keys d' = db_keys d"
  by (auto simp: inserts begins count_attempt_def delete_attempts_def
      RollupUsageBatch_def DeleteOldUsageBatch_def Let_def
      dest: FinishUsage_events(1) split: if_splits option.splits sum.splits)

lemma expire_unchanged [simp]:
  "db_keys (ExpirePendingUsage now d) = db_keys d" "db_prices (ExpirePendingUsage now d) = db_prices d"
  by (simp_all add: ExpirePendingUsage_def)

lemma key_kept_create: "key_kept k d \<Longrightarrow> CreateAPIKey now i a u n h d = Inr d' \<Longrightarrow> key_kept k d'"
  by (erule key_kept_more) (auto simp: inserts)

lemma key_kept_revoke:
  assumes "key_kept k d" and r: "RevokeAPIKey now i d = Inr (n, d')"
  shows "key_kept k d'"
proof -
  let ?f = "\<lambda>k. if key_ID k = i \<and> key_RevokedAt k = None then k\<lparr>key_RevokedAt := Some now\<rparr> else k"
  from assms(1) obtain k' where k': "k' \<in> set (db_keys d)" "key_ID k' = key_ID k"
    "key_AccountID k' = key_AccountID k" "key_TokenHash k' = key_TokenHash k"
    "key_RevokedAt k \<noteq> None \<longrightarrow> key_RevokedAt k' = key_RevokedAt k"
    by (auto simp: key_kept_def)
  have "?f k' \<in> set (db_keys d')" unfolding RevokeAPIKey_keys(1) [OF r] using k'(1) by simp
  moreover have "key_ID (?f k') = key_ID k" "key_AccountID (?f k') = key_AccountID k"
    "key_TokenHash (?f k') = key_TokenHash k" "key_RevokedAt k \<noteq> None \<longrightarrow> key_RevokedAt (?f k') = key_RevokedAt k"
    using k' by auto
  ultimately show ?thesis unfolding key_kept_def by blast
qed

lemma key_kept_step: "db_step env d d' \<Longrightarrow> key_kept k d \<Longrightarrow> key_kept k d'"
proof (induction rule: db_step.induct)
  case (step_signup fts now rnd email name h db db')
  from step_signup(1,2) show ?case
    by (rule signup_tx_keeps [where Q = "key_kept k"])
      (erule (1) key_kept_create | erule key_kept_same, erule keys_unchanged)+
next
  case step_revoke_key
  then show ?case by (blast intro: key_kept_revoke)
next
  case step_create_key
  then show ?case by (blast intro: key_kept_create)
qed (erule key_kept_same, erule keys_unchanged | simp add: key_kept_def)+

lemma key_kept_run: "db_run env d d' \<Longrightarrow> k \<in> set (db_keys d) \<Longrightarrow> key_kept k d'"
  by (erule db_run_invariant) (auto intro: key_kept_refl key_kept_step)

end
