(* ===== verification/Account_Ledger.thy ===== *)
theory Account_Ledger
  imports Account_Runs
begin

text \<open>
  The usage ledger: the integrity of the database under every interleaving, the life cycle of an
  event (pending, finished once, rolled up once, deleted only then), and the price a request is
  charged at, which is fixed when it begins.
\<close>

subsection \<open>A concrete ledger\<close>

text \<open>One account with a key, a model with a replaced price, and one request in flight.\<close>

definition ledger_event :: UsageEvent where
  "ledger_event = \<lparr>ev_RequestID = ''r'', ev_AccountID = ''a'', ev_KeyID = ''k'', ev_Model = ''m'',
     ev_Backend = [], ev_PriceID = Some ''p'', ev_StartedAt = 100, ev_FinishedAt = None,
     ev_State = ''pending'', ev_HttpStatus = None, ev_PromptTokens = None, ev_CompletionTokens = None,
     ev_EstimatedCostMicro = None, ev_RolledUpAt = None\<rparr>"

definition ledger_start :: database where
  "ledger_start = empty_db
     \<lparr>db_users := [\<lparr>usr_ID = ''u'', usr_Email = ''e'', usr_CreatedAt = 0\<rparr>],
      db_accounts := [\<lparr>acc_ID = ''a'', acc_Name = ''n'', acc_CreatedAt = 0\<rparr>],
      db_members := [\<lparr>mem_AccountID = ''a'', mem_UserID = ''u'', mem_Role = ''owner''\<rparr>],
      db_keys := [\<lparr>key_ID = ''k'', key_AccountID = ''a'', key_CreatedByUserID = ''u'', key_Name = ''n'',
        key_TokenHash = [], key_CreatedAt = 0, key_RevokedAt = None\<rparr>],
      db_prices := [\<lparr>price_ID = ''p'', price_Model = ''m'', price_InputRateMicroPerMillion = 3000000,
        price_OutputRateMicroPerMillion = 7500001, price_CreatedAt = 0\<rparr>,
        \<lparr>price_ID = ''z'', price_Model = ''m'', price_InputRateMicroPerMillion = 1,
        price_OutputRateMicroPerMillion = 1, price_CreatedAt = -5\<rparr>]\<rparr>"

definition ledger_db :: database where
  "ledger_db = ledger_start\<lparr>db_events := [ledger_event]\<rparr>"

definition ledger_finish :: UsageFinish where
  "ledger_finish = \<lparr>uf_RequestID = ''r'', uf_Backend = ''b'', uf_Status = 200, uf_Outcome = ''complete'',
     uf_PromptTokens = Some 10, uf_CompletionTokens = Some 1\<rparr>"

lemma ledger_texts: "text_ok ''r''" "text_ok ''a''" "text_ok ''k''" "text_ok ''m''" "text_ok ''b''"
  "text_ok ''complete''" by code_simp+

lemma ledger_begin:
  "Store_BeginUsage 100 Fine \<lparr>us_RequestID = ''r'', us_AccountID = ''a'', us_KeyID = ''k'', us_Model = ''m''\<rparr>
     ledger_start = (Inr (), ledger_db)"
  by (simp add: Store_BeginUsage_def exec_unit_def exec_def BeginUsage_def ledger_texts ledger_db_def
      ledger_start_def ledger_event_def empty_db_def)

lemma ledger_start_ok: "db_ok ledger_start"
  by (simp add: db_ok_defs ledger_start_def empty_db_def)

lemma ledger_db_ok: "db_ok ledger_db"
  using db_run_ok [OF Store_BeginUsage_run ledger_start_ok] by (metis ledger_begin snd_conv)

lemma ledger_row:
  "FinishUsage now ''b'' h ''complete'' (Some 10) (Some 1) ''r'' ledger_db =
     Inr (1, ledger_start\<lparr>db_events :=
       [finished_row (db_prices ledger_start) now ''b'' h ''complete'' (Some 10) (Some 1) ledger_event]\<rparr>)"
  by (simp add: FinishUsage_def ledger_texts ledger_db_def ledger_start_def ledger_event_def empty_db_def
      finished_row_def event_cost_def per_million_def bigint_ok_def event_check_def event_states_def Let_def)

lemma ledger_finished:
  "Store_FinishUsage 200 Fine ledger_finish ledger_db =
     (Inr (), ledger_start\<lparr>db_events :=
       [finished_row (db_prices ledger_start) 200 ''b'' (Some 200) ''complete'' (Some 10) (Some 1) ledger_event]\<rparr>)"
  by (simp add: Store_FinishUsage_def ledger_finish_def exec_def ledger_row int32_of_def)

subsection \<open>Integrity\<close>

text \<open>
  C1: Starting from the empty tables, every interleaving of the statements of all the store's
  operations keeps the database consistent: keys and foreign keys, prices and counts in range,
  events whose state and columns agree, one daily row per day, account, key and model.
\<close>
theorem database_integrity:
  assumes "db_run env empty_db db"
  shows "db_ok db"
  using assms empty_db_ok by (rule db_run_ok)

theorem database_integrity_witness:
  "db_ok (snd (SetPrice 0 ''p'' Fine ''m'' 1 2 empty_db))"
  by (rule database_integrity [OF SetPrice_run])

subsection \<open>Finishing a request\<close>

lemma Store_FinishUsage_Inr:
  assumes "Store_FinishUsage now ft f db = (Inr (), db')"
  obtains n where "FinishUsage now (uf_Backend f) (Some (int32_of (uf_Status f))) (uf_Outcome f)
      (map_option sint (uf_PromptTokens f)) (map_option sint (uf_CompletionTokens f)) (uf_RequestID f) db = Inr (n, db')"
    and "n = 1" and "uf_Outcome f \<in> {''complete'', ''incomplete'', ''failed''}"
proof -
  let ?s = "FinishUsage now (uf_Backend f) (Some (int32_of (uf_Status f))) (uf_Outcome f)
      (map_option sint (uf_PromptTokens f)) (map_option sint (uf_CompletionTokens f)) (uf_RequestID f)"
  obtain r d where e: "exec ft ?s db = (r, d)" by fastforce
  from assms e obtain n where "r = Inr n" "n = 1" "d = db'" "uf_Outcome f \<in> {''complete'', ''incomplete'', ''failed''}"
    by (cases r) (auto simp: Store_FinishUsage_def split: if_splits)
  with e that show thesis by (simp add: exec_Inr)
qed

lemma exec_idle:
  "stmt db \<in> {Inl e, Inr (n, db)} \<Longrightarrow> exec ft stmt db \<in> {(Inl e, db), (Inr n, db), (Inl Unavailable, db)}"
  by (cases ft) (auto simp: exec_def)

lemma finish_not_pending:
  assumes "list_all (\<lambda>e. \<not> (ev_RequestID e = uf_RequestID g \<and> ev_State e = ''pending'')) (db_events db)"
  shows "\<exists>x. Store_FinishUsage now ft g db = (Inl x, db)"
proof -
  have u: "update_rows P f rs = Inr (0, rs)" if "list_all (\<lambda>r. \<not> P r) rs" for P :: "UsageEvent \<Rightarrow> bool" and f rs
    using that by (induction rs) auto
  have "FinishUsage now b h st p c (uf_RequestID g) db \<in> {Inl BadText, Inr (0, db)}" for b h st p c
    unfolding FinishUsage_def u [OF assms] by simp
  then have "exec ft (FinishUsage now b h st p c (uf_RequestID g)) db \<in>
      {(Inl BadText, db), (Inr 0, db), (Inl Unavailable, db)}" for b h st p c
    by (rule exec_idle)
  moreover have "\<exists>x. (case r of (Inl e, d) \<Rightarrow> (Inl (DatabaseError e), d) | (Inr rows, d) \<Rightarrow>
      if rows \<noteq> 1 then (Inl (InvalidInput ''pending usage request not found''), d) else (Inr (), d)) = (Inl x, db)"
    if "r \<in> {(Inl BadText, db), (Inr (0 :: nat), db), (Inl Unavailable, db)}" for r
    using that by auto
  ultimately show ?thesis
    unfolding Store_FinishUsage_def by simp
qed

text \<open>
  A request is accounted for at most once: when it has been finished, finishing it again
  is an error and changes nothing, whatever the second call reports.
\<close>
theorem finished_once:
  assumes "Store_FinishUsage now ft f db = (Inr (), db1)" and "uf_RequestID g = uf_RequestID f"
  shows "\<exists>x. Store_FinishUsage now' ft' g db1 = (Inl x, db1)"
proof (rule finish_not_pending)
  obtain n where "FinishUsage now (uf_Backend f) (Some (int32_of (uf_Status f))) (uf_Outcome f)
      (map_option sint (uf_PromptTokens f)) (map_option sint (uf_CompletionTokens f)) (uf_RequestID f) db = Inr (n, db1)"
    "uf_Outcome f \<in> {''complete'', ''incomplete'', ''failed''}"
    by (rule Store_FinishUsage_Inr [OF assms(1)])
  note ev = FinishUsage_events(1) [OF this(1)] and out = this(2)
  show "list_all (\<lambda>e. \<not> (ev_RequestID e = uf_RequestID g \<and> ev_State e = ''pending'')) (db_events db1)"
    unfolding ev using out assms(2) by (auto simp: list_all_iff)
qed

theorem finished_once_witness:
  "\<exists>db1 x. Store_FinishUsage 200 Fine ledger_finish ledger_db = (Inr (), db1) \<and>
    Store_FinishUsage 300 Fine ledger_finish db1 = (Inl x, db1)"
  using finished_once [OF ledger_finished refl] ledger_finished by blast

subsection \<open>The life of an event\<close>

text \<open>How a row of the ledger may change: it is finished once, then rolled up once.\<close>

inductive event_move :: "UsageEvent \<Rightarrow> UsageEvent \<Rightarrow> bool" where
  move_finish: "ev_State e = ''pending'' \<Longrightarrow> st \<in> {''complete'', ''incomplete'', ''failed''} \<Longrightarrow>
     event_move e (e\<lparr>ev_Backend := b, ev_HttpStatus := h, ev_State := st, ev_PromptTokens := p,
       ev_CompletionTokens := c, ev_FinishedAt := Some t, ev_EstimatedCostMicro := cost\<rparr>)"
| move_roll_up: "ev_State e \<noteq> ''pending'' \<Longrightarrow> ev_RolledUpAt e = None \<Longrightarrow>
     event_move e (e\<lparr>ev_RolledUpAt := Some t\<rparr>)"

text \<open>What a step does to the rows: each one is old, a moved old one or newly begun; a row goes
  away only when it has been rolled up.\<close>

definition life_ok :: "UsageEvent list \<Rightarrow> UsageEvent list \<Rightarrow> bool" where
  "life_ok es es' \<longleftrightarrow>
     list_all (\<lambda>e'. e' \<in> set es \<or> list_ex (\<lambda>e. event_move e e') es \<or>
       ev_State e' = ''pending'' \<and> ev_RequestID e' \<notin> ev_RequestID ` set es) es' \<and>
     list_all (\<lambda>e. ev_RequestID e \<in> ev_RequestID ` set es' \<or> ev_RolledUpAt e \<noteq> None) es"

lemma life_same [simp]: "life_ok es es"
  by (auto simp: life_ok_def list_all_iff)

lemma life_map:
  assumes "es' = map f es" and "\<And>e. e \<in> set es \<Longrightarrow> f e = e \<or> event_move e (f e)" and "\<And>e. ev_RequestID (f e) = ev_RequestID e"
  shows "life_ok es es'"
  unfolding assms(1) life_ok_def list_all_iff list_ex_iff using assms(2,3) by (auto simp: image_image) metis+

lemma if_moves:
  "(Q \<Longrightarrow> event_move e e') \<Longrightarrow> (if Q then e' else e) = e \<or> event_move e (if Q then e' else e)"
  by simp

lemma events_unchanged:
  "CreateUser now u e d = Inr d' \<Longrightarrow> db_events d' = db_events d"
  "insert_password u h d = Inr d' \<Longrightarrow> db_events d' = db_events d"
  "CreateAccount now a x d = Inr d' \<Longrightarrow> db_events d' = db_events d"
  "AddAccountOwner a u d = Inr d' \<Longrightarrow> db_events d' = db_events d"
  "CreateAPIKey now i a u x h d = Inr d' \<Longrightarrow> db_events d' = db_events d"
  "RevokeAPIKey now i d = Inr (n, d') \<Longrightarrow> db_events d' = db_events d"
  "insert_session now h u a d = Inr d' \<Longrightarrow> db_events d' = db_events d"
  "SetModelPrice now i m p q d = Inr d' \<Longrightarrow> db_events d' = db_events d"
  "count_attempt now e d = Inr (z, d') \<Longrightarrow> db_events d' = db_events d"
  "delete_attempts e d = Inr d' \<Longrightarrow> db_events d' = db_events d"
  by (auto simp: inserts count_attempt_def delete_attempts_def RevokeAPIKey_def
      split: if_splits option.splits sum.splits)

text \<open>One lemma per statement that touches the rows.\<close>

lemma finish_life:
  assumes "FinishUsage now b h st p c r db = Inr (n, db')" and "st \<in> {''complete'', ''incomplete'', ''failed''}"
  shows "life_ok (db_events db) (db_events db')"
proof (rule life_map)
  show "db_events db' = map (\<lambda>e. if ev_RequestID e = r \<and> ev_State e = ''pending''
      then finished_row (db_prices db) now b h st p c e else e) (db_events db)"
    by (subst FinishUsage_events(1) [OF assms(1)]) simp
  fix e :: UsageEvent
  have "event_move e (finished_row (db_prices db) now b h st p c e)" if "ev_State e = ''pending''"
    unfolding finished_row_def by (rule event_move.move_finish [OF that assms(2)])
  then show "(if ev_RequestID e = r \<and> ev_State e = ''pending'' then finished_row (db_prices db) now b h st p c e else e) = e \<or>
    event_move e (if ev_RequestID e = r \<and> ev_State e = ''pending'' then finished_row (db_prices db) now b h st p c e else e)"
    by - (rule if_moves, blast)
qed simp

lemma expire_life: "life_ok (db_events db) (db_events (ExpirePendingUsage now db))"
proof (rule life_map)
  show "db_events (ExpirePendingUsage now db) = map (\<lambda>e. if ev_State e = ''pending'' \<and> ev_StartedAt e < now - seven_days
      then e\<lparr>ev_State := ''incomplete'', ev_FinishedAt := Some now\<rparr> else e) (db_events db)"
    by (simp add: ExpirePendingUsage_def)
  fix e :: UsageEvent
  let ?e' = "e\<lparr>ev_State := ''incomplete'', ev_FinishedAt := Some now\<rparr>"
  have "event_move e ?e'" if "ev_State e = ''pending''"
    using event_move.move_finish [where e = e and st = "''incomplete''" and b = "ev_Backend e"
      and h = "ev_HttpStatus e" and p = "ev_PromptTokens e" and c = "ev_CompletionTokens e" and t = now
      and cost = "ev_EstimatedCostMicro e"] that by simp
  then show "(if ev_State e = ''pending'' \<and> ev_StartedAt e < now - seven_days then ?e' else e) = e \<or>
    event_move e (if ev_State e = ''pending'' \<and> ev_StartedAt e < now - seven_days then ?e' else e)"
    by - (rule if_moves, blast)
qed simp

lemma rollup_life:
  assumes "RollupUsageBatch now limit locked db = Inr (n, db')" and ids: "distinct (map ev_RequestID (db_events db))"
  shows "life_ok (db_events db) (db_events db')"
proof -
  obtain ds where db': "db' = db\<lparr>db_events := map (\<lambda>e. if ev_RequestID e \<in> set (claimed_ids limit locked db)
      then e\<lparr>ev_RolledUpAt := Some now\<rparr> else e) (db_events db), db_daily := ds\<rparr>"
    by (rule rollup_rows [OF assms(1)])
  then have "db_events db' = map (\<lambda>e. if ev_RequestID e \<in> set (claimed_ids limit locked db)
      then e\<lparr>ev_RolledUpAt := Some now\<rparr> else e) (db_events db)" by simp
  then show ?thesis
  proof (rule life_map)
    fix e
    assume "e \<in> set (db_events db)"
    then have "event_move e (e\<lparr>ev_RolledUpAt := Some now\<rparr>)" if "ev_RequestID e \<in> set (claimed_ids limit locked db)"
      using claimed_unique [OF ids] that by (auto simp: terminal_unrolled_def intro: event_move.move_roll_up)
    then show "(if ev_RequestID e \<in> set (claimed_ids limit locked db) then e\<lparr>ev_RolledUpAt := Some now\<rparr> else e) = e \<or>
      event_move e (if ev_RequestID e \<in> set (claimed_ids limit locked db) then e\<lparr>ev_RolledUpAt := Some now\<rparr> else e)"
      by - (rule if_moves, blast)
  qed simp
qed

lemma delete_life:
  assumes "DeleteOldUsageBatch before limit db = Inr (n, db')" and ids: "distinct (map ev_RequestID (db_events db))"
  shows "life_ok (db_events db) (db_events db')"
proof -
  have "ev_RolledUpAt e \<noteq> None" if e: "e \<in> set (db_events db)" "ev_RequestID e \<in> set (old_ids before limit db)" for e
  proof -
    obtain e' where "e' \<in> set (db_events db)" "ev_RequestID e' = ev_RequestID e" "ev_RolledUpAt e' \<noteq> None"
      using e(2) by (auto simp: old_ids_def dest!: in_set_takeD)
    then show ?thesis using distinct_map_eq [OF ids] e(1) by metis
  qed
  moreover have "db_events db' = filter (\<lambda>e. ev_RequestID e \<notin> set (old_ids before limit db)) (db_events db)"
    using assms(1) by (auto simp: DeleteOldUsageBatch_def Let_def)
  ultimately show ?thesis by (auto simp: life_ok_def list_all_iff)
qed

text \<open>
  C6: An event only ever moves from pending to finished and from finished to rolled up; what it
  reports does not change once it is finished, and it is deleted only after it was rolled up.
\<close>
theorem event_life_cycle:
  assumes "db_ok db" and "db_step env db db'"
  shows "life_ok (db_events db) (db_events db')"
  using assms(2,1)
proof (induction rule: db_step.induct)
  case (step_signup fts now rnd email name h db db')
  have "db_events db' = db_events db"
    by (rule signup_tx_keeps [where Q = "\<lambda>d. db_events d = db_events db", OF step_signup(1)])
      (simp_all add: events_unchanged)
  then show ?case by simp
next
  case (step_begin now r a k m db db')
  then have "\<exists>e. db_events db' = db_events db @ [e] \<and> ev_State e = ''pending'' \<and>
      ev_RequestID e \<notin> ev_RequestID ` set (db_events db)"
    by (simp add: begins)
  then show ?case by (auto simp: life_ok_def list_all_iff)
next
  case (step_finish now b h st p c r db n db')
  then show ?case by (blast intro: finish_life)
next
  case (step_rollup now limit locked db n db')
  then show ?case by (intro rollup_life) (simp_all add: db_ok_defs)
next
  case (step_delete before limit db n db')
  then show ?case by (intro delete_life) (simp_all add: db_ok_defs)
qed (simp_all add: events_unchanged expire_life)

text \<open>The step of the finished request.\<close>

theorem event_life_cycle_witness:
  "life_ok (db_events ledger_db) (db_events (ExpirePendingUsage (10 ^ 12) ledger_db)) \<and>
   map ev_State (db_events (ExpirePendingUsage (10 ^ 12) ledger_db)) = [''incomplete'']"
proof
  show "life_ok (db_events ledger_db) (db_events (ExpirePendingUsage (10 ^ 12) ledger_db))"
    by (rule event_life_cycle [OF ledger_db_ok db_step.step_expire])
  show "map ev_State (db_events (ExpirePendingUsage (10 ^ 12) ledger_db)) = [''incomplete'']"
    by (simp add: ExpirePendingUsage_def ledger_db_def ledger_event_def seven_days_def microseconds_per_day_def)
qed

subsection \<open>Prices\<close>

lemma prices_unchanged:
  "CreateUser now u e d = Inr d' \<Longrightarrow> db_prices d' = db_prices d"
  "insert_password u h d = Inr d' \<Longrightarrow> db_prices d' = db_prices d"
  "CreateAccount now a x d = Inr d' \<Longrightarrow> db_prices d' = db_prices d"
  "AddAccountOwner a u d = Inr d' \<Longrightarrow> db_prices d' = db_prices d"
  "CreateAPIKey now i a u x h d = Inr d' \<Longrightarrow> db_prices d' = db_prices d"
  "RevokeAPIKey now i d = Inr (n, d') \<Longrightarrow> db_prices d' = db_prices d"
  "insert_session now h u a d = Inr d' \<Longrightarrow> db_prices d' = db_prices d"
  "BeginUsage now r a k m d = Inr d' \<Longrightarrow> db_prices d' = db_prices d"
  "FinishUsage now b hs st pt ct r d = Inr (n, d') \<Longrightarrow> db_prices d' = db_prices d"
  "count_attempt now e d = Inr (z, d') \<Longrightarrow> db_prices d' = db_prices d"
  "delete_attempts e d = Inr d' \<Longrightarrow> db_prices d' = db_prices d"
  "RollupUsageBatch now limit locked d = Inr (n, d') \<Longrightarrow> db_prices d' = db_prices d"
  "DeleteOldUsageBatch before limit d = Inr (n, d') \<Longrightarrow> db_prices d' = db_prices d"
  by (auto simp: inserts begins count_attempt_def delete_attempts_def RevokeAPIKey_def
      RollupUsageBatch_def DeleteOldUsageBatch_def Let_def
      dest: FinishUsage_events(1) split: if_splits option.splits sum.splits)

lemma price_kept_step: "db_step env d d' \<Longrightarrow> p \<in> set (db_prices d) \<Longrightarrow> p \<in> set (db_prices d')"
proof (induction rule: db_step.induct)
  case (step_signup fts now rnd email name h db db')
  have "db_prices db' = db_prices db"
    by (rule signup_tx_keeps [where Q = "\<lambda>d. db_prices d = db_prices db", OF step_signup(1)])
      (simp_all add: prices_unchanged)
  with step_signup(2) show ?case by simp
next
  case (step_price now i m x y db db')
  then show ?case by (simp add: inserts)
qed (simp_all add: prices_unchanged)

lemma price_kept: "db_run env d d' \<Longrightarrow> p \<in> set (db_prices d) \<Longrightarrow> p \<in> set (db_prices d')"
  by (erule db_run_invariant) (auto intro: price_kept_step)

lemma per_million_nearest: "\<bar>1000000 * per_million z - z\<bar> \<le> 500000"
  unfolding per_million_def
  using mult_div_mod_eq [of 1000000 "z + 500000"] pos_mod_bound [of 1000000 "z + 500000"]
    pos_mod_sign [of 1000000 "z + 500000"] by linarith

lemma finished_cost:
  assumes ok: "db_ok db" and e: "e \<in> set (db_events db)" "ev_State e = ''pending''" "ev_PriceID e = Some (price_ID p)"
    and p: "p \<in> set (db_prices db)"
    and f: "FinishUsage now b h ''complete'' (Some x) (Some y) (ev_RequestID e) db = Inr (n, db')"
  shows "\<exists>e'\<in>set (db_events db'). ev_RequestID e' = ev_RequestID e \<and> ev_State e' = ''complete'' \<and>
    ev_EstimatedCostMicro e' =
      Some (per_million (x * price_InputRateMicroPerMillion p + y * price_OutputRateMicroPerMillion p))"
proof -
  let ?e' = "finished_row (db_prices db) now b h ''complete'' (Some x) (Some y) e"
  have "distinct (map price_ID (db_prices db))" using ok by (simp add: db_ok_defs)
  then have "find (\<lambda>q. price_ID q = price_ID p) (db_prices db) = Some p"
    by (rule find_unique) (use p in auto)
  then have "ev_EstimatedCostMicro ?e' =
      Some (per_million (x * price_InputRateMicroPerMillion p + y * price_OutputRateMicroPerMillion p))"
    by (simp add: event_cost_def e(3))
  moreover have "?e' \<in> set (db_events db')"
    unfolding FinishUsage_events(1) [OF f] using e(1,2) by force
  ultimately show ?thesis by - (rule bexI [of _ ?e'], simp_all)
qed

text \<open>
  C7: A complete request is charged at the price that was its model's latest when the request
  began - the row of the model that every other one is older than, or as old with a smaller id -
  whatever prices were set since, and the charge is that price to the nearest millionth.
\<close>
theorem priced_when_begun:
  assumes "db_ok db" and "p \<in> set (db_prices db)" and "price_Model p = us_Model start"
    and "list_all (\<lambda>q. q = p \<or> price_Model q \<noteq> us_Model start \<or> price_CreatedAt q < price_CreatedAt p \<or>
      price_CreatedAt q = price_CreatedAt p \<and> price_ID q < price_ID p) (db_prices db)"
    and "Store_BeginUsage now ft start db = (Inr (), db1)" and "db_run env db1 db2"
    and "e \<in> set (db_events db1)" and "e \<in> set (db_events db2)" and "ev_RequestID e = us_RequestID start"
    and "uf_RequestID f = us_RequestID start" and "uf_Outcome f = ''complete''"
    and "uf_PromptTokens f = Some x" and "uf_CompletionTokens f = Some y"
    and "Store_FinishUsage now' ft' f db2 = (Inr (), db3)"
  shows "\<exists>e'\<in>set (db_events db3). ev_RequestID e' = us_RequestID start \<and> ev_State e' = ''complete'' \<and>
    (\<exists>cost. ev_EstimatedCostMicro e' = Some cost \<and>
      \<bar>1000000 * cost - (sint x * price_InputRateMicroPerMillion p + sint y * price_OutputRateMicroPerMillion p)\<bar> \<le> 500000)"
proof -
  have b: "BeginUsage now (us_RequestID start) (us_AccountID start) (us_KeyID start) (us_Model start) db = Inr db1"
    using assms(5) by (simp add: Store_BeginUsage_def call_Inr exec_unit_Inr)
  have l: "latest_price (us_Model start) (db_prices db) = Some p"
    using assms(4) by (intro latest_price_is assms(2,3)) (auto simp: list_all_iff)
  have ok1: "db_ok db1" by (rule BeginUsage_ok [OF assms(1) b])
  then have ok2: "db_ok db2" by (rule db_run_ok [OF assms(6)])
  have "us_RequestID start \<notin> ev_RequestID ` set (db_events db)" using b by (simp add: begins)
  then have "e \<notin> set (db_events db)" unfolding assms(9) [symmetric] by blast
  with b l assms(7) have e: "ev_State e = ''pending''" "ev_PriceID e = Some (price_ID p)"
    by (simp_all add: begins)
  have "p \<in> set (db_prices db1)" using assms(2) prices_unchanged(8) [OF b] by simp
  then have p: "p \<in> set (db_prices db2)" by (rule price_kept [OF assms(6)])
  obtain n where f: "FinishUsage now' (uf_Backend f) (Some (int32_of (uf_Status f))) ''complete''
      (Some (sint x)) (Some (sint y)) (ev_RequestID e) db2 = Inr (n, db3)"
    by (rule Store_FinishUsage_Inr [OF assms(14)]) (simp add: assms(9-13))
  from finished_cost [OF ok2 assms(8) e p f] assms(9) per_million_nearest show ?thesis by force
qed

theorem priced_when_begun_witness:
  "\<exists>e'\<in>set (db_events (ledger_start\<lparr>db_events :=
      [finished_row (db_prices ledger_start) 200 ''b'' (Some 200) ''complete'' (Some 10) (Some 1) ledger_event]\<rparr>)).
    \<exists>cost. ev_EstimatedCostMicro e' = Some cost \<and> \<bar>1000000 * cost - (10 * 3000000 + 1 * 7500001)\<bar> \<le> 500000"
proof -
  let ?p = "\<lparr>price_ID = ''p'', price_Model = ''m'', price_InputRateMicroPerMillion = 3000000,
        price_OutputRateMicroPerMillion = 7500001, price_CreatedAt = 0\<rparr>"
  have l: "?p \<in> set (db_prices ledger_start)"
    "list_all (\<lambda>q. q = ?p \<or> price_Model q \<noteq> ''m'' \<or> price_CreatedAt q < price_CreatedAt ?p \<or>
      price_CreatedAt q = price_CreatedAt ?p \<and> price_ID q < price_ID ?p) (db_prices ledger_start)"
    by (simp_all add: ledger_start_def)
  have m: "ledger_event \<in> set (db_events ledger_db)" by (simp add: ledger_db_def)
  from priced_when_begun [OF ledger_start_ok l(1) _ _ ledger_begin rtranclp.rtrancl_refl m m _ _ _ _ _ ledger_finished, of 10 1] l(2)
  show ?thesis by (simp add: ledger_event_def ledger_finish_def)
qed

subsection \<open>Maintenance\<close>

text \<open>
  C4: Maintenance does not change what any account's usage report says, except that the
  requests it gives up waiting for now appear as incomplete: rolling events up, deleting old
  ones, and a failure at any statement leave every line of the report as it was.
\<close>
theorem reports_survive_maintenance:
  assumes "db_ok db"
  shows "usage_report a since (snd (Maintain nows fts locks db)) \<in>
    {usage_report a since db, usage_report a since (ExpirePendingUsage (nows 2) db)}"
proof -
  obtain db3 where d: "db_events db3 = db_events db \<or> db_events db3 = db_events (ExpirePendingUsage (nows 2) db)"
    "db_daily db3 = db_daily db" and ok: "db_ok db3"
    and m: "snd (Maintain nows fts locks db) = db3 \<or>
      (\<exists>d. d = snd (snd (rollup_loop nows fts locks 3 db3)) \<and>
        (snd (Maintain nows fts locks db) = d \<or>
         (\<exists>i. snd (Maintain nows fts locks db) = snd (delete_loop nows fts i d))))"
    by (rule Maintain_phases [of db nows fts locks]) (use assms in blast)
  have "usage_report a since (snd (Maintain nows fts locks db)) = usage_report a since db3"
    using m rollup_loop_report [OF ok] delete_loop_report [OF rollup_loop_ok [OF ok]] by metis
  moreover have "db_daily (ExpirePendingUsage (nows 2) db) = db_daily db" by (simp add: ExpirePendingUsage_def)
  with d have "usage_report a since db3 \<in>
      {usage_report a since db, usage_report a since (ExpirePendingUsage (nows 2) db)}"
    using report_tables [of db3 db a since] report_tables [of db3 "ExpirePendingUsage (nows 2) db" a since] by auto
  ultimately show ?thesis by simp
qed

theorem reports_survive_maintenance_witness:
  "usage_report ''a'' 0 (snd (Maintain (\<lambda>_. 0) (\<lambda>_. Fine) (\<lambda>_ _. False) ledger_db)) \<in>
    {usage_report ''a'' 0 ledger_db, usage_report ''a'' 0 (ExpirePendingUsage 0 ledger_db)}"
  using reports_survive_maintenance [OF ledger_db_ok, of "''a''" 0 "\<lambda>_. 0"] by simp

text \<open>
  C32: A run of the maintenance that ends without an error leaves no session past its time when the
  run began, no login window older than the limit, no request pending for more than seven days, no
  finished event outside the totals except those another replica held when the last rollup
  statement (the \<open>r\<close>-th) ran, and no event of the totals older than seven days at the last
  deletion (the \<open>d\<close>-th statement). The clock and the held rows of each statement are arbitrary; nothing
  else is written between the statements.
\<close>
theorem maintenance_complete:
  assumes "db_ok db" and "Maintain nows fts locks db = (None, db')"
  shows "list_all (\<lambda>s. nows 0 \<le> ses_ExpiresAt s) (db_sessions db') \<and>
    list_all (\<lambda>a. nows 1 - login_window \<le> la_WindowStarted a) (db_attempts db') \<and>
    (\<exists>r d. 3 \<le> r \<and> r < d \<and> list_all (\<lambda>e.
      if ev_State e = ''pending'' then nows 2 - seven_days \<le> ev_StartedAt e
      else if ev_RolledUpAt e = None then locks r (ev_RequestID e)
      else nows d - seven_days \<le> ev_StartedAt e) (db_events db'))"
proof -
  let ?d1 = "db\<lparr>db_sessions := filter (\<lambda>s. \<not> ses_ExpiresAt s < nows 0) (db_sessions db)\<rparr>"
  let ?d2 = "?d1\<lparr>db_attempts := filter (\<lambda>a. \<not> la_WindowStarted a < nows 1 - login_window) (db_attempts db)\<rparr>"
  let ?d3 = "ExpirePendingUsage (nows 2) ?d2"
  from assms(2) obtain i d4 where l1: "rollup_loop nows fts locks 3 ?d3 = (None, i, d4)"
    and l2: "delete_loop nows fts i d4 = (None, db')"
    by (auto simp: Maintain_def exec_unit_def exec_def split: fault.splits prod.splits option.splits)
  have ok3: "db_ok ?d3"
    by (intro ExpirePendingUsage_ok) (simp add: purge_attempts_ok purge_sessions_ok assms(1)
        purge_attempts_ok [OF purge_sessions_ok [OF assms(1)], simplified])
  let ?Q = "\<lambda>d. db_sessions d = db_sessions ?d2 \<and> db_attempts d = db_attempts ?d2 \<and>
    (\<forall>e\<in>set (db_events d). ev_State e = ''pending'' \<longrightarrow> nows 2 - seven_days \<le> ev_StartedAt e)"
  have "?Q ?d3" by (auto simp: ExpirePendingUsage_def)
  then have "?Q (snd (snd (rollup_loop nows fts locks 3 ?d3)))"
    by (rule rollup_loop_keeps [where Q = ?Q]) (auto simp: RollupUsageBatch_def Let_def split: sum.splits)
  then have Q4: "?Q d4" unfolding l1 snd_conv .
  note bounds = rollup_loop_bounds [OF ok3 l1]
  let ?R = "\<lambda>d. ?Q d \<and> (\<forall>e\<in>set (db_events d). terminal_unrolled e \<longrightarrow> locks (i - 1) (ev_RequestID e))"
  from Q4 bounds(5) [OF refl] have "?R d4" by (simp add: list_all_iff)
  then have "?R (snd (delete_loop nows fts i d4))"
    by (rule delete_loop_keeps [where Q = ?R]) (auto simp: DeleteOldUsageBatch_def Let_def)
  then have R: "?R db'" unfolding l2 snd_conv .
  have "usageRetention = seven_days" by (simp add: usageRetention_def seven_days_def microseconds_per_day_def)
  then obtain k where k: "i \<le> k" and old: "\<forall>e\<in>set (db_events db'). ev_RolledUpAt e = None \<or> nows k - seven_days \<le> ev_StartedAt e"
    using delete_loop_done [OF l2] by (auto simp: list_all_iff)
  have "\<forall>e\<in>set (db_events db'). if ev_State e = ''pending'' then nows 2 - seven_days \<le> ev_StartedAt e
      else if ev_RolledUpAt e = None then locks (i - 1) (ev_RequestID e) else nows k - seven_days \<le> ev_StartedAt e"
    using R [THEN conjunct1, THEN conjunct2, THEN conjunct2] R [THEN conjunct2] old
    unfolding terminal_unrolled_def by auto
  moreover have "3 \<le> i - 1 \<and> i - 1 < k" using bounds(1) k by linarith
  moreover note R [THEN conjunct1, THEN conjunct1] R [THEN conjunct1, THEN conjunct2, THEN conjunct1]
  ultimately show ?thesis
    by (intro conjI exI [of _ "i - 1"] exI [of _ k]) (simp_all add: list_all_iff not_less)
qed

theorem maintenance_complete_witness:
  "\<exists>db'. Maintain (\<lambda>_. 10 ^ 12) (\<lambda>_. Fine) (\<lambda>_ _. False) ledger_db = (None, db') \<and> db_events db' = []"
proof -
  have "fst (Maintain (\<lambda>_. 10 ^ 12) (\<lambda>_. Fine) (\<lambda>_ _. False) ledger_db) = None" by code_simp
  then have m: "Maintain (\<lambda>_. 10 ^ 12) (\<lambda>_. Fine) (\<lambda>_ _. False) ledger_db =
      (None, snd (Maintain (\<lambda>_. 10 ^ 12) (\<lambda>_. Fine) (\<lambda>_ _. False) ledger_db))" by (metis prod.collapse)
  have "db_events (snd (Maintain (\<lambda>_. 10 ^ 12) (\<lambda>_. Fine) (\<lambda>_ _. False) ledger_db)) = []" by code_simp
  with maintenance_complete [OF ledger_db_ok m] m show ?thesis by blast
qed

text \<open>
  C33: The rollup of a run ends, whatever fails and whatever rows others hold: every statement but the
  last claims at least one waiting event and none claims more than a thousand. When no row is held
  and nothing fails, no event is left waiting, and there is one statement for each thousand events and
  one more that finds nothing. No new event is finished between the statements.
\<close>
theorem rollup_terminates:
  assumes "db_ok db" and "rollup_loop nows fts locks i db = (err, j, db')"
  shows "i < j \<and> unrolled db' \<le> unrolled db \<and> j \<le> i + (unrolled db - unrolled db') + 1 \<and>
    unrolled db - unrolled db' \<le> 1000 * (j - i) \<and>
    (err \<noteq> None \<or> locks \<noteq> (\<lambda>_ _. False) \<or> unrolled db' = 0 \<and> j = i + (unrolled db + 999) div 1000 + 1)"
proof -
  note b = rollup_loop_bounds [OF assms]
  have "unrolled db' = 0 \<and> j = i + (unrolled db + 999) div 1000 + 1" if "err = None" "locks = (\<lambda>_ _. False)"
    using assms(2) unfolding that
    using rollup_loop_statements [OF assms(1)] b(5) [OF that(1)] by (simp add: that unrolled_def list_all_iff filter_empty_conv)
  then have "err \<noteq> None \<or> locks \<noteq> (\<lambda>_ _. False) \<or> unrolled db' = 0 \<and> j = i + (unrolled db + 999) div 1000 + 1"
    by blast
  with b(1-4) show ?thesis by blast
qed

theorem rollup_terminates_witness:
  "\<exists>db'. rollup_loop (\<lambda>_. 0) (\<lambda>_. Fine) (\<lambda>_ _. False) 0 (ExpirePendingUsage (10 ^ 12) ledger_db) = (None, 2, db') \<and>
    unrolled db' = 0"
proof -
  let ?r = "rollup_loop (\<lambda>_. 0) (\<lambda>_. Fine) (\<lambda>_ _. False) 0 (ExpirePendingUsage (10 ^ 12) ledger_db)"
  have "fst ?r = None \<and> fst (snd ?r) = 2" by code_simp
  then have r: "?r = (None, 2, snd (snd ?r))" by (metis prod.collapse)
  from rollup_terminates [OF ExpirePendingUsage_ok [OF ledger_db_ok] r] r show ?thesis by blast
qed

end
