(* ===== verification/Account_Keys.thy ===== *)
theory Account_Keys
  imports Account_Runs
begin

text \<open>
  What the account store promises about credentials: issued keys authenticate until they are
  revoked and never afterwards, nothing else authenticates, a signup is atomic, a session lasts
  seven days or until the logout, and guessing a password is limited.
\<close>

subsection \<open>Tokens\<close>

text \<open>The documented form of \<open>rand.Text()\<close>: 26 characters of the base32 alphabet.\<close>

definition base32_alphabet :: bytes where
  "base32_alphabet = ''ABCDEFGHIJKLMNOPQRSTUVWXYZ234567''"

definition rand_text :: "bytes \<Rightarrow> bool" where
  "rand_text s \<longleftrightarrow> length s = 26 \<and> list_all (\<lambda>c. c \<in> set base32_alphabet) s"

lemma parse_key_token:
  assumes "rand_text keyID" and "length secret = 32"
  shows "parse_token (key_token keyID secret) = Some keyID"
proof -
  have "CHR ''_'' \<notin> set base32_alphabet" by (simp add: base32_alphabet_def)
  with assms(1) have "CHR ''_'' \<notin> set keyID" by (auto simp: rand_text_def list_all_iff)
  moreover have "hasPrefix (key_token keyID secret) ''vire_''"
    by (simp add: key_token_def hasPrefix_iff)
  moreover have "trimPrefix (key_token keyID secret) ''vire_'' = keyID @ CHR ''_'' # b64_encode secret"
    by (simp add: trimPrefix_def hasPrefix_def key_token_def)
  moreover have "length (key_token keyID secret) = 75"
    using assms by (simp add: key_token_def length_b64_encode rand_text_def)
  moreover have "keyID \<noteq> []" using assms(1) by (auto simp: rand_text_def)
  ultimately show ?thesis
    using assms(2) by (simp add: parse_token_def cut_append b64_decode_encode)
qed

lemma GetActiveAPIKey_iff:
  assumes "distinct (map key_ID (db_keys db))" and "text_ok i"
  shows "GetActiveAPIKey i db = Inr (a, j, h) \<longleftrightarrow>
    (\<exists>k\<in>set (db_keys db). key_ID k = i \<and> key_RevokedAt k = None \<and> j = i \<and> a = key_AccountID k \<and> h = key_TokenHash k)"
proof
  assume "GetActiveAPIKey i db = Inr (a, j, h)"
  then show "\<exists>k\<in>set (db_keys db). key_ID k = i \<and> key_RevokedAt k = None \<and> j = i \<and> a = key_AccountID k \<and> h = key_TokenHash k"
    using assms(2) by (auto simp: GetActiveAPIKey_def dest!: find_SomeD split: option.splits)
next
  assume "\<exists>k\<in>set (db_keys db). key_ID k = i \<and> key_RevokedAt k = None \<and> j = i \<and> a = key_AccountID k \<and> h = key_TokenHash k"
  then obtain k where k: "k \<in> set (db_keys db)" "key_ID k = i" "key_RevokedAt k = None" "j = i"
    "a = key_AccountID k" "h = key_TokenHash k" by blast
  have "find (\<lambda>k. key_ID k = i \<and> key_RevokedAt k = None) (db_keys db) = Some k"
    by (rule find_unique [OF assms(1) k(1)]) (use k in auto)
  with k assms(2) show "GetActiveAPIKey i db = Inr (a, j, h)" by (simp add: GetActiveAPIKey_def)
qed

text \<open>The rows behind a successful authentication, and the other way round.\<close>

lemma Authenticate_Inr:
  assumes "Authenticate env ft token db = Inr \<iota>"
  obtains k where "k \<in> set (db_keys db)" and "key_RevokedAt k = None" and "key_ID k = ki_KeyID \<iota>"
    and "key_AccountID k = ki_AccountID \<iota>" and "key_TokenHash k = se_sha256 env token"
    and "parse_token token = Some (key_ID k)" and "ft = Fine"
proof -
  from assms obtain i a j h where p: "parse_token token = Some i" and q: "GetActiveAPIKey i db = Inr (a, j, h)"
    and r: "ft = Fine" "se_sha256 env token = h" "\<iota> = \<lparr>ki_AccountID = a, ki_KeyID = j\<rparr>"
    by (auto simp: Authenticate_def split: option.splits sum.splits if_splits)
  from q obtain k where "k \<in> set (db_keys db)" "key_ID k = i" "key_RevokedAt k = None" "a = key_AccountID k"
    "j = key_ID k" "h = key_TokenHash k"
    by (auto simp: GetActiveAPIKey_def dest!: find_SomeD split: option.splits if_splits)
  with that p r show ?thesis by auto
qed

lemma AuthenticateI:
  assumes "db_ok db" and "k \<in> set (db_keys db)" and "key_RevokedAt k = None"
    and "key_TokenHash k = se_sha256 env token" and "parse_token token = Some (key_ID k)" and "text_ok (key_ID k)"
  shows "Authenticate env Fine token db = Inr \<lparr>ki_AccountID = key_AccountID k, ki_KeyID = key_ID k\<rparr>"
proof -
  have "distinct (map key_ID (db_keys db))" using assms(1) by (simp add: db_ok_defs)
  from GetActiveAPIKey_iff [OF this assms(6)] assms(2,3)
  have "GetActiveAPIKey (key_ID k) db = Inr (key_AccountID k, key_ID k, key_TokenHash k)" by blast
  with assms(4,5) show ?thesis by (simp add: Authenticate_def query_def)
qed

lemma IssueKey_Inr:
  assumes "IssueKey env now keyID secret fts a name db = (Inr (i, token), db')"
  obtains u where "CreateAPIKey now keyID a u (trimSpace name) (se_sha256 env token) db = Inr db'"
    and "i = keyID" and "token = key_token keyID secret"
  using assms by (auto simp: IssueKey_def Let_def call_Inr exec_unit_Inr split: if_splits sum.splits)

subsection \<open>A concrete store\<close>

text \<open>
  The parameters as plain functions, and a database with one account, whose key and session the
  signup handed out: what the properties are applied to.
\<close>

definition demo_env :: storeEnv where
  "demo_env = \<lparr>se_lower = (\<lambda>s. s), se_sha256 = (\<lambda>s. ''digest of '' @ s),
     se_createHash = (\<lambda>salt p. Some (''argon2 of '' @ p)), se_compare = (\<lambda>p h. h = ''argon2 of '' @ p)\<rparr>"

definition demo_random :: signupRandom where
  "demo_random = \<lparr>sr_userID = replicate 26 CHR ''U'', sr_accountID = replicate 26 CHR ''A'',
     sr_keyID = replicate 26 CHR ''K'', sr_secret = replicate 32 CHR ''s'',
     sr_session = replicate 32 CHR ''t'', sr_salt = replicate 16 CHR ''n''\<rparr>"

lemma demo_ids:
  "rand_text (replicate 26 CHR ''K'')" "text_ok (replicate 26 CHR ''U'')" "text_ok (replicate 26 CHR ''A'')"
  "text_ok (replicate 26 CHR ''K'')"
  by code_simp+

lemma demo_inputs:
  "normalize_email demo_env ''a@b.c'' = ''a@b.c''" "trimSpace ''Acme'' = ''Acme''" "text_ok ''a@b.c''"
  "text_ok ''Acme''" "text_ok ''Default''" "text_ok ''argon2 of correct horse''"
  "hashPassword demo_env (replicate 16 CHR ''n'') ''correct horse'' = Inr ''argon2 of correct horse''"
  by code_simp+

definition demo_db :: database where
  "demo_db =
    \<lparr>db_users = [\<lparr>usr_ID = replicate 26 CHR ''U'', usr_Email = ''a@b.c'', usr_CreatedAt = 0\<rparr>],
     db_passwords = [(replicate 26 CHR ''U'', ''argon2 of correct horse'')],
     db_accounts = [\<lparr>acc_ID = replicate 26 CHR ''A'', acc_Name = ''Acme'', acc_CreatedAt = 0\<rparr>],
     db_members = [\<lparr>mem_AccountID = replicate 26 CHR ''A'', mem_UserID = replicate 26 CHR ''U'',
       mem_Role = ''owner''\<rparr>],
     db_keys = [\<lparr>key_ID = replicate 26 CHR ''K'', key_AccountID = replicate 26 CHR ''A'',
       key_CreatedByUserID = replicate 26 CHR ''U'', key_Name = ''Default'',
       key_TokenHash = ''digest of '' @ key_token (replicate 26 CHR ''K'') (replicate 32 CHR ''s''),
       key_CreatedAt = 0, key_RevokedAt = None\<rparr>],
     db_prices = [], db_events = [], db_daily = [],
     db_sessions = [\<lparr>ses_TokenHash = ''digest of '' @ b64_encode (replicate 32 CHR ''t''),
       ses_UserID = replicate 26 CHR ''U'', ses_AccountID = replicate 26 CHR ''A'',
       ses_ExpiresAt = 0 + seven_days\<rparr>],
     db_attempts = []\<rparr>"

lemma demo_signup:
  "Signup demo_env 0 demo_random (\<lambda>_. Fine) ''a@b.c'' ''Acme'' ''correct horse'' empty_db =
     (Inr \<lparr>su_AccountID = replicate 26 CHR ''A'', su_KeyID = replicate 26 CHR ''K'',
           su_APIKey = key_token (replicate 26 CHR ''K'') (replicate 32 CHR ''s''),
           su_SessionToken = b64_encode (replicate 32 CHR ''t'')\<rparr>, demo_db)"
proof -
  have "sr_userID demo_random = replicate 26 CHR ''U''" "sr_accountID demo_random = replicate 26 CHR ''A''"
    "sr_keyID demo_random = replicate 26 CHR ''K''" "sr_secret demo_random = replicate 32 CHR ''s''"
    "sr_session demo_random = replicate 32 CHR ''t''" "sr_salt demo_random = replicate 16 CHR ''n''"
    "se_sha256 demo_env = (\<lambda>s. ''digest of '' @ s)"
    by (simp_all only: demo_random_def demo_env_def signupRandom.simps storeEnv.simps)
  note simps = this demo_ids demo_inputs empty_db_def
  show ?thesis
    by (simp only: Signup_def Let_def simps)
      (simp add: demo_db_def signup_statements_def newSessionToken_def query_def exec_unit_def exec_def simps
        CreateUser_def insert_password_def CreateAccount_def AddAccountOwner_def CreateAPIKey_def
        insert_session_def del: replicate.simps)
qed

lemma demo_db_ok: "db_ok demo_db"
  using db_run_ok [OF Signup_run empty_db_ok] by (metis demo_signup snd_conv)

lemma demo_owner: "FindAccountOwner (replicate 26 CHR ''A'') demo_db = Inr (replicate 26 CHR ''U'')"
  by (simp add: FindAccountOwner_def demo_db_def demo_ids del: replicate.simps)

lemma demo_second_ids:
  "rand_text (replicate 26 CHR ''L'')" "text_ok (replicate 26 CHR ''L'')"
  "replicate 26 CHR ''L'' \<noteq> replicate 26 CHR ''K''" "trimSpace ''second'' = ''second''" "text_ok ''second''"
  by code_simp+

lemma demo_issue:
  obtains db' where "IssueKey demo_env 5 (replicate 26 CHR ''L'') (replicate 32 CHR ''v'') (\<lambda>_. Fine)
      (replicate 26 CHR ''A'') ''second'' demo_db =
      (Inr (replicate 26 CHR ''L'', key_token (replicate 26 CHR ''L'') (replicate 32 CHR ''v'')), db')"
    and "list_all (\<lambda>k. key_RevokedAt k = None) (db_keys db')"
proof
  let ?k = "\<lparr>key_ID = replicate 26 CHR ''L'', key_AccountID = replicate 26 CHR ''A'',
    key_CreatedByUserID = replicate 26 CHR ''U'', key_Name = ''second'',
    key_TokenHash = ''digest of '' @ key_token (replicate 26 CHR ''L'') (replicate 32 CHR ''v''),
    key_CreatedAt = 5, key_RevokedAt = None\<rparr>"
  let ?d = "demo_db\<lparr>db_keys := db_keys demo_db @ [?k]\<rparr>"
  have "CreateAPIKey 5 (replicate 26 CHR ''L'') (replicate 26 CHR ''A'') (replicate 26 CHR ''U'') ''second''
      (''digest of '' @ key_token (replicate 26 CHR ''L'') (replicate 32 CHR ''v'')) demo_db = Inr ?d"
    by (simp add: CreateAPIKey_def demo_ids demo_second_ids demo_db_def del: replicate.simps)
  then show "IssueKey demo_env 5 (replicate 26 CHR ''L'') (replicate 32 CHR ''v'') (\<lambda>_. Fine)
      (replicate 26 CHR ''A'') ''second'' demo_db =
      (Inr (replicate 26 CHR ''L'', key_token (replicate 26 CHR ''L'') (replicate 32 CHR ''v'')), ?d)"
    by (simp add: IssueKey_def Let_def demo_second_ids demo_owner query_def exec_unit_def exec_def
        demo_env_def del: replicate.simps)
  show "list_all (\<lambda>k. key_RevokedAt k = None) (db_keys ?d)"
    by (simp add: demo_db_def del: replicate.simps)
qed

subsection \<open>Keys\<close>

text \<open>
  C11: An issued key authenticates as its account, in every later state of the database in which
  the key has not been revoked, whatever other operations ran in between.
\<close>
theorem issued_key_works:
  assumes "db_ok db" and "rand_text keyID" and "length secret = 32"
    and "IssueKey env now keyID secret fts a name db = (Inr (i, token), db1)" and "db_run env db1 db2"
    and "list_all (\<lambda>k. key_ID k = keyID \<longrightarrow> key_RevokedAt k = None) (db_keys db2)"
  shows "Authenticate env Fine token db2 = Inr \<lparr>ki_AccountID = a, ki_KeyID = keyID\<rparr>"
proof -
  obtain u where c: "CreateAPIKey now keyID a u (trimSpace name) (se_sha256 env token) db = Inr db1"
    and t: "token = key_token keyID secret" by (rule IssueKey_Inr [OF assms(4)])
  have ok: "db_ok db2"
    by (rule db_run_ok [OF assms(5) db_step_ok [OF db_step.step_create_key [OF c] assms(1)]])
  have "\<exists>k\<in>set (db_keys db1). key_ID k = keyID \<and> key_AccountID k = a \<and> key_TokenHash k = se_sha256 env token"
    using c by (simp add: inserts)
  then obtain k where k: "k \<in> set (db_keys db1)" "key_ID k = keyID" "key_AccountID k = a"
    "key_TokenHash k = se_sha256 env token" by blast
  obtain k' where k': "k' \<in> set (db_keys db2)" "key_ID k' = keyID" "key_AccountID k' = a"
    "key_TokenHash k' = se_sha256 env token"
    using key_kept_run [OF assms(5) k(1)] unfolding key_kept_def k(2-4) by blast
  moreover have "key_RevokedAt k' = None" using assms(6) k'(1,2) by (simp add: list_all_iff)
  moreover have "text_ok keyID" using c by (simp add: inserts)
  moreover have "parse_token token = Some keyID" unfolding t by (rule parse_key_token [OF assms(2,3)])
  ultimately show ?thesis using AuthenticateI [OF ok, of k' env token] by simp
qed

theorem issued_key_works_witness:
  "\<exists>db'. IssueKey demo_env 5 (replicate 26 CHR ''L'') (replicate 32 CHR ''v'') (\<lambda>_. Fine)
      (replicate 26 CHR ''A'') ''second'' demo_db =
      (Inr (replicate 26 CHR ''L'', key_token (replicate 26 CHR ''L'') (replicate 32 CHR ''v'')), db') \<and>
    Authenticate demo_env Fine (key_token (replicate 26 CHR ''L'') (replicate 32 CHR ''v'')) db' =
      Inr \<lparr>ki_AccountID = replicate 26 CHR ''A'', ki_KeyID = replicate 26 CHR ''L''\<rparr>"
proof -
  obtain db' where i: "IssueKey demo_env 5 (replicate 26 CHR ''L'') (replicate 32 CHR ''v'') (\<lambda>_. Fine)
      (replicate 26 CHR ''A'') ''second'' demo_db =
      (Inr (replicate 26 CHR ''L'', key_token (replicate 26 CHR ''L'') (replicate 32 CHR ''v'')), db')"
    and "list_all (\<lambda>k. key_RevokedAt k = None) (db_keys db')"
    by (rule demo_issue)
  then have "list_all (\<lambda>k. key_ID k = replicate 26 CHR ''L'' \<longrightarrow> key_RevokedAt k = None) (db_keys db')"
    by (auto simp: list_all_iff)
  from issued_key_works [OF demo_db_ok demo_second_ids(1) length_replicate i rtranclp.rtrancl_refl this] i
  show ?thesis by blast
qed

text \<open>
  C8: Once a key is revoked, no token ever authenticates as it again, in any later state of the
  database.
\<close>
theorem revoked_key_never_works:
  assumes "db_ok db" and "RevokeKey now ft keyID db = (Inr (), db1)" and "db_run env db1 db2"
  shows "Authenticate env ft' token db2 \<noteq> Inr \<lparr>ki_AccountID = a, ki_KeyID = keyID\<rparr>"
proof
  assume "Authenticate env ft' token db2 = Inr \<lparr>ki_AccountID = a, ki_KeyID = keyID\<rparr>"
  then obtain k where k: "k \<in> set (db_keys db2)" "key_RevokedAt k = None" "key_ID k = keyID"
    by (rule Authenticate_Inr) simp
  from assms(2) obtain n where r: "RevokeAPIKey now keyID db = Inr (n, db1)" and "n \<noteq> 0"
    by (cases "exec ft (RevokeAPIKey now keyID) db"; cases "fst (exec ft (RevokeAPIKey now keyID) db)")
      (auto simp: RevokeKey_def exec_Inr split: if_splits)
  with RevokeAPIKey_keys(2) [OF r] obtain k0 where k0: "k0 \<in> set (db_keys db)" "key_ID k0 = keyID" "key_RevokedAt k0 = None"
    by (auto simp: filter_empty_conv)
  then have "k0\<lparr>key_RevokedAt := Some now\<rparr> \<in> set (db_keys db1)"
    unfolding RevokeAPIKey_keys(1) [OF r] by force
  from key_kept_run [OF assms(3) this] k0(2) obtain k' where k': "k' \<in> set (db_keys db2)" "key_ID k' = keyID" "key_RevokedAt k' \<noteq> None"
    by (auto simp: key_kept_def)
  have "db_ok db2" using assms(1) db_step.step_revoke_key [OF r] assms(3) by (blast intro: db_step_ok db_run_ok)
  then have "distinct (map key_ID (db_keys db2))" by (simp add: db_ok_defs)
  with k k' show False by (metis distinct_map inj_onD)
qed

theorem revoked_key_never_works_witness:
  "\<exists>db'. RevokeKey 7 Fine (replicate 26 CHR ''K'') demo_db = (Inr (), db') \<and>
    (\<forall>token. Authenticate demo_env Fine token db' \<noteq>
      Inr \<lparr>ki_AccountID = replicate 26 CHR ''A'', ki_KeyID = replicate 26 CHR ''K''\<rparr>)"
proof -
  have "RevokeKey 7 Fine (replicate 26 CHR ''K'') demo_db =
      (Inr (), snd (RevokeKey 7 Fine (replicate 26 CHR ''K'') demo_db))"
    by (simp add: RevokeKey_def exec_def RevokeAPIKey_def demo_ids demo_db_def del: replicate.simps)
  from revoked_key_never_works [OF demo_db_ok this rtranclp.rtrancl_refl] this show ?thesis by blast
qed

text \<open>
  C14: A token authenticates only as an active key whose stored digest is the token's, and only
  if the token has the form the key was issued in: the key's ID and 32 bytes of secret.
\<close>
theorem authentication_sound:
  assumes "Authenticate env ft token db = Inr \<iota>"
  shows "(\<exists>k\<in>set (db_keys db). key_RevokedAt k = None \<and> key_ID k = ki_KeyID \<iota> \<and>
      key_AccountID k = ki_AccountID \<iota> \<and> key_TokenHash k = se_sha256 env token) \<and>
    (\<exists>rest secret. token = ''vire_'' @ ki_KeyID \<iota> @ CHR ''_'' # rest \<and> b64_decode rest = Some secret \<and>
      length secret = 32 \<and> length token \<le> 128 \<and> ki_KeyID \<iota> \<noteq> [])"
proof -
  from assms obtain k where k: "k \<in> set (db_keys db)" "key_RevokedAt k = None" "key_ID k = ki_KeyID \<iota>"
    "key_AccountID k = ki_AccountID \<iota>" "key_TokenHash k = se_sha256 env token"
    "parse_token token = Some (ki_KeyID \<iota>)"
    by (rule Authenticate_Inr) simp
  from k(6) obtain rest secret where c: "cut (trimPrefix token ''vire_'') CHR ''_'' = (ki_KeyID \<iota>, rest, True)"
    and p: "hasPrefix token ''vire_''" and "b64_decode rest = Some secret" "length secret = 32"
    "length token \<le> 128" "ki_KeyID \<iota> \<noteq> []"
    by (auto simp: parse_token_def split: if_splits prod.splits option.splits)
  moreover have "token = ''vire_'' @ trimPrefix token ''vire_''"
    using p by (auto simp: hasPrefix_iff prefix_def trimPrefix_def hasPrefix_def)
  moreover have "trimPrefix token ''vire_'' = ki_KeyID \<iota> @ CHR ''_'' # rest" by (rule cut_join [OF c])
  ultimately have "\<exists>rest secret. token = ''vire_'' @ ki_KeyID \<iota> @ CHR ''_'' # rest \<and>
      b64_decode rest = Some secret \<and> length secret = 32 \<and> length token \<le> 128 \<and> ki_KeyID \<iota> \<noteq> []"
    by metis
  with k show ?thesis by blast
qed

lemma demo_authenticates:
  "Authenticate demo_env Fine (key_token (replicate 26 CHR ''K'') (replicate 32 CHR ''s'')) demo_db =
     Inr \<lparr>ki_AccountID = replicate 26 CHR ''A'', ki_KeyID = replicate 26 CHR ''K''\<rparr>"
proof -
  obtain k where "db_keys demo_db = [k]" "key_ID k = replicate 26 CHR ''K''" "key_RevokedAt k = None"
    "key_AccountID k = replicate 26 CHR ''A''"
    "key_TokenHash k = se_sha256 demo_env (key_token (replicate 26 CHR ''K'') (replicate 32 CHR ''s''))"
    by (simp add: demo_db_def demo_env_def del: replicate.simps)
  with AuthenticateI [OF demo_db_ok, of k demo_env "key_token (replicate 26 CHR ''K'') (replicate 32 CHR ''s'')"]
    parse_key_token [OF demo_ids(1), of "replicate 32 CHR ''s''"] demo_ids(4)
  show ?thesis by (simp del: replicate.simps)
qed

theorem authentication_sound_witness:
  "\<exists>k\<in>set (db_keys demo_db). key_RevokedAt k = None \<and> key_ID k = replicate 26 CHR ''K''"
  using authentication_sound [OF demo_authenticates] by auto

end
