(* ===== verification/Metering.thy ===== *)
theory Metering
  imports Completions Account_Ledger Account_Keys
begin

text \<open>
  The completion endpoint and the usage ledger together: what a request does to the ledger, on
  every path, stated over the interface of the store (the locale \<open>usage_ledger\<close>) and interpreted
  on the account database, and what an exchange has to be recorded with (\<open>recorded_as\<close>).
\<close>

subsection \<open>What a request keeps\<close>

lemma set_server_simps [simp]:
  "sv_store (set_metrics mx sv) = sv_store sv" "sv_inflight (set_metrics mx sv) = sv_inflight sv"
  "gw_metrics (sv_gateway (set_metrics mx sv)) = mx"
  "sv_store (count_metering_error op sv) = sv_store sv" "sv_store (count_metered outcome sv) = sv_store sv"
  "sv_inflight (count_metering_error op sv) = sv_inflight sv" "sv_inflight (count_metered outcome sv) = sv_inflight sv"
  "sv_store (release env sv) = sv_store sv"
  by (simp_all add: set_metrics_def count_metering_error_def count_metered_def release_def Let_def split: option.split)

definition metering_errors :: "'d server \<Rightarrow> bytes \<Rightarrow> nat" where
  "metering_errors sv op = (case mx_meteringErrors (gw_metrics (sv_gateway sv)) op of None \<Rightarrow> 0 | Some n \<Rightarrow> n)"

lemma metering_errors_simps [simp]:
  "metering_errors (count_metering_error op sv) op' = metering_errors sv op' + (if op' = op then 1 else 0)"
  "metering_errors (count_metered outcome sv) op' = metering_errors sv op'"
  "metering_errors (sv\<lparr>sv_store := d\<rparr>) op' = metering_errors sv op'"
  "metering_errors (release env sv) op' = metering_errors sv op'"
  by (simp_all add: metering_errors_def count_metering_error_def count_metered_def set_metrics_def release_def Let_def
      split: option.split)

text \<open>The backend the selection chose, if any, and what the capture holds after the exchange.\<close>

definition chosen_backend :: "'d serverEnv \<Rightarrow> completion \<Rightarrow> bytes \<Rightarrow> modelRoute \<Rightarrow> bref option" where
  "chosen_backend env q account route =
     (case fst (selectHealthyBackend (sx_lib env) (cq_health q) route
              (affinity_key account (hGet (cq_header q) ''X-Conversation-Id''))) of
        Selected b failover \<Rightarrow> Some b
      | _ \<Rightarrow> None)"

definition final_capture :: "exchange option \<Rightarrow> bool \<Rightarrow> bool \<Rightarrow> usageCapture" where
  "final_capture ex cancelled streaming =
     (case ex of
        None \<Rightarrow> start_capture 0 streaming
      | Some (TransportError timed_out) \<Rightarrow> start_capture (if cancelled then 0 else error_status timed_out) streaming
      | Some (Answer status contentType reads) \<Rightarrow>
          let c = start_capture status (streaming \<or> hasPrefix contentType ''text/event-stream'')
          in if 200 \<le> status \<and> status < 300 then body_reads reads c else c)"

lemma proxy_capture:
  assumes "proxy_ServeHTTP ex cancelled (Some st) w = (state', w')" and "ob_usage st = Some (new_capture streaming)"
  shows "\<exists>st'. state' = Some st' \<and> ob_id st' = ob_id st \<and> ob_backend st' = ob_backend st \<and>
    ob_usage st' = Some (final_capture (Some ex) cancelled streaming)"
  using assms
  by (auto simp: proxy_ServeHTTP_def ErrorHandler_def ModifyResponse_def read_body_def final_capture_def
      start_capture_def new_capture_def Let_def split: exchange.splits if_splits)

text \<open>What the route leaves behind: the request's state as the deferred function reads it.\<close>

lemma call_route_effect:
  assumes "call_route env q account model route (Some st) sv w = Some (state', w', sv')"
    and "ob_usage st = Some (new_capture streaming)"
  obtains st' where "state' = Some st'" "ob_id st' = ob_id st"
    "ob_backend st' = (case chosen_backend env q account route of None \<Rightarrow> ob_backend st
       | Some b \<Rightarrow> rb_origin (gw_heap (sv_gateway sv) ! b))"
    "ob_usage st' = Some (final_capture (map_option (cq_exchange q) (chosen_backend env q account route))
       (fst (cq_cancelled q)) streaming)"
    "sv_store sv' = sv_store sv" "sv_inflight sv' = sv_inflight sv"
    "\<And>op. metering_errors sv' op = metering_errors sv op"
proof -
  let ?key = "affinity_key account (hGet (cq_header q) ''X-Conversation-Id'')"
  obtain sel route' where s: "selectHealthyBackend (sx_lib env) (cq_health q) route ?key = (sel, route')"
    by fastforce
  show thesis
  proof (cases sel)
    case Panic
    with assms s show ?thesis by (simp add: call_route_def route_ServeHTTP_def Let_def)
  next
    case Unavailable
    with assms s show ?thesis
      by (intro that [of "st\<lparr>ob_model := mr_model route, ob_outcome := ''upstream_unavailable''\<rparr>"])
        (auto simp: call_route_def route_ServeHTTP_def Let_def route_refuse_def chosen_backend_def
          metering_errors_def set_metrics_def set_route_def final_capture_def start_capture_def new_capture_def)
  next
    case (Selected b failover)
    let ?org = "rb_origin (gw_heap (sv_gateway sv) ! b)"
    obtain st1 mx1 where e: "route_enter route ?org ?key failover (Some st) (gw_metrics (sv_gateway sv)) = (Some st1, mx1)"
      and st1: "ob_id st1 = ob_id st" "ob_backend st1 = ?org" "ob_usage st1 = ob_usage st"
      and mx1: "mx_meteringErrors mx1 = mx_meteringErrors (gw_metrics (sv_gateway sv))"
      by (simp add: route_enter_def Let_def)
    obtain state2 w2 where p: "proxy_ServeHTTP (cq_exchange q b) (fst (cq_cancelled q)) (Some st1) w = (state2, w2)"
      by fastforce
    obtain st2 where st2: "state2 = Some st2" "ob_id st2 = ob_id st1" "ob_backend st2 = ob_backend st1"
        "ob_usage st2 = Some (final_capture (Some (cq_exchange q b)) (fst (cq_cancelled q)) streaming)"
      using proxy_capture [OF p] st1(3) assms(2) by auto
    have c: "chosen_backend env q account route = Some b"
      using s Selected by (simp add: chosen_backend_def)
    from assms(1) s Selected e p st2 have r: "state' = Some st2" "sv_store sv' = sv_store sv" "sv_inflight sv' = sv_inflight sv"
        "mx_meteringErrors (gw_metrics (sv_gateway sv')) = mx_meteringErrors mx1"
      by (auto simp: call_route_def route_ServeHTTP_def Let_def backend_call_def
          route_exit_def set_metrics_def set_route_def)
    show ?thesis
      by (rule that [of st2]) (use r st1 st2 mx1 c in \<open>simp_all add: metering_errors_def\<close>)
  qed
qed

subsection \<open>The ledger as the endpoint relies on it\<close>

text \<open>
  A ledger row: how the request began, and what finished it. The finish as the ledger keeps it
  has the status as a 32-bit column and the token counts as integers.
\<close>

type_synonym finishEntry = "bytes \<times> int option \<times> bytes \<times> int option \<times> int option"
type_synonym ledger = "bytes \<Rightarrow> (UsageStart \<times> finishEntry option) option"

definition finish_entry :: "UsageFinish \<Rightarrow> finishEntry" where
  "finish_entry f = (uf_Backend f, Some (int32_of (uf_Status f)), uf_Outcome f,
     map_option sint (uf_PromptTokens f), map_option sint (uf_CompletionTokens f))"

text \<open>What a request is recorded with, and the three ways its row can end up.\<close>

definition request_finish ::
    "'d serverEnv \<Rightarrow> completion \<Rightarrow> requestObservation \<Rightarrow> bytes \<Rightarrow> modelRoute \<Rightarrow> heap \<Rightarrow> bool \<Rightarrow> UsageFinish" where
  "request_finish env q st account route h streaming =
     (let chosen = chosen_backend env q account route in
      usage_finish (sx_usage env) (snd (cq_cancelled q) \<or> cq_writeFailed q)
        (st\<lparr>ob_backend := (case chosen of None \<Rightarrow> ob_backend st | Some b \<Rightarrow> rb_origin (h ! b))\<rparr>)
        (final_capture (map_option (cq_exchange q) chosen) (fst (cq_cancelled q)) streaming))"

definition accounted ::
    "ledger \<Rightarrow> ledger \<Rightarrow> UsageStart \<Rightarrow> UsageFinish \<Rightarrow> (bytes \<Rightarrow> nat) \<Rightarrow> (bytes \<Rightarrow> nat) \<Rightarrow> bool" where
  "accounted r r' s f errs errs' \<longleftrightarrow>
     (let i = us_RequestID s; begun = r(i \<mapsto> (s, None)); finished = r(i \<mapsto> (s, Some (finish_entry f))) in
      r i = None \<and> r' = finished \<and> errs' ''begin'' = errs ''begin'' \<and> errs' ''finish'' = errs ''finish'' \<or>
      r i = None \<and> r' \<in> {begun, finished} \<and> errs' ''begin'' = errs ''begin'' \<and> errs' ''finish'' = errs ''finish'' + 1 \<or>
      (r' = r \<or> r i = None \<and> r' = begun) \<and> errs' ''begin'' = errs ''begin'' + 1 \<and> errs' ''finish'' = errs ''finish'')"

text \<open>
  What a request has to be recorded with, read off the backend that was chosen and its exchange:
  the specification of the deferred function together with the proxy's handlers.
\<close>

definition recorded_as ::
    "'d serverEnv \<Rightarrow> completion \<Rightarrow> heap \<Rightarrow> bref option \<Rightarrow> bool \<Rightarrow> UsageFinish \<Rightarrow> bool" where
  "recorded_as env q h chosen streaming f \<longleftrightarrow>
     (let gone = snd (cq_cancelled q) \<or> cq_writeFailed q in
      case chosen of
        None \<Rightarrow> uf_Status f = 0 \<and> uf_Outcome f = ''incomplete'' \<and> uf_Backend f = [] \<and>
          uf_PromptTokens f = None \<and> uf_CompletionTokens f = None
      | Some b \<Rightarrow> uf_Backend f = rb_origin (h ! b) \<and>
         (case cq_exchange q b of
            TransportError timed_out \<Rightarrow>
              uf_Status f = (if fst (cq_cancelled q) then 0 else if timed_out then 504 else 502) \<and>
              uf_Outcome f = (if gone \<or> fst (cq_cancelled q) then ''incomplete'' else ''failed'') \<and>
              uf_PromptTokens f = None \<and> uf_CompletionTokens f = None
          | Answer status contentType reads \<Rightarrow>
              let stream = (streaming \<or> hasPrefix contentType ''text/event-stream'');
                  c = body_reads reads (start_capture status stream);
                  complete = (\<not> gone \<and> 200 \<le> status \<and> status < 300 \<and> cap_eof c \<and>
                    (stream \<or> length (read_bytes reads) \<le> maxJSONUsageResponse) \<and> validUsage (captured_usage (sx_usage env) c))
              in uf_Status f = status \<and>
                 uf_Outcome f = (if complete then ''complete''
                   else if gone \<or> status = 0 \<or> 200 \<le> status \<and> status < 300 then ''incomplete'' else ''failed'') \<and>
                 uf_PromptTokens f = (if complete then Option.bind (captured_usage (sx_usage env) c) PromptTokens else None) \<and>
                 uf_CompletionTokens f = (if complete then Option.bind (captured_usage (sx_usage env) c) CompletionTokens else None)))"

lemma recorded_finish:
  assumes "ob_backend st = (case chosen of None \<Rightarrow> [] | Some b \<Rightarrow> rb_origin (h ! b))"
  shows "recorded_as env q h chosen streaming
    (usage_finish (sx_usage env) (snd (cq_cancelled q) \<or> cq_writeFailed q) st
      (final_capture (map_option (cq_exchange q) chosen) (fst (cq_cancelled q)) streaming))"
proof -
  let ?gone = "snd (cq_cancelled q) \<or> cq_writeFailed q"
  have answer: "result decode (if 200 \<le> status \<and> status < 300 then body_reads reads (start_capture status stream)
        else start_capture status stream) gone =
      (let c = body_reads reads (start_capture status stream);
           complete = (\<not> gone \<and> 200 \<le> status \<and> status < 300 \<and> cap_eof c \<and>
             (stream \<or> length (read_bytes reads) \<le> maxJSONUsageResponse) \<and> validUsage (captured_usage decode c))
       in (status, if complete then ''complete''
           else if gone \<or> status = 0 \<or> 200 \<le> status \<and> status < 300 then ''incomplete'' else ''failed'',
           if complete then Option.bind (captured_usage decode c) PromptTokens else None,
           if complete then Option.bind (captured_usage decode c) CompletionTokens else None))"
    for decode status reads stream gone
    by (auto simp: result_def overflow_reads validUsage_def Let_def split: option.split)
  have failed: "result decode (start_capture status stream) gone =
      (status, if gone \<or> status = 0 \<or> 200 \<le> status \<and> status < 300 then ''incomplete'' else ''failed'', None, None)"
    for decode status stream gone
    by (simp add: result_def)
  show ?thesis
  proof (cases chosen)
    case None
    with assms show ?thesis by (simp add: recorded_as_def usage_finish_def final_capture_def failed Let_def)
  next
    case (Some b)
    show ?thesis
    proof (cases "cq_exchange q b")
      case (TransportError timed_out)
      with Some assms show ?thesis
        by (simp add: recorded_as_def usage_finish_def final_capture_def failed Let_def error_status_def)
    next
      case (Answer status contentType reads)
      with Some assms show ?thesis
        by (simp add: recorded_as_def usage_finish_def final_capture_def answer Let_def del: if_split)
    qed
  qed
qed

lemma finish_metering_store:
  "sv_store (finish_metering env store q st sv) =
     (case ob_usage st of None \<Rightarrow> sv_store sv
      | Some m \<Rightarrow> snd (as_FinishUsage store
          (usage_finish (sx_usage env) (snd (cq_cancelled q) \<or> cq_writeFailed q) st m) (sv_store sv)))"
  by (simp add: finish_metering_def Let_def split: option.split prod.split sum.split)

text \<open>The identity, model, mode and route of a request that reaches the metering.\<close>

definition routed_request ::
    "'d serverEnv \<Rightarrow> completion \<Rightarrow> 'd server \<Rightarrow> (KeyIdentity \<times> bytes \<times> bool \<times> modelRoute) option" where
  "routed_request env q sv =
     (case fst (authenticate (sx_store env) (sv_store sv) (cq_header q) (gw_metrics (sv_gateway sv)) (fresh_reply :: unit reply)) of
        None \<Rightarrow> None
      | Some \<iota> \<Rightarrow>
          if admit env sv = None then None
          else case find_route env (cq_body q) (sv_gateway sv) of
            Inl err \<Rightarrow> None
          | Inr (model, streaming, route) \<Rightarrow> Some (\<iota>, model, streaming, route))"

lemma find_route_set_metrics: "find_route env b (sv_gateway (set_metrics mx sv)) = find_route env b (sv_gateway sv)"
  by (simp add: find_route_def set_metrics_def split: sum.split option.split)

text \<open>
  What the endpoint needs of the store. A successful begin adds the pending row of a request that
  had none; a successful finish fills in a pending row. After an error the write may or may not
  have happened. No other row is touched.
\<close>

locale usage_ledger =
  fixes store :: "'d accountStore"
    and ok :: "'d \<Rightarrow> bool"
    and row :: "'d \<Rightarrow> ledger"
  assumes begin_ok: "ok d \<Longrightarrow> as_BeginUsage store s d = (r, d') \<Longrightarrow> ok d'"
    and finish_ok: "ok d \<Longrightarrow> as_FinishUsage store f d = (r, d') \<Longrightarrow> ok d'"
    and begin_row: "ok d \<Longrightarrow> as_BeginUsage store s d = (Inr u, d') \<Longrightarrow>
      row d (us_RequestID s) = None \<and> row d' = (row d)(us_RequestID s \<mapsto> (s, None))"
    and begin_error: "ok d \<Longrightarrow> as_BeginUsage store s d = (Inl e, d') \<Longrightarrow>
      row d' = row d \<or> row d (us_RequestID s) = None \<and> row d' = (row d)(us_RequestID s \<mapsto> (s, None))"
    and finish_row: "ok d \<Longrightarrow> row d (uf_RequestID f) = Some (s, None) \<Longrightarrow> as_FinishUsage store f d = (Inr u, d') \<Longrightarrow>
      row d' = (row d)(uf_RequestID f \<mapsto> (s, Some (finish_entry f)))"
    and finish_error: "ok d \<Longrightarrow> row d (uf_RequestID f) = Some (s, None) \<Longrightarrow> as_FinishUsage store f d = (Inl e, d') \<Longrightarrow>
      row d' = row d \<or> row d' = (row d)(uf_RequestID f \<mapsto> (s, Some (finish_entry f)))"
begin

lemma finished_metering:
  assumes "ok (sv_store sv)" "row (sv_store sv) (ob_id st) = Some (s, None)" "ob_usage st = Some m"
    and "f = usage_finish (sx_usage env) (snd (cq_cancelled q) \<or> cq_writeFailed q) st m"
    and "sv' = finish_metering env store q st sv"
  shows "ok (sv_store sv')"
    and "row (sv_store sv') = (row (sv_store sv))(ob_id st \<mapsto> (s, Some (finish_entry f))) \<and>
          metering_errors sv' ''finish'' = metering_errors sv ''finish'' \<or>
        row (sv_store sv') \<in> {row (sv_store sv), (row (sv_store sv))(ob_id st \<mapsto> (s, Some (finish_entry f)))} \<and>
          metering_errors sv' ''finish'' = metering_errors sv ''finish'' + 1"
    and "metering_errors sv' ''begin'' = metering_errors sv ''begin''"
    and "sv_inflight sv' = sv_inflight sv"
proof -
  have i: "uf_RequestID f = ob_id st" by (simp add: assms(4) usage_finish_def split: prod.split)
  obtain r d' where c: "as_FinishUsage store f (sv_store sv) = (r, d')" by fastforce
  have sv': "sv' = (case r of Inl e \<Rightarrow> count_metering_error ''finish'' (sv\<lparr>sv_store := d'\<rparr>)
      | Inr _ \<Rightarrow> count_metered (uf_Outcome f) (sv\<lparr>sv_store := d'\<rparr>))"
    unfolding assms(5) finish_metering_def using assms(3) c
    by (simp add: assms(4) [symmetric] Let_def split: sum.split)
  show "ok (sv_store sv')" using finish_ok [OF assms(1) c] by (simp add: sv' split: sum.split)
  show "metering_errors sv' ''begin'' = metering_errors sv ''begin''" "sv_inflight sv' = sv_inflight sv"
    by (simp_all add: sv' split: sum.split)
  show "row (sv_store sv') = (row (sv_store sv))(ob_id st \<mapsto> (s, Some (finish_entry f))) \<and>
          metering_errors sv' ''finish'' = metering_errors sv ''finish'' \<or>
        row (sv_store sv') \<in> {row (sv_store sv), (row (sv_store sv))(ob_id st \<mapsto> (s, Some (finish_entry f)))} \<and>
          metering_errors sv' ''finish'' = metering_errors sv ''finish'' + 1"
  proof (cases r)
    case (Inl e)
    then show ?thesis using finish_error [OF assms(1) _ c [unfolded Inl], of s] assms(2) i by (auto simp: sv')
  next
    case (Inr u)
    then show ?thesis using finish_row [OF assms(1) _ c [unfolded Inr], of s] assms(2) i by (simp add: sv')
  qed
qed

lemma metered_request:
  assumes "ok (sv_store sv)" and "ob_usage st = None"
    and "serve_metered env store \<iota> q model streaming route (Some st) sv w = Some (state', w', sv')"
  shows "ok (sv_store sv')" and "sv_inflight sv' = sv_inflight sv"
    and "accounted (row (sv_store sv)) (row (sv_store sv')) (usage_start \<iota> (ob_id st) model)
      (request_finish env q st (ki_AccountID \<iota>) route (gw_heap (sv_gateway sv)) streaming)
      (metering_errors sv) (metering_errors sv')"
proof -
  let ?s = "usage_start \<iota> (ob_id st) model"
  let ?f = "request_finish env q st (ki_AccountID \<iota>) route (gw_heap (sv_gateway sv)) streaming"
  let ?st1 = "st\<lparr>ob_usage := Some (new_capture streaming)\<rparr>"
  obtain r d where b: "as_BeginUsage store ?s (sv_store sv) = (r, d)" by fastforce
  have i: "us_RequestID ?s = ob_id st" by (simp add: usage_start_def)
  have ok1: "ok d" by (rule begin_ok [OF assms(1) b])
  have "ok (sv_store sv') \<and> sv_inflight sv' = sv_inflight sv \<and>
    accounted (row (sv_store sv)) (row (sv_store sv')) ?s ?f (metering_errors sv) (metering_errors sv')"
  proof (cases r)
    case (Inl e)
    with assms(3) b have sv': "sv' = count_metering_error ''begin'' (sv\<lparr>sv_store := d\<rparr>)"
      by (auto simp: serve_metered_def)
    show ?thesis using begin_error [OF assms(1) b [unfolded Inl]] ok1 by (auto simp: sv' accounted_def i)
  next
    case (Inr u)
    note new = begin_row [OF assms(1) b [unfolded Inr], unfolded i]
    obtain w1 sv1 st1' where c: "call_route env q (ki_AccountID \<iota>) model route (Some ?st1) (sv\<lparr>sv_store := d\<rparr>) w =
        Some (st1', w1, sv1)"
      using assms(3) b Inr by (auto simp: serve_metered_def split: option.splits)
    obtain st1 where st1: "st1' = Some st1" "ob_id st1 = ob_id ?st1"
        "ob_backend st1 = (case chosen_backend env q (ki_AccountID \<iota>) route of None \<Rightarrow> ob_backend ?st1
           | Some b \<Rightarrow> rb_origin (gw_heap (sv_gateway (sv\<lparr>sv_store := d\<rparr>)) ! b))"
        "ob_usage st1 = Some (final_capture (map_option (cq_exchange q) (chosen_backend env q (ki_AccountID \<iota>) route))
           (fst (cq_cancelled q)) streaming)"
      and sv1: "sv_store sv1 = sv_store (sv\<lparr>sv_store := d\<rparr>)" "sv_inflight sv1 = sv_inflight (sv\<lparr>sv_store := d\<rparr>)"
        "\<And>op. metering_errors sv1 op = metering_errors (sv\<lparr>sv_store := d\<rparr>) op"
      by (rule call_route_effect [OF c]) auto
    have sv': "sv' = finish_metering env store q st1 sv1"
      using assms(3) b Inr c st1(1) by (simp add: serve_metered_def)
    have f: "?f = usage_finish (sx_usage env) (snd (cq_cancelled q) \<or> cq_writeFailed q) st1
        (final_capture (map_option (cq_exchange q) (chosen_backend env q (ki_AccountID \<iota>) route))
           (fst (cq_cancelled q)) streaming)"
      using st1(2,3) by (simp add: request_finish_def usage_finish_def split: prod.split option.split)
    have row1: "row (sv_store sv1) (ob_id st1) = Some (?s, None)" "ok (sv_store sv1)"
      using new ok1 st1(2) sv1(1) by simp_all
    show ?thesis
      using finished_metering [OF row1(2,1) st1(4) f sv'] new sv1 st1(2) by (auto simp: accounted_def i)
  qed
  then show "ok (sv_store sv')" "sv_inflight sv' = sv_inflight sv"
    "accounted (row (sv_store sv)) (row (sv_store sv')) ?s ?f (metering_errors sv) (metering_errors sv')" by blast+
qed

text \<open>The whole endpoint: only a request that was let in, admitted and routed touches the ledger.\<close>

lemma completion_request:
  assumes "ok (sv_store sv)" and "ob_usage st = None" and "sx_store env = Some store"
    and "handleCompletions env q (Some st) sv w = Some (state', w', sv')"
  shows "ok (sv_store sv')"
    and "case routed_request env q sv of
       None \<Rightarrow> sv_store sv' = sv_store sv
     | Some (\<iota>, model, streaming, route) \<Rightarrow>
         accounted (row (sv_store sv)) (row (sv_store sv')) (usage_start \<iota> (ob_id st) model)
           (request_finish env q st (ki_AccountID \<iota>) route (gw_heap (sv_gateway sv)) streaming)
           (metering_errors sv) (metering_errors sv')"
proof -
  obtain who mx w1 where a: "authenticate (sx_store env) (sv_store sv) (cq_header q) (gw_metrics (sv_gateway sv)) w = (who, mx, w1)"
    by (metis prod_cases3)
  have who: "fst (authenticate (sx_store env) (sv_store sv) (cq_header q) (gw_metrics (sv_gateway sv)) (fresh_reply :: unit reply)) = who"
    using a by (auto simp: authenticate_def split: option.splits sum.splits if_splits)
  have mx: "mx_meteringErrors mx op = mx_meteringErrors (gw_metrics (sv_gateway sv)) op" if "who \<noteq> None" for op
    using a that by (auto simp: authenticate_def split: option.splits sum.splits if_splits)
  have "ok (sv_store sv') \<and> (case routed_request env q sv of
       None \<Rightarrow> sv_store sv' = sv_store sv
     | Some (\<iota>, model, streaming, route) \<Rightarrow>
         accounted (row (sv_store sv)) (row (sv_store sv')) (usage_start \<iota> (ob_id st) model)
           (request_finish env q st (ki_AccountID \<iota>) route (gw_heap (sv_gateway sv)) streaming)
           (metering_errors sv) (metering_errors sv'))"
  proof (cases "routed_request env q sv")
    case None
    with assms(1,3,4) a who show ?thesis
      by (auto simp: routed_request_def handleCompletions_def serveCompletions_def serve_admitted_def admit_def
          find_route_set_metrics split: option.splits sum.splits if_splits)
  next
    case (Some r)
    obtain \<iota> model streaming route where r: "r = (\<iota>, model, streaming, route)" by (cases r)
    obtain sv1 where \<iota>: "who = Some \<iota>" and ad: "admit env (set_metrics mx sv) = Some sv1"
      and f: "find_route env (cq_body q) (sv_gateway sv1) = Inr (model, streaming, route)"
      using Some who unfolding r routed_request_def
      by (auto simp: admit_def find_route_set_metrics split: option.splits sum.splits if_splits)
    have sv1: "sv_store sv1 = sv_store sv" "gw_heap (sv_gateway sv1) = gw_heap (sv_gateway sv)"
      "\<And>op. metering_errors sv1 op = metering_errors sv op"
      using ad mx [unfolded \<iota>] by (auto simp: admit_def set_metrics_def metering_errors_def split: option.splits if_splits)
    obtain sv2 where m: "serve_metered env store \<iota> q model streaming route (Some st) sv1 w1 = Some (state', w', sv2)"
      and sv': "sv' = release env sv2"
      using assms(3,4) a \<iota> ad f
      by (auto simp: handleCompletions_def serveCompletions_def serve_admitted_def)
    have "ok (sv_store sv1)" using assms(1) sv1 by simp
    note m = metered_request [OF this assms(2) m]
    show ?thesis
      using m(1,3) unfolding Some r prod.case option.case sv' set_server_simps sv1
      by (simp add: metering_errors_simps accounted_def sv1)
  qed
  then show "ok (sv_store sv')" and "case routed_request env q sv of
       None \<Rightarrow> sv_store sv' = sv_store sv
     | Some (\<iota>, model, streaming, route) \<Rightarrow>
         accounted (row (sv_store sv)) (row (sv_store sv')) (usage_start \<iota> (ob_id st) model)
           (request_finish env q st (ki_AccountID \<iota>) route (gw_heap (sv_gateway sv)) streaming)
           (metering_errors sv) (metering_errors sv')" by blast+
qed

end

subsection \<open>The account database as a ledger\<close>

definition event_entry :: "UsageEvent \<Rightarrow> UsageStart \<times> finishEntry option" where
  "event_entry e =
     (\<lparr>us_RequestID = ev_RequestID e, us_AccountID = ev_AccountID e, us_KeyID = ev_KeyID e, us_Model = ev_Model e\<rparr>,
      if ev_State e = ''pending'' then None
      else Some (ev_Backend e, ev_HttpStatus e, ev_State e, ev_PromptTokens e, ev_CompletionTokens e))"

definition db_ledger :: "database \<Rightarrow> ledger" where
  "db_ledger db i = map_option event_entry (find (\<lambda>e. ev_RequestID e = i) (db_events db))"

definition database_store :: "storeEnv \<Rightarrow> time \<Rightarrow> time \<Rightarrow> (nat \<Rightarrow> fault) \<Rightarrow> database accountStore" where
  "database_store senv began ended fts =
     \<lparr>as_Authenticate = Authenticate senv (fts 0), as_BeginUsage = Store_BeginUsage began (fts 1),
      as_FinishUsage = Store_FinishUsage ended (fts 2)\<rparr>"

lemma find_append: "find P (xs @ ys) = (case find P xs of None \<Rightarrow> find P ys | Some x \<Rightarrow> Some x)"
  by (induction xs) auto

lemma find_map_if:
  assumes "\<And>x. P (g x) = P x"
  shows "find P (map g xs) = map_option g (find P xs)"
  using assms by (induction xs) auto

lemma ledger_begun:
  assumes "BeginUsage now (us_RequestID s) (us_AccountID s) (us_KeyID s) (us_Model s) db = Inr db'"
  shows "db_ledger db (us_RequestID s) = None" and "db_ledger db' = (db_ledger db)(us_RequestID s \<mapsto> (s, None))"
proof -
  have "us_RequestID s \<notin> ev_RequestID ` set (db_events db)"
    and es: "db_events db' = db_events db @ [\<lparr>ev_RequestID = us_RequestID s, ev_AccountID = us_AccountID s,
      ev_KeyID = us_KeyID s, ev_Model = us_Model s, ev_Backend = [],
      ev_PriceID = map_option price_ID (latest_price (us_Model s) (db_prices db)),
      ev_StartedAt = now, ev_FinishedAt = None, ev_State = ''pending'', ev_HttpStatus = None,
      ev_PromptTokens = None, ev_CompletionTokens = None, ev_EstimatedCostMicro = None, ev_RolledUpAt = None\<rparr>]"
    using assms unfolding begins by simp_all
  then have n: "find (\<lambda>e. ev_RequestID e = us_RequestID s) (db_events db) = None"
    by (auto simp: find_None_iff image_iff)
  then show "db_ledger db (us_RequestID s) = None" by (simp add: db_ledger_def)
  show "db_ledger db' = (db_ledger db)(us_RequestID s \<mapsto> (s, None))"
    using n by (auto simp: es db_ledger_def find_append event_entry_def fun_eq_iff split: option.split)
qed

lemma ledger_finishes:
  assumes "FinishUsage now (uf_Backend f) (Some (int32_of (uf_Status f))) (uf_Outcome f)
      (map_option sint (uf_PromptTokens f)) (map_option sint (uf_CompletionTokens f)) (uf_RequestID f) db = Inr (n, db')"
    and "db_ledger db (uf_RequestID f) = Some (s, None)" and "uf_Outcome f \<noteq> ''pending''"
  shows "db_ledger db' = (db_ledger db)(uf_RequestID f \<mapsto> (s, Some (finish_entry f)))"
proof
  fix i
  let ?row = "finished_row (db_prices db) now (uf_Backend f) (Some (int32_of (uf_Status f))) (uf_Outcome f)
      (map_option sint (uf_PromptTokens f)) (map_option sint (uf_CompletionTokens f))"
  let ?g = "\<lambda>e. if ev_RequestID e = uf_RequestID f \<and> ev_State e = ''pending'' then ?row e else e"
  have es: "db_events db' = map ?g (db_events db)" using FinishUsage_events(1) [OF assms(1)] by simp
  have "find (\<lambda>e. ev_RequestID e = i) (db_events db') = map_option ?g (find (\<lambda>e. ev_RequestID e = i) (db_events db))"
    unfolding es by (rule find_map_if) simp
  then have l: "db_ledger db' i = map_option event_entry (map_option ?g (find (\<lambda>e. ev_RequestID e = i) (db_events db)))"
    by (simp add: db_ledger_def)
  show "db_ledger db' i = ((db_ledger db)(uf_RequestID f \<mapsto> (s, Some (finish_entry f)))) i"
  proof (cases "i = uf_RequestID f")
    case False
    have "?g e = e" if "find (\<lambda>e. ev_RequestID e = i) (db_events db) = Some e" for e
      using find_SomeD [OF that] False by simp
    moreover have "db_ledger db i = map_option event_entry (find (\<lambda>e. ev_RequestID e = i) (db_events db))"
      by (simp add: db_ledger_def)
    ultimately show ?thesis using False
      by (cases "find (\<lambda>e. ev_RequestID e = i) (db_events db)") (simp_all add: l)
  next
    case True
    obtain e where e: "find (\<lambda>e. ev_RequestID e = i) (db_events db) = Some e" "event_entry e = (s, None)"
      using assms(2) True by (auto simp: db_ledger_def)
    have "ev_RequestID e = uf_RequestID f" "ev_State e = ''pending''"
      using find_SomeD [OF e(1)] e(2) True by (auto simp: event_entry_def split: if_splits)
    then have g: "?g e = ?row e" by simp
    have "event_entry (?row e) = (s, Some (finish_entry f))"
      using e(2) assms(3) by (simp add: event_entry_def finish_entry_def finished_row_def)
    then show ?thesis unfolding l e(1) using True g by simp
  qed
qed

lemma exec_cases:
  "exec ft stmt db = (r, db') \<Longrightarrow> db' = db \<or> (\<exists>x. stmt db = Inr (x, db') \<and> (r = Inr x \<or> r = Inl Unavailable))"
  by (auto simp: exec_def split: fault.splits sum.splits)

lemma begin_cases:
  assumes "Store_BeginUsage now ft s db = (r, db')"
  shows "r \<noteq> Inr () \<and> db' = db \<or>
    BeginUsage now (us_RequestID s) (us_AccountID s) (us_KeyID s) (us_Model s) db = Inr db'"
  using assms by (auto simp: Store_BeginUsage_def exec_unit_def exec_def split: fault.splits sum.splits)

lemma finish_cases:
  assumes "Store_FinishUsage now ft f db = (r, db')"
  shows "r \<noteq> Inr () \<and> db' = db \<or> uf_Outcome f \<noteq> ''pending'' \<and> (\<exists>n.
    FinishUsage now (uf_Backend f) (Some (int32_of (uf_Status f))) (uf_Outcome f)
      (map_option sint (uf_PromptTokens f)) (map_option sint (uf_CompletionTokens f)) (uf_RequestID f) db = Inr (n, db'))"
proof -
  let ?s = "FinishUsage now (uf_Backend f) (Some (int32_of (uf_Status f))) (uf_Outcome f)
      (map_option sint (uf_PromptTokens f)) (map_option sint (uf_CompletionTokens f)) (uf_RequestID f)"
  obtain r1 d1 where e: "exec ft ?s db = (r1, d1)" by fastforce
  show ?thesis
  proof (cases r1)
    case (Inl x)
    with assms e exec_cases [OF e] show ?thesis by (auto simp: Store_FinishUsage_def split: if_splits)
  next
    case (Inr n)
    then have "?s db = Inr (n, d1)" using e by (simp add: exec_Inr)
    with Inr assms e show ?thesis by (auto simp: Store_FinishUsage_def split: if_splits)
  qed
qed

interpretation db_usage: usage_ledger "database_store senv began ended fts" db_ok db_ledger
proof
  fix d s r d'
  assume "db_ok d" and "as_BeginUsage (database_store senv began ended fts) s d = (r, d')"
  then show "db_ok d'" using db_run_ok [OF Store_BeginUsage_run [where now = began and ft = "fts 1" and start = s and db = d]]
    by (simp add: database_store_def)
next
  fix d f r d'
  assume "db_ok d" and "as_FinishUsage (database_store senv began ended fts) f d = (r, d')"
  then show "db_ok d'" using db_run_ok [OF Store_FinishUsage_run [where now = ended and ft = "fts 2" and finish = f and db = d]]
    by (simp add: database_store_def)
next
  fix d s u d'
  assume "as_BeginUsage (database_store senv began ended fts) s d = (Inr u, d')"
  then show "db_ledger d (us_RequestID s) = None \<and> db_ledger d' = (db_ledger d)(us_RequestID s \<mapsto> (s, None))"
    using begin_cases [of began "fts 1" s d "Inr u" d'] ledger_begun [of began s d d'] by (simp add: database_store_def)
next
  fix d s e d'
  assume "as_BeginUsage (database_store senv began ended fts) s d = (Inl e, d')"
  then show "db_ledger d' = db_ledger d \<or>
      db_ledger d (us_RequestID s) = None \<and> db_ledger d' = (db_ledger d)(us_RequestID s \<mapsto> (s, None))"
    using begin_cases [of began "fts 1" s d "Inl e" d'] ledger_begun [of began s d d'] by (auto simp: database_store_def)
next
  fix d f s u d'
  assume "db_ledger d (uf_RequestID f) = Some (s, None)" "as_FinishUsage (database_store senv began ended fts) f d = (Inr u, d')"
  then show "db_ledger d' = (db_ledger d)(uf_RequestID f \<mapsto> (s, Some (finish_entry f)))"
    using finish_cases [of ended "fts 2" f d "Inr u" d'] ledger_finishes [of ended f d _ d' s] by (auto simp: database_store_def)
next
  fix d f s e d'
  assume "db_ledger d (uf_RequestID f) = Some (s, None)" "as_FinishUsage (database_store senv began ended fts) f d = (Inl e, d')"
  then show "db_ledger d' = db_ledger d \<or> db_ledger d' = (db_ledger d)(uf_RequestID f \<mapsto> (s, Some (finish_entry f)))"
    using finish_cases [of ended "fts 2" f d "Inl e" d'] ledger_finishes [of ended f d _ d' s] by (auto simp: database_store_def)
qed

subsection \<open>A concrete gateway\<close>

text \<open>One model with one replica, over the account database that has one key.\<close>

definition demo_gateway :: gateway where
  "demo_gateway =
     \<lparr>gw_heap = [demo_backend ''http://a'' True], gw_backends = [],
      gw_routing = \<lparr>rs_models = [], rs_proxies = [(''m'', (new_route ''m'')\<lparr>mr_backends := [0]\<rparr>)], rs_fingerprint = []\<rparr>,
      gw_models = [], gw_catalog = [], gw_metrics = no_metrics\<rparr>"

definition demo_server :: "'d \<Rightarrow> 'd server" where
  "demo_server d = \<lparr>sv_gateway = demo_gateway, sv_inflight = 0, sv_store = d\<rparr>"

definition demo_server_env :: "'d accountStore option \<Rightarrow> 'd serverEnv" where
  "demo_server_env store =
     \<lparr>sx_store = store, sx_limit = Some 2, sx_lib = demo_ring,
      sx_fields = (\<lambda>b. Some [''model'' \<mapsto> b]), sx_string = Some,
      sx_usage = (\<lambda>b. Some (Some \<lparr>PromptTokens = Some 3, CompletionTokens = Some 4\<rparr>))\<rparr>"

definition demo_token :: bytes where
  "demo_token = key_token (replicate 26 CHR ''K'') (replicate 32 CHR ''s'')"

definition demo_completion :: completion where
  "demo_completion =
     \<lparr>cq_header = hSet no_header ''Authorization'' (''Bearer '' @ demo_token), cq_body = (''m'', False),
      cq_health = (\<lambda>_ _. True), cq_exchange = (\<lambda>_. Answer 200 ''application/json'' [(''{}'', True)]),
      cq_cancelled = (False, False), cq_writeFailed = False\<rparr>"

lemma demo_bearer: "bearer_token (hSet no_header ''Authorization'' (''Bearer '' @ demo_token)) = Some demo_token"
  unfolding demo_token_def by code_simp

lemma demo_chosen: "chosen_backend (demo_server_env store) demo_completion account ((new_route ''m'')\<lparr>mr_backends := [0]\<rparr>) = Some 0"
  by (simp add: chosen_backend_def selectHealthyBackend_def selectBackend_def new_route_def demo_completion_def)

lemma demo_authenticated:
  "authenticate (Some (database_store Account_Keys.demo_env 5 6 (\<lambda>_. Fine))) demo_db (cq_header demo_completion) mx w =
     (Some \<lparr>ki_AccountID = replicate 26 CHR ''A'', ki_KeyID = replicate 26 CHR ''K''\<rparr>, mx, w)"
proof -
  have "bearer_token (cq_header demo_completion) = Some demo_token"
    using demo_bearer by (simp only: demo_completion_def completion.simps)
  moreover have "as_Authenticate (database_store Account_Keys.demo_env 5 6 (\<lambda>_. Fine)) demo_token demo_db =
      Inr \<lparr>ki_AccountID = replicate 26 CHR ''A'', ki_KeyID = replicate 26 CHR ''K''\<rparr>"
    unfolding database_store_def accountStore.simps demo_token_def by (rule demo_authenticates)
  ultimately show ?thesis by (simp add: authenticate_def del: replicate.simps)
qed

lemma demo_route_found:
  "find_route (demo_server_env store) (cq_body demo_completion) demo_gateway =
     Inr (''m'', False, (new_route ''m'')\<lparr>mr_backends := [0]\<rparr>)"
  by (simp add: demo_server_env_def demo_completion_def find_route_def read_request_def maxRequestBytes_def
      request_model_def demo_gateway_def)

lemma demo_server_simps [simp]:
  "sx_store (demo_server_env s) = s" "sv_store (demo_server d) = d" "sv_gateway (demo_server d) = demo_gateway"
  "admit (demo_server_env s) (demo_server d) \<noteq> None"
  by (simp_all add: demo_server_env_def demo_server_def admit_def)

lemma demo_routed:
  "routed_request (demo_server_env (Some (database_store Account_Keys.demo_env 5 6 (\<lambda>_. Fine)))) demo_completion
     (demo_server demo_db) =
     Some (\<lparr>ki_AccountID = replicate 26 CHR ''A'', ki_KeyID = replicate 26 CHR ''K''\<rparr>, ''m'', False,
       (new_route ''m'')\<lparr>mr_backends := [0]\<rparr>)"
  by (simp add: routed_request_def demo_authenticated demo_route_found del: replicate.simps)

subsection \<open>Answers\<close>

lemma proxy_status:
  "proxy_ServeHTTP ex cancelled state w = (state', w') \<Longrightarrow>
     rp_status w' = (case ex of
         TransportError timed_out \<Rightarrow> if cancelled then rp_status w else error_status timed_out
       | Answer status ct reads \<Rightarrow> status) \<and> (state' = None \<longleftrightarrow> state = None)"
  by (auto simp: proxy_ServeHTTP_def ErrorHandler_def ModifyResponse_def read_body_def copy_response_def
      split: exchange.splits option.splits if_splits)

lemma call_route_status:
  assumes "call_route env q account model route state sv w = Some (state', w', sv')"
  shows "rp_status w' = (case chosen_backend env q account route of
        None \<Rightarrow> 503
      | Some b \<Rightarrow> (case cq_exchange q b of
            TransportError timed_out \<Rightarrow> if fst (cq_cancelled q) then rp_status w else error_status timed_out
          | Answer status ct reads \<Rightarrow> status))"
proof -
  let ?key = "affinity_key account (hGet (cq_header q) ''X-Conversation-Id'')"
  obtain sel route' where s: "selectHealthyBackend (sx_lib env) (cq_health q) route ?key = (sel, route')"
    by fastforce
  show ?thesis
  proof (cases sel)
    case Panic
    with s assms show ?thesis by (simp add: call_route_def route_ServeHTTP_def Let_def)
  next
    case Unavailable
    with s assms show ?thesis
      by (auto simp: call_route_def route_ServeHTTP_def Let_def chosen_backend_def route_refuse_def)
  next
    case (Selected b failover)
    let ?org = "rb_origin (gw_heap (sv_gateway sv) ! b)"
    obtain state1 mx1 where e: "route_enter route ?org ?key failover state (gw_metrics (sv_gateway sv)) = (state1, mx1)"
      by fastforce
    obtain state2 w2 where p: "proxy_ServeHTTP (cq_exchange q b) (fst (cq_cancelled q)) state1 w = (state2, w2)"
      by fastforce
    from s Selected e p proxy_status [OF p] assms show ?thesis
      by (auto simp: call_route_def route_ServeHTTP_def Let_def chosen_backend_def backend_call_def)
  qed
qed

text \<open>A route that cannot panic: the call of the backend always comes back.\<close>

lemma call_route_total:
  assumes "route_ok (gw_heap (sv_gateway sv)) route" and "ring_law (sx_lib env)"
  obtains state' w' sv' where "call_route env q account model route state sv w = Some (state', w', sv')"
    and "rp_status w' = (case chosen_backend env q account route of
        None \<Rightarrow> 503
      | Some b \<Rightarrow> (case cq_exchange q b of
            TransportError timed_out \<Rightarrow> if fst (cq_cancelled q) then rp_status w else error_status timed_out
          | Answer status ct reads \<Rightarrow> status))"
    and "state = None \<longleftrightarrow> state' = None"
proof -
  let ?key = "affinity_key account (hGet (cq_header q) ''X-Conversation-Id'')"
  obtain sel route' where s: "selectHealthyBackend (sx_lib env) (cq_health q) route ?key = (sel, route')"
    by fastforce
  have "sel \<noteq> Panic" using selection_total [OF assms, of "cq_health q" ?key] s by auto
  then show thesis
  proof (cases sel)
    case Unavailable
    with s that show thesis
      by (auto simp: call_route_def route_ServeHTTP_def Let_def chosen_backend_def route_refuse_def)
  next
    case (Selected b failover)
    let ?org = "rb_origin (gw_heap (sv_gateway sv) ! b)"
    obtain state1 mx1 where e: "route_enter route ?org ?key failover state (gw_metrics (sv_gateway sv)) = (state1, mx1)"
      and e1: "state1 = None \<longleftrightarrow> state = None"
      by (cases state) (auto simp: route_enter_def Let_def)
    obtain state2 w2 where p: "proxy_ServeHTTP (cq_exchange q b) (fst (cq_cancelled q)) state1 w = (state2, w2)"
      by fastforce
    from s Selected e p proxy_status [OF p] e1 show thesis
      by (intro that [of state2 w2])
        (auto simp: call_route_def route_ServeHTTP_def Let_def chosen_backend_def backend_call_def)
  qed simp
qed

text \<open>The concrete request is handled: its record is begun, and the backend's answer comes back.\<close>

lemma demo_begins:
  "fst (as_BeginUsage (database_store Account_Keys.demo_env 5 6 (\<lambda>_. Fine))
     (usage_start \<lparr>ki_AccountID = replicate 26 CHR ''A'', ki_KeyID = replicate 26 CHR ''K''\<rparr> ''r'' ''m'') demo_db) = Inr ()"
proof -
  have "text_ok ''r''" "text_ok ''m''" by code_simp+
  then show ?thesis
    by (simp add: database_store_def usage_start_def Store_BeginUsage_def exec_unit_def exec_def BeginUsage_def demo_ids
        demo_db_def del: replicate.simps)
qed

lemma demo_answer: "cq_exchange demo_completion b = Answer 200 ''application/json'' [(''{}'', True)]"
  by (simp add: demo_completion_def)

lemma demo_metered:
  obtains d st w' sv' where "as_BeginUsage (database_store Account_Keys.demo_env 5 6 (\<lambda>_. Fine))
        (usage_start \<lparr>ki_AccountID = replicate 26 CHR ''A'', ki_KeyID = replicate 26 CHR ''K''\<rparr> ''r'' ''m'')
        (sv_store ((demo_server demo_db)\<lparr>sv_inflight := 1\<rparr>)) = (Inr (), d)"
    and "serve_metered (demo_server_env (Some (database_store Account_Keys.demo_env 5 6 (\<lambda>_. Fine))))
        (database_store Account_Keys.demo_env 5 6 (\<lambda>_. Fine))
        \<lparr>ki_AccountID = replicate 26 CHR ''A'', ki_KeyID = replicate 26 CHR ''K''\<rparr> demo_completion ''m'' False
        ((new_route ''m'')\<lparr>mr_backends := [0]\<rparr>) (Some (new_observation ''r''))
        ((demo_server demo_db)\<lparr>sv_inflight := 1\<rparr>) (fresh_reply :: bytes reply) = Some (Some st, w', sv')"
    and "rp_status w' = 200"
proof -
  let ?store = "database_store Account_Keys.demo_env 5 6 (\<lambda>_. Fine)"
  let ?env = "demo_server_env (Some ?store)" and ?route = "(new_route ''m'')\<lparr>mr_backends := [0]\<rparr>"
  let ?\<iota> = "\<lparr>ki_AccountID = replicate 26 CHR ''A'', ki_KeyID = replicate 26 CHR ''K''\<rparr>"
  let ?sv = "(demo_server demo_db)\<lparr>sv_inflight := 1\<rparr>"
  have route: "route_ok (gw_heap demo_gateway) ?route"
    by (simp add: route_ok_def demo_gateway_def buildRing_def new_route_def)
  have law: "ring_law (sx_lib ?env)" using demo_ring_law by (simp add: demo_server_env_def)
  have id: "ob_id (new_observation ''r'') = ''r''" by (simp add: new_observation_def)
  obtain d where b: "as_BeginUsage ?store (usage_start ?\<iota> ''r'' ''m'') (sv_store ?sv) = (Inr (), d)"
    using demo_begins by (simp del: replicate.simps) (metis prod.collapse)
  let ?st = "Some ((new_observation ''r'')\<lparr>ob_usage := Some (new_capture False)\<rparr>)"
  obtain state1 w1 sv1 where c: "call_route ?env demo_completion (ki_AccountID ?\<iota>) ''m'' ?route ?st (?sv\<lparr>sv_store := d\<rparr>)
      (fresh_reply :: bytes reply) = Some (state1, w1, sv1)"
    and status: "rp_status w1 = (case chosen_backend ?env demo_completion (ki_AccountID ?\<iota>) ?route of
        None \<Rightarrow> 503
      | Some b \<Rightarrow> (case cq_exchange demo_completion b of
            TransportError timed_out \<Rightarrow> if fst (cq_cancelled demo_completion) then rp_status (fresh_reply :: bytes reply)
              else error_status timed_out
          | Answer status ct reads \<Rightarrow> status))"
    and some: "?st = None \<longleftrightarrow> state1 = None"
    by (rule call_route_total [of "?sv\<lparr>sv_store := d\<rparr>", OF _ law]) (use route in simp)
  have w1: "rp_status w1 = 200" unfolding status demo_chosen by (simp add: demo_answer)
  from some have "state1 \<noteq> None" by simp
  then obtain st1 where "state1 = Some st1" by auto
  with b c have "serve_metered ?env ?store ?\<iota> demo_completion ''m'' False ?route (Some (new_observation ''r'')) ?sv fresh_reply =
      Some (Some st1, w1, finish_metering ?env ?store demo_completion st1 sv1)"
    by (simp add: serve_metered_def id del: replicate.simps)
  from that [OF b this w1] show thesis .
qed

lemma demo_handled:
  obtains st w' sv' where "handleCompletions (demo_server_env (Some (database_store Account_Keys.demo_env 5 6 (\<lambda>_. Fine))))
       demo_completion (Some (new_observation ''r'')) (demo_server demo_db) (fresh_reply :: bytes reply) = Some (Some st, w', sv')"
    and "rp_status w' = 200"
proof -
  let ?env = "demo_server_env (Some (database_store Account_Keys.demo_env 5 6 (\<lambda>_. Fine)))"
  obtain d st w' sv' where m: "serve_metered ?env (database_store Account_Keys.demo_env 5 6 (\<lambda>_. Fine))
        \<lparr>ki_AccountID = replicate 26 CHR ''A'', ki_KeyID = replicate 26 CHR ''K''\<rparr> demo_completion ''m'' False
        ((new_route ''m'')\<lparr>mr_backends := [0]\<rparr>) (Some (new_observation ''r''))
        ((demo_server demo_db)\<lparr>sv_inflight := 1\<rparr>) (fresh_reply :: bytes reply) = Some (Some st, w', sv')"
    and w': "rp_status w' = 200"
    by (rule demo_metered)
  have ad: "admit ?env (demo_server demo_db) = Some ((demo_server demo_db)\<lparr>sv_inflight := 1\<rparr>)"
    by (simp add: admit_def demo_server_env_def demo_server_def)
  have "set_metrics (gw_metrics demo_gateway) (demo_server demo_db) = demo_server demo_db"
    by (simp add: set_metrics_def)
  with m have "handleCompletions ?env demo_completion (Some (new_observation ''r'')) (demo_server demo_db) fresh_reply =
      Some (Some st, w', release ?env sv')"
    by (simp add: handleCompletions_def demo_authenticated serveCompletions_def ad serve_admitted_def demo_route_found
        del: replicate.simps)
  from that [OF this w'] show thesis .
qed

lemma demo_recorded:
  assumes "recorded_as (demo_server_env store) demo_completion h (Some b) False f"
  shows "uf_Status f = 200 \<and> uf_Outcome f = ''complete''"
proof -
  let ?c = "body_reads [(''{}'', True)] (start_capture 200 False)"
  have p: "(False \<or> hasPrefix ''application/json'' ''text/event-stream'') = False" by code_simp
  have c: "cap_eof ?c = True" by simp
  have n: "(length (read_bytes [(''{}'', True)]) \<le> maxJSONUsageResponse) = True" by (simp add: maxJSONUsageResponse_def)
  have "captured_usage (sx_usage (demo_server_env store)) ?c = Some \<lparr>PromptTokens = Some 3, CompletionTokens = Some 4\<rparr>"
    by (simp add: demo_server_env_def captured_usage_def)
  moreover have "validUsage (Some \<lparr>PromptTokens = Some 3, CompletionTokens = Some 4\<rparr>)" by (simp add: validUsage_def)
  ultimately have v: "validUsage (captured_usage (sx_usage (demo_server_env store)) ?c) = True" by simp
  have g: "snd (cq_cancelled demo_completion) = False" "cq_writeFailed demo_completion = False"
    by (simp_all add: demo_completion_def)
  from assms have "uf_Outcome f = (if True then ''complete'' else ''x'') \<and> uf_Status f = 200"
    unfolding recorded_as_def Let_def option.case demo_answer exchange.case p c n v g by simp
  then show ?thesis by simp
qed

subsection \<open>Properties\<close>

text \<open>
  C2: Over the account database a completion request touches the usage ledger only when it was let
  in, admitted and routed, and then only its own row, which did not exist before: the row is
  there, finished with what the request is recorded with, or an error of the store was counted
  and the row is missing or unfinished. No other row changes, and the database stays consistent.
\<close>
theorem request_accounted:
  assumes "db_ok (sv_store sv)" and "sx_store env = Some (database_store senv began ended fts)"
    and "handleCompletions env q (Some (new_observation rid)) sv w = Some (state', w', sv')"
  shows "db_ok (sv_store sv') \<and> (case routed_request env q sv of
       None \<Rightarrow> sv_store sv' = sv_store sv
     | Some (\<iota>, model, streaming, route) \<Rightarrow>
         accounted (db_ledger (sv_store sv)) (db_ledger (sv_store sv')) (usage_start \<iota> rid model)
           (request_finish env q (new_observation rid) (ki_AccountID \<iota>) route (gw_heap (sv_gateway sv)) streaming)
           (metering_errors sv) (metering_errors sv'))"
proof -
  have o: "ob_usage (new_observation rid) = None" "ob_id (new_observation rid) = rid"
    by (simp_all add: new_observation_def)
  show ?thesis using db_usage.completion_request [OF assms(1) o(1) assms(2,3)] unfolding o by blast
qed

theorem request_accounted_witness:
  "\<exists>state' w' sv'. handleCompletions (demo_server_env (Some (database_store Account_Keys.demo_env 5 6 (\<lambda>_. Fine))))
       demo_completion (Some (new_observation ''r'')) (demo_server demo_db) fresh_reply = Some (state', w', sv') \<and>
     db_ok (sv_store sv')"
proof -
  obtain st w' sv' where h: "handleCompletions (demo_server_env (Some (database_store Account_Keys.demo_env 5 6 (\<lambda>_. Fine))))
      demo_completion (Some (new_observation ''r'')) (demo_server demo_db) fresh_reply = Some (Some st, w', sv')"
    by (rule demo_handled)
  with request_accounted [OF _ demo_server_simps(1) h] demo_db_ok show ?thesis by auto
qed

text \<open>
  C35: What the endpoint writes once the record of a request was begun, and what it answers. No
  healthy replica: status 0 and incomplete are recorded, although the client is answered 503. A failed
  round trip is recorded as the 502 or 504 the client gets, or as status 0 when the client had left.
  An answer is recorded with its own status, which is also the client's: as failed outside 2xx; as
  complete exactly when the body was read to its end and kept, states valid token counts, and the
  client was still there at the end; otherwise as incomplete. Counts are recorded only with a complete
  request.
\<close>
theorem recorded_outcome:
  assumes "serve_metered env store \<iota> q model streaming route (Some (new_observation rid)) sv w = Some (state', w', sv')"
    and "as_BeginUsage store (usage_start \<iota> rid model) (sv_store sv) = (Inr u, d)"
  shows "\<exists>f. sv_store sv' = snd (as_FinishUsage store f d) \<and> uf_RequestID f = rid \<and>
    recorded_as env q (gw_heap (sv_gateway sv)) (chosen_backend env q (ki_AccountID \<iota>) route) streaming f \<and>
    rp_status w' = (case chosen_backend env q (ki_AccountID \<iota>) route of
        None \<Rightarrow> 503
      | Some b \<Rightarrow> (case cq_exchange q b of
            TransportError timed_out \<Rightarrow> if fst (cq_cancelled q) then rp_status w else if timed_out then 504 else 502
          | Answer status contentType reads \<Rightarrow> status))"
proof -
  let ?st = "(new_observation rid)\<lparr>ob_usage := Some (new_capture streaming)\<rparr>"
  have o: "ob_id (new_observation rid) = rid" "ob_backend (new_observation rid) = []" by (simp_all add: new_observation_def)
  obtain st1' sv1 where c: "call_route env q (ki_AccountID \<iota>) model route (Some ?st) (sv\<lparr>sv_store := d\<rparr>) w = Some (st1', w', sv1)"
    and fin: "\<And>st1. st1' = Some st1 \<Longrightarrow> sv' = finish_metering env store q st1 sv1"
    using assms by (auto simp: serve_metered_def o split: option.splits)
  obtain st1 where st1: "st1' = Some st1" "ob_id st1 = ob_id ?st"
      "ob_backend st1 = (case chosen_backend env q (ki_AccountID \<iota>) route of None \<Rightarrow> ob_backend ?st
         | Some b \<Rightarrow> rb_origin (gw_heap (sv_gateway (sv\<lparr>sv_store := d\<rparr>)) ! b))"
      "ob_usage st1 = Some (final_capture (map_option (cq_exchange q) (chosen_backend env q (ki_AccountID \<iota>) route))
         (fst (cq_cancelled q)) streaming)"
    and store1: "sv_store sv1 = d"
    by (rule call_route_effect [OF c]) auto
  let ?f = "usage_finish (sx_usage env) (snd (cq_cancelled q) \<or> cq_writeFailed q) st1
      (final_capture (map_option (cq_exchange q) (chosen_backend env q (ki_AccountID \<iota>) route)) (fst (cq_cancelled q)) streaming)"
  have "sv_store sv' = snd (as_FinishUsage store ?f d)"
    by (simp add: fin [OF st1(1)] finish_metering_store st1(4) store1)
  moreover have "uf_RequestID ?f = rid" using st1(2) by (simp add: usage_finish_def o split: prod.split)
  moreover have "recorded_as env q (gw_heap (sv_gateway sv)) (chosen_backend env q (ki_AccountID \<iota>) route) streaming ?f"
    by (rule recorded_finish) (use st1(3) o in \<open>simp split: option.split\<close>)
  ultimately show ?thesis using call_route_status [OF c, unfolded error_status_def] by (intro exI [of _ ?f]) simp
qed

theorem recorded_outcome_witness:
  "\<exists>\<iota> st w' sv' d f. serve_metered (demo_server_env (Some (database_store Account_Keys.demo_env 5 6 (\<lambda>_. Fine))))
       (database_store Account_Keys.demo_env 5 6 (\<lambda>_. Fine)) \<iota> demo_completion ''m'' False
       ((new_route ''m'')\<lparr>mr_backends := [0]\<rparr>) (Some (new_observation ''r''))
       ((demo_server demo_db)\<lparr>sv_inflight := 1\<rparr>) (fresh_reply :: bytes reply) = Some (Some st, w', sv') \<and>
     sv_store sv' = snd (as_FinishUsage (database_store Account_Keys.demo_env 5 6 (\<lambda>_. Fine)) f d) \<and>
     uf_RequestID f = ''r'' \<and> uf_Status f = 200 \<and> uf_Outcome f = ''complete'' \<and> rp_status w' = 200"
proof -
  let ?\<iota> = "\<lparr>ki_AccountID = replicate 26 CHR ''A'', ki_KeyID = replicate 26 CHR ''K''\<rparr>"
  obtain d st w' sv' where b: "as_BeginUsage (database_store Account_Keys.demo_env 5 6 (\<lambda>_. Fine)) (usage_start ?\<iota> ''r'' ''m'')
        (sv_store ((demo_server demo_db)\<lparr>sv_inflight := 1\<rparr>)) = (Inr (), d)"
    and m: "serve_metered (demo_server_env (Some (database_store Account_Keys.demo_env 5 6 (\<lambda>_. Fine))))
        (database_store Account_Keys.demo_env 5 6 (\<lambda>_. Fine)) ?\<iota> demo_completion ''m'' False
        ((new_route ''m'')\<lparr>mr_backends := [0]\<rparr>) (Some (new_observation ''r''))
        ((demo_server demo_db)\<lparr>sv_inflight := 1\<rparr>) fresh_reply = Some (Some st, w', sv')"
    by (rule demo_metered)
  obtain f where f: "sv_store sv' = snd (as_FinishUsage (database_store Account_Keys.demo_env 5 6 (\<lambda>_. Fine)) f d)"
      "uf_RequestID f = ''r''" "rp_status w' = 200"
    and r: "recorded_as (demo_server_env (Some (database_store Account_Keys.demo_env 5 6 (\<lambda>_. Fine)))) demo_completion
      (gw_heap demo_gateway) (Some 0) False f"
    using recorded_outcome [OF m b] by (auto simp: demo_chosen demo_answer)
  have "uf_Status f = 200 \<and> uf_Outcome f = ''complete''" by (rule demo_recorded [OF r])
  with f m show ?thesis by (intro exI conjI) (assumption | simp)+
qed

end
