(* ===== verification/Endpoint.thy ===== *)
theory Endpoint
  imports Metering
begin

text \<open>
  Many completion requests at once. A request is cut into the phases of \<open>handleCompletions\<close> and
  \<open>serveCompletions\<close> between which other requests may run (\<open>advance\<close>), one phase after the other
  being the handler itself; the interleavings of any number of requests are the runs of
  \<open>serving\<close>. The registry is the same during such a run. Authentication and admission are one
  phase, the exchange with the backend is one phase, and chats of the portal, which share the limit,
  are not among the interleaved requests.
\<close>

subsection \<open>The phases of a request\<close>

datatype phase =
    Waiting
  | Admitted KeyIdentity "bytes reply"
  | Calling KeyIdentity bytes bool "bytes reply"
  | Finishing KeyIdentity bytes requestObservation "bytes reply"
  | Closed "(KeyIdentity \<times> bytes) option" "requestObservation option" "bytes reply"

text \<open>
  A request that ended carries what it had begun its usage record with, if it did: this is for the
  statements about its row, no step reads it.
\<close>

definition advance ::
    "'d serverEnv \<Rightarrow> 'd accountStore \<Rightarrow> completion \<Rightarrow> bytes \<Rightarrow> phase \<Rightarrow> 'd server \<Rightarrow> (phase \<times> 'd server) option" where
  "advance env store q rid p sv =
     (let st = new_observation rid in
      case p of
        Waiting \<Rightarrow>
          (case authenticate (Some store) (sv_store sv) (cq_header q) (gw_metrics (sv_gateway sv)) fresh_reply of
             (None, mx, w) \<Rightarrow> Some (Closed None (Some st) w, set_metrics mx sv)
           | (Some \<iota>, mx, w) \<Rightarrow>
               (case admit env (set_metrics mx sv) of
                  None \<Rightarrow> Some (Closed None (Some st) (refuse_limit w), set_metrics mx sv)
                | Some sv1 \<Rightarrow> Some (Admitted \<iota> w, sv1)))
      | Admitted \<iota> w \<Rightarrow>
          (case find_route env (cq_body q) (sv_gateway sv) of
             Inl (status, message) \<Rightarrow> Some (Closed None (Some st) (writeAPIError w status message), release env sv)
           | Inr (model, streaming, route) \<Rightarrow>
               (case as_BeginUsage store (usage_start \<iota> rid model) (sv_store sv) of
                  (Inl e, d) \<Rightarrow>
                    Some (Closed None (Some st) (writeAPIError w 503 ''usage store unavailable''),
                          release env (count_metering_error ''begin'' (sv\<lparr>sv_store := d\<rparr>)))
                | (Inr _, d) \<Rightarrow> Some (Calling \<iota> model streaming w, sv\<lparr>sv_store := d\<rparr>)))
      | Calling \<iota> model streaming w \<Rightarrow>
          (case map_of (rs_proxies (gw_routing (sv_gateway sv))) model of
             None \<Rightarrow> None
           | Some route \<Rightarrow>
               (case call_route env q (ki_AccountID \<iota>) model route
                       (Some (st\<lparr>ob_usage := Some (new_capture streaming)\<rparr>)) sv w of
                  None \<Rightarrow> None
                | Some (None, w', sv') \<Rightarrow> Some (Closed (Some (\<iota>, model)) None w', release env sv')
                | Some (Some st', w', sv') \<Rightarrow> Some (Finishing \<iota> model st' w', sv')))
      | Finishing \<iota> model st w \<Rightarrow>
          Some (Closed (Some (\<iota>, model)) (Some st) w, release env (finish_metering env store q st sv))
      | Closed begun st w \<Rightarrow> None)"

text \<open>One request alone, with fuel for its phases.\<close>

fun run_alone ::
    "'d serverEnv \<Rightarrow> 'd accountStore \<Rightarrow> completion \<Rightarrow> bytes \<Rightarrow> nat \<Rightarrow> phase \<Rightarrow> 'd server \<Rightarrow>
     (requestObservation option \<times> bytes reply \<times> 'd server) option" where
  "run_alone env store q rid n (Closed begun st w) sv = Some (st, w, sv)"
| "run_alone env store q rid 0 p sv = None"
| "run_alone env store q rid (Suc n) p sv =
     (case advance env store q rid p sv of
        None \<Rightarrow> None
      | Some (p', sv') \<Rightarrow> run_alone env store q rid n p' sv')"

text \<open>A request holds a slot of the concurrency limit from its admission to its end.\<close>

definition holds_slot :: "phase \<Rightarrow> bool" where
  "holds_slot p = (case p of Waiting \<Rightarrow> False | Closed begun st w \<Rightarrow> False | _ \<Rightarrow> True)"

definition has_ended :: "phase \<Rightarrow> bool" where
  "has_ended p = (case p of Closed begun st w \<Rightarrow> True | _ \<Rightarrow> False)"

type_synonym 'd serving = "'d server \<times> phase list"

inductive serving ::
    "'d serverEnv \<Rightarrow> 'd accountStore \<Rightarrow> (bytes \<times> completion) list \<Rightarrow> 'd server \<Rightarrow> 'd server \<Rightarrow> phase list \<Rightarrow> bool"
  for env store reqs sv0 where
  start: "serving env store reqs sv0 sv0 (replicate (length reqs) Waiting)"
| turn: "serving env store reqs sv0 sv ph \<Longrightarrow> i < length reqs \<Longrightarrow>
    advance env store (snd (reqs ! i)) (fst (reqs ! i)) (ph ! i) sv = Some (p, sv') \<Longrightarrow>
    serving env store reqs sv0 sv' (ph[i := p])"

inductive_cases serving_cases: "serving env store reqs sv0 sv ph"

lemma serving_length: "serving env store reqs sv0 sv ph \<Longrightarrow> length ph = length reqs"
  by (induction rule: serving.induct) simp_all

subsection \<open>One request alone is the handler\<close>


lemma routed_lookup:
  "find_route env b g = Inr (model, streaming, route) \<Longrightarrow> map_of (rs_proxies (gw_routing g)) model = Some route"
  by (auto simp: find_route_def split: sum.splits option.splits)

text \<open>
  The phases of a request, run one after the other, are the handler: the same reply, the same
  observation and the same server, whatever the request, the backend and the store do.
\<close>
theorem phases_are_handler:
  assumes "sx_store env = Some store"
  shows "run_alone env store q rid 4 Waiting sv = handleCompletions env q (Some (new_observation rid)) sv fresh_reply"
proof -
  have four: "(4 :: nat) = Suc (Suc (Suc (Suc 0)))" by simp
  obtain who mx w where a: "authenticate (Some store) (sv_store sv) (cq_header q) (gw_metrics (sv_gateway sv)) (fresh_reply :: bytes reply) =
      (who, mx, w)" by (metis prod_cases3)
  have id: "ob_id (new_observation rid) = rid" by (simp add: new_observation_def)
  note d = handleCompletions_def serveCompletions_def serve_admitted_def serve_metered_def assms
  show ?thesis
  proof (cases who)
    case None
    with a show ?thesis by (simp add: four advance_def d)
  next
    case (Some \<iota>)
    show ?thesis
    proof (cases "admit env (set_metrics mx sv)")
      case None
      with a Some show ?thesis by (simp add: four advance_def d)
    next
      case ad: (Some sv1)
      show ?thesis
      proof (cases "find_route env (cq_body q) (sv_gateway sv1)")
        case (Inl e)
        with a Some ad show ?thesis by (cases e) (simp add: four advance_def d)
      next
        case (Inr r)
        obtain model streaming route where r: "r = (model, streaming, route)" by (cases r)
        note f = Inr [unfolded r]
        obtain res d1 where b: "as_BeginUsage store (usage_start \<iota> rid model) (sv_store sv1) = (res, d1)" by fastforce
        show ?thesis
        proof (cases res)
          case (Inl e)
          with a Some ad f b show ?thesis by (simp add: four advance_def d id)
        next
          case ok: (Inr u)
          let ?c = "call_route env q (ki_AccountID \<iota>) model route
              (Some (new_observation rid\<lparr>ob_usage := Some (new_capture streaming)\<rparr>)) (sv1\<lparr>sv_store := d1\<rparr>) w"
          have m: "map_of (rs_proxies (gw_routing (sv_gateway (sv1\<lparr>sv_store := d1\<rparr>)))) model = Some route"
            using routed_lookup [OF f] by simp
          show ?thesis
            using a Some ad f b ok m
            by (simp add: four advance_def d id Let_def split: option.split prod.split)
        qed
      qed
    qed
  qed
qed

theorem phases_are_handler_witness:
  "let store = database_store Account_Keys.demo_env 5 6 (\<lambda>_. Fine); env = demo_server_env (Some store) in
   run_alone env store demo_completion ''r'' 4 Waiting (demo_server demo_db) =
     handleCompletions env demo_completion (Some (new_observation ''r'')) (demo_server demo_db) fresh_reply"
  unfolding Let_def by (rule phases_are_handler) simp


subsection \<open>The concurrency limit\<close>

definition slots :: "phase list \<Rightarrow> nat" where
  "slots ph = length (filter holds_slot ph)"

lemma slots_update:
  "i < length ph \<Longrightarrow> slots (ph[i := p]) + (if holds_slot (ph ! i) then 1 else 0) = slots ph + (if holds_slot p then 1 else 0)"
proof (induction ph arbitrary: i)
  case (Cons a ph)
  then show ?case by (cases i) (auto simp: slots_def)
qed simp

lemma slots_pos: "i < length ph \<Longrightarrow> holds_slot (ph ! i) \<Longrightarrow> 0 < slots ph"
  by (auto simp: slots_def intro!: filter_False nth_mem dest: nth_mem simp: length_greater_0_conv filter_empty_conv)

lemma finish_metering_inflight [simp]: "sv_inflight (finish_metering env store q st sv) = sv_inflight sv"
  by (simp add: finish_metering_def Let_def split: option.split prod.split sum.split)

lemma call_route_inflight:
  "call_route env q account model route state sv w = Some (state', w', sv') \<Longrightarrow> sv_inflight sv' = sv_inflight sv"
  by (auto simp: call_route_def Let_def set_metrics_def split: prod.splits option.splits)

text \<open>What one phase does to the counter.\<close>

lemma advance_inflight:
  assumes "advance env store q rid p sv = Some (p', sv')" and "sx_limit env = Some n"
  shows "\<not> holds_slot p \<Longrightarrow> sv_inflight sv' = sv_inflight sv + (if holds_slot p' then 1 else 0) \<and>
      (holds_slot p' \<longrightarrow> sv_inflight sv < n)"
    and "holds_slot p \<Longrightarrow> sv_inflight sv' = sv_inflight sv - (if holds_slot p' then 0 else 1)"
  using assms
  by (cases p; auto simp: advance_def Let_def holds_slot_def admit_def release_def call_route_inflight
      split: prod.splits option.splits sum.splits if_splits)+

lemma serving_inflight:
  assumes "serving env store reqs sv0 sv ph" and "sx_limit env = Some n"
  shows "sv_inflight sv = sv_inflight sv0 + slots ph" and "sv_inflight sv0 \<le> n \<longrightarrow> sv_inflight sv \<le> n"
proof -
  have "sv_inflight sv = sv_inflight sv0 + slots ph \<and> (sv_inflight sv0 \<le> n \<longrightarrow> sv_inflight sv \<le> n)"
    using assms(1)
  proof (induction rule: serving.induct)
    case start
    then show ?case by (simp add: slots_def holds_slot_def)
  next
    case (turn sv ph i p sv')
    have i: "i < length ph" using turn.hyps(2) serving_length [OF turn.hyps(1)] by simp
    show ?case
    proof (cases "holds_slot (ph ! i)")
      case True
      with advance_inflight(2) [OF turn.hyps(3) assms(2)] slots_update [OF i, of p] slots_pos [OF i] turn.IH
      show ?thesis by (auto split: if_splits)
    next
      case False
      with advance_inflight(1) [OF turn.hyps(3) assms(2)] slots_update [OF i, of p] turn.IH
      show ?thesis by (auto split: if_splits)
    qed
  qed
  then show "sv_inflight sv = sv_inflight sv0 + slots ph" "sv_inflight sv0 \<le> n \<longrightarrow> sv_inflight sv \<le> n" by blast+
qed

text \<open>
  C9: However completion requests interleave, the gateway never works on more of them than its concurrency limit,
  the counter is exactly the number of requests that hold a slot, and when all have
  ended every slot has been given back.
\<close>
theorem concurrency_limited:
  assumes "serving env store reqs sv0 sv ph" and "sx_limit env = Some n" and "sv_inflight sv0 = 0"
  shows "slots ph \<le> n \<and> sv_inflight sv = slots ph \<and> (\<not> list_all has_ended ph \<or> sv_inflight sv = 0)"
proof -
  have "list_all has_ended ph \<Longrightarrow> slots ph = 0"
    by (auto simp: slots_def list_all_iff has_ended_def holds_slot_def filter_empty_conv split: phase.splits)
  with serving_inflight [OF assms(1,2)] assms(3) show ?thesis by auto
qed

lemma demo_turn:
  obtains sv p where "serving (demo_server_env (Some (database_store Account_Keys.demo_env 5 6 (\<lambda>_. Fine))))
      (database_store Account_Keys.demo_env 5 6 (\<lambda>_. Fine)) [(''r'', demo_completion)] (demo_server demo_db) sv [p]"
    and "holds_slot p"
proof -
  let ?store = "database_store Account_Keys.demo_env 5 6 (\<lambda>_. Fine)"
  let ?env = "demo_server_env (Some ?store)"
  let ?\<iota> = "\<lparr>ki_AccountID = replicate 26 CHR ''A'', ki_KeyID = replicate 26 CHR ''K''\<rparr>"
  have m: "set_metrics (gw_metrics demo_gateway) (demo_server demo_db) = demo_server demo_db"
    by (simp add: set_metrics_def)
  obtain sv1 where ad: "admit ?env (demo_server demo_db) = Some sv1" using demo_server_simps(4) [of "Some ?store" demo_db] unfolding not_None_eq ..
  have a: "advance ?env ?store (snd ([(''r'', demo_completion)] ! 0)) (fst ([(''r'', demo_completion)] ! 0))
      (replicate (length [(''r'', demo_completion)]) Waiting ! 0) (demo_server demo_db) =
      Some (Admitted ?\<iota> fresh_reply, sv1)"
    by (simp add: advance_def Let_def demo_authenticated m ad del: replicate.simps)
  show thesis
  proof (rule that)
    show "serving ?env ?store [(''r'', demo_completion)] (demo_server demo_db) sv1 [Admitted ?\<iota> fresh_reply]"
      using serving.turn [OF serving.start, where i = 0, OF _ a] by simp
  qed (simp add: holds_slot_def)
qed

theorem concurrency_limited_witness:
  "\<exists>sv p. serving (demo_server_env (Some (database_store Account_Keys.demo_env 5 6 (\<lambda>_. Fine))))
      (database_store Account_Keys.demo_env 5 6 (\<lambda>_. Fine)) [(''r'', demo_completion)] (demo_server demo_db) sv [p] \<and>
    sv_inflight sv = 1"
proof -
  have n: "sx_limit (demo_server_env s) = Some 2" "sv_inflight (demo_server d) = 0"
    for s :: "'a accountStore option" and d :: 'b
    by (simp_all add: demo_server_env_def demo_server_def)
  obtain sv p where "serving (demo_server_env (Some (database_store Account_Keys.demo_env 5 6 (\<lambda>_. Fine))))
      (database_store Account_Keys.demo_env 5 6 (\<lambda>_. Fine)) [(''r'', demo_completion)] (demo_server demo_db) sv [p]"
    "holds_slot p"
    by (rule demo_turn)
  with concurrency_limited [OF this(1) n(1) n(2)] show ?thesis by (auto simp: slots_def)
qed

subsection \<open>The ledger under interleaving\<close>

text \<open>
  The model and mode a request's body asks for, and what a request knows of its exchange once the
  backend was called.
\<close>

definition asks_for :: "'d serverEnv \<Rightarrow> completion \<Rightarrow> bytes \<Rightarrow> bool \<Rightarrow> bool" where
  "asks_for env q model streaming \<longleftrightarrow> request_model env (fst (cq_body q)) = Some (model, streaming)"

definition has_observed :: "completion \<Rightarrow> heap \<Rightarrow> bref option \<Rightarrow> bool \<Rightarrow> requestObservation \<Rightarrow> bool" where
  "has_observed q h chosen streaming st \<longleftrightarrow>
     ob_backend st = (case chosen of None \<Rightarrow> [] | Some b \<Rightarrow> rb_origin (h ! b)) \<and>
     ob_usage st = Some (final_capture (map_option (cq_exchange q) chosen) (fst (cq_cancelled q)) streaming)"

text \<open>
  A request's own row in each phase. None before its record is begun. From then on the row exists and
  keeps the request's own identity and model; it is pending while the request runs. When the request
  has ended it is finished with the outcome the exchange has to be recorded with (\<open>recorded_as\<close>, the
  specification of \<open>Metering\<close>), or the finish did not get through and the row is still pending. A
  request that ended before it began a record has no row, or the pending one of a begin that failed
  after it was stored. \<open>left_pending\<close> names the rows left by such store errors, and \<open>store_errors\<close> counts
  the errors.
\<close>

definition row_matches :: "'d serverEnv \<Rightarrow> heap \<Rightarrow> ledger \<Rightarrow> completion \<Rightarrow> bytes \<Rightarrow> phase \<Rightarrow> bool" where
  "row_matches env h r q rid p =
     (case p of
        Waiting \<Rightarrow> r rid = None
      | Admitted \<iota> w \<Rightarrow> r rid = None
      | Calling \<iota> model streaming w \<Rightarrow>
          asks_for env q model streaming \<and> r rid = Some (usage_start \<iota> rid model, None)
      | Finishing \<iota> model st w \<Rightarrow>
          ob_id st = rid \<and> r rid = Some (usage_start \<iota> rid model, None) \<and>
          (\<exists>chosen streaming. asks_for env q model streaming \<and> has_observed q h chosen streaming st)
      | Closed None st w \<Rightarrow>
          r rid = None \<or> (\<exists>\<iota> model streaming. asks_for env q model streaming \<and> r rid = Some (usage_start \<iota> rid model, None))
      | Closed (Some (\<iota>, model)) st w \<Rightarrow>
          r rid = Some (usage_start \<iota> rid model, None) \<or>
          (\<exists>chosen streaming f. asks_for env q model streaming \<and> recorded_as env q h chosen streaming f \<and>
             r rid = Some (usage_start \<iota> rid model, Some (finish_entry f))))"

lemma row_matches_same: "r' rid = r rid \<Longrightarrow> row_matches env h r' q rid p = row_matches env h r q rid p"
  by (simp add: row_matches_def split: phase.split option.split)

definition left_pending :: "ledger \<Rightarrow> bytes \<Rightarrow> phase \<Rightarrow> bool" where
  "left_pending r rid p \<longleftrightarrow> has_ended p \<and> (\<exists>s. r rid = Some (s, None))"

definition store_errors :: "'d server \<Rightarrow> nat" where
  "store_errors sv = metering_errors sv ''begin'' + metering_errors sv ''finish''"

lemma store_errors_simps [simp]:
  "store_errors (count_metering_error ''begin'' sv) = store_errors sv + 1"
  "store_errors (count_metering_error ''finish'' sv) = store_errors sv + 1"
  "store_errors (count_metered outcome sv) = store_errors sv"
  "store_errors (sv\<lparr>sv_store := d\<rparr>) = store_errors sv"
  "store_errors (release env sv) = store_errors sv"
  by (simp_all add: store_errors_def)

text \<open>The error counters of authentication are others.\<close>

lemma authenticate_errors:
  assumes "authenticate (Some store) d h (gw_metrics (sv_gateway sv)) w = (who, mx, w')"
  shows "store_errors (set_metrics mx sv) = store_errors sv"
  using assms
  by (auto simp: authenticate_def store_errors_def metering_errors_def set_metrics_def
      split: option.splits sum.splits if_splits)

lemma admit_frame:
  "admit env sv = Some sv' \<Longrightarrow> sv_store sv' = sv_store sv \<and> store_errors sv' = store_errors sv"
  by (auto simp: admit_def store_errors_def metering_errors_def split: option.splits if_splits)

text \<open>The backends stay the same during a run.\<close>

lemma call_route_heap:
  "call_route env q account model route state sv w = Some (state', w', sv') \<Longrightarrow>
     gw_heap (sv_gateway sv') = gw_heap (sv_gateway sv)"
  by (auto simp: call_route_def Let_def set_metrics_def set_route_def split: prod.splits option.splits)

lemma heap_frames [simp]:
  "gw_heap (sv_gateway (set_metrics mx sv)) = gw_heap (sv_gateway sv)"
  "gw_heap (sv_gateway (release env sv)) = gw_heap (sv_gateway sv)"
  "gw_heap (sv_gateway (count_metering_error op sv)) = gw_heap (sv_gateway sv)"
  "gw_heap (sv_gateway (finish_metering env store q st sv)) = gw_heap (sv_gateway sv)"
  by (simp_all add: set_metrics_def release_def count_metering_error_def finish_metering_def count_metered_def Let_def
      split: option.split prod.split sum.split)

lemma advance_heap:
  assumes "advance env store q rid p sv = Some (p', sv')"
  shows "gw_heap (sv_gateway sv') = gw_heap (sv_gateway sv)"
  using assms
  by (cases p; auto simp: advance_def Let_def admit_def call_route_heap
      split: prod.splits option.splits sum.splits if_splits)

lemma routed_asks:
  "find_route env (cq_body q) g = Inr (model, streaming, route) \<Longrightarrow> asks_for env q model streaming"
  by (auto simp: find_route_def read_request_def asks_for_def split: sum.splits option.splits prod.splits if_splits)

context usage_ledger
begin

text \<open>One phase of one request: its own row and counter; every other row stays.\<close>

lemma advance_row:
  assumes "ok (sv_store sv)" and "row_matches env (gw_heap (sv_gateway sv)) (row (sv_store sv)) q rid p"
    and "advance env store q rid p sv = Some (p', sv')"
  shows "ok (sv_store sv') \<and> row_matches env (gw_heap (sv_gateway sv)) (row (sv_store sv')) q rid p' \<and>
    (\<forall>i. i = rid \<or> row (sv_store sv') i = row (sv_store sv) i) \<and>
    store_errors sv + (if left_pending (row (sv_store sv')) rid p' then 1 else 0) \<le> store_errors sv'"
proof (cases p)
  case Waiting
  obtain who mx w where a: "authenticate (Some store) (sv_store sv) (cq_header q) (gw_metrics (sv_gateway sv))
      (fresh_reply :: bytes reply) = (who, mx, w)" by (metis prod_cases3)
  note e = authenticate_errors [OF a]
  from assms(3) Waiting a e assms(1,2) show ?thesis
    by (auto simp: advance_def Let_def row_matches_def left_pending_def has_ended_def dest!: admit_frame
        split: option.splits)
next
  case (Admitted \<iota> w)
  have id: "us_RequestID (usage_start \<iota> rid model) = rid" for model by (simp add: usage_start_def)
  have none: "row (sv_store sv) rid = None" using assms(2) Admitted by (simp add: row_matches_def)
  show ?thesis
  proof (cases "find_route env (cq_body q) (sv_gateway sv)")
    case (Inl err)
    with assms Admitted none show ?thesis
      by (cases err) (auto simp: advance_def Let_def row_matches_def left_pending_def has_ended_def)
  next
    case (Inr r)
    obtain model streaming route where r: "r = (model, streaming, route)" by (cases r)
    obtain res d where b: "as_BeginUsage store (usage_start \<iota> rid model) (sv_store sv) = (res, d)" by fastforce
    note ok1 = begin_ok [OF assms(1) b]
    show ?thesis
    proof (cases res)
      case (Inl e)
      note row1 = begin_error [OF assms(1) b [unfolded Inl], unfolded id]
      from assms(3) Admitted Inr r b Inl have p': "has_ended p'"
        and sv': "sv' = release env (count_metering_error ''begin'' (sv\<lparr>sv_store := d\<rparr>))"
        by (auto simp: advance_def Let_def has_ended_def)
      from assms(3) Admitted Inr r b Inl have c: "\<exists>st w'. p' = Closed None st w'"
        by (auto simp: advance_def Let_def)
      have "row d rid = None \<or> row d rid = Some (usage_start \<iota> rid model, None)" and "\<forall>i. i = rid \<or> row d i = row (sv_store sv) i"
        using row1 none by (auto split: if_splits)
      with ok1 c routed_asks [OF Inr [unfolded r]] show ?thesis
        by (auto simp: sv' row_matches_def left_pending_def has_ended_def) blast
    next
      case ok: (Inr u)
      note row1 = begin_row [OF assms(1) b [unfolded ok], unfolded id]
      from assms(3) Admitted Inr r b ok have p': "p' = Calling \<iota> model streaming w" and sv': "sv' = sv\<lparr>sv_store := d\<rparr>"
        by (auto simp: advance_def Let_def)
      from row1 ok1 routed_asks [OF Inr [unfolded r]] show ?thesis
        by (auto simp: p' sv' row_matches_def left_pending_def has_ended_def)
    qed
  qed
next
  case (Calling \<iota> model streaming w)
  let ?st = "(new_observation rid)\<lparr>ob_usage := Some (new_capture streaming)\<rparr>"
  obtain route state' w' sv1 where c: "call_route env q (ki_AccountID \<iota>) model route (Some ?st) sv w = Some (state', w', sv1)"
    and m: "map_of (rs_proxies (gw_routing (sv_gateway sv))) model = Some route"
    using assms(3) Calling by (auto simp: advance_def Let_def split: option.splits)
  let ?chosen = "chosen_backend env q (ki_AccountID \<iota>) route"
  obtain st' where st': "state' = Some st'" "ob_id st' = ob_id ?st"
      "ob_backend st' = (case ?chosen of None \<Rightarrow> ob_backend ?st | Some b \<Rightarrow> rb_origin (gw_heap (sv_gateway sv) ! b))"
      "ob_usage st' = Some (final_capture (map_option (cq_exchange q) ?chosen) (fst (cq_cancelled q)) streaming)"
    and sv1: "sv_store sv1 = sv_store sv" "\<And>op. metering_errors sv1 op = metering_errors sv op"
    by (rule call_route_effect [OF c]) auto
  have o: "has_observed q (gw_heap (sv_gateway sv)) ?chosen streaming st'"
    using st'(3,4) by (simp add: has_observed_def new_observation_def split: option.split)
  from assms(3) Calling c m st'(1) have p': "p' = Finishing \<iota> model st' w'" and sv': "sv' = sv1"
    by (auto simp: advance_def Let_def)
  from assms(2) Calling have r: "asks_for env q model streaming" "row (sv_store sv) rid = Some (usage_start \<iota> rid model, None)"
    by (simp_all add: row_matches_def)
  have "row_matches env (gw_heap (sv_gateway sv)) (row (sv_store sv')) q rid p'"
    unfolding p' row_matches_def phase.case using r o st'(2) by (auto simp: sv' sv1 new_observation_def)
  with assms(1) sv1 show ?thesis
    by (simp add: p' sv' left_pending_def has_ended_def store_errors_def)
next
  case (Finishing \<iota> model st w)
  let ?s = "usage_start \<iota> rid model"
  obtain chosen streaming where id: "ob_id st = rid" and row0: "row (sv_store sv) (ob_id st) = Some (?s, None)"
    and asks: "asks_for env q model streaming" and o: "has_observed q (gw_heap (sv_gateway sv)) chosen streaming st"
    using assms(2) Finishing by (auto simp: row_matches_def)
  let ?m = "final_capture (map_option (cq_exchange q) chosen) (fst (cq_cancelled q)) streaming"
  let ?f = "usage_finish (sx_usage env) (snd (cq_cancelled q) \<or> cq_writeFailed q) st ?m"
  have m: "ob_usage st = Some ?m" and b: "ob_backend st = (case chosen of None \<Rightarrow> [] | Some b \<Rightarrow> rb_origin (gw_heap (sv_gateway sv) ! b))"
    using o by (simp_all add: has_observed_def)
  note rec = recorded_finish [OF b, of env q streaming]
  from assms(3) Finishing have p': "p' = Closed (Some (\<iota>, model)) (Some st) w"
    and sv': "sv' = release env (finish_metering env store q st sv)"
    by (simp_all add: advance_def Let_def)
  note fin = finished_metering [OF assms(1) row0 m refl refl, of env q, unfolded id]
  have "row_matches env (gw_heap (sv_gateway sv)) (row (sv_store sv')) q rid p'"
  proof -
    have "row (sv_store sv') rid = Some (?s, None) \<or> row (sv_store sv') rid = Some (?s, Some (finish_entry ?f))"
      using fin(2) row0 [unfolded id] by (auto simp: sv')
    then show ?thesis
    proof
      assume "row (sv_store sv') rid = Some (?s, None)"
      then show ?thesis unfolding p' row_matches_def phase.case option.case prod.case by (rule disjI1)
    next
      assume "row (sv_store sv') rid = Some (?s, Some (finish_entry ?f))"
      then show ?thesis unfolding p' row_matches_def phase.case option.case prod.case
        by (intro disjI2 exI [of _ chosen] exI [of _ streaming] exI [of _ ?f] conjI asks rec)
    qed
  qed
  with fin row0 [unfolded id] show ?thesis
    by (auto simp: p' sv' left_pending_def store_errors_def split: if_splits)
qed (use assms(3) in \<open>simp add: advance_def\<close>)

text \<open>Every request of a run, whatever the order of the phases.\<close>

lemma serving_rows:
  assumes "serving env store reqs sv0 sv ph" and "ok (sv_store sv0)" and "distinct (map fst reqs)"
    and fresh: "\<And>rid. rid \<in> fst ` set reqs \<Longrightarrow> row (sv_store sv0) rid = None"
  shows "ok (sv_store sv)"
    and "i < length reqs \<Longrightarrow>
      row_matches env (gw_heap (sv_gateway sv0)) (row (sv_store sv)) (snd (reqs ! i)) (fst (reqs ! i)) (ph ! i)"
    and "rid \<notin> fst ` set reqs \<Longrightarrow> row (sv_store sv) rid = row (sv_store sv0) rid"
    and "store_errors sv0 + card {i. i < length reqs \<and> left_pending (row (sv_store sv)) (fst (reqs ! i)) (ph ! i)}
      \<le> store_errors sv"
proof -
  let ?n = "length reqs" and ?rid = "\<lambda>i. fst (reqs ! i)" and ?h = "gw_heap (sv_gateway sv0)"
  let ?q = "\<lambda>i. snd (reqs ! i)"
  let ?stuck = "\<lambda>sv ph. {i. i < ?n \<and> left_pending (row (sv_store sv)) (?rid i) (ph ! i)}"
  have "gw_heap (sv_gateway sv) = ?h \<and>
      ok (sv_store sv) \<and> (\<forall>i<?n. row_matches env ?h (row (sv_store sv)) (?q i) (?rid i) (ph ! i)) \<and>
      (\<forall>rid. rid \<notin> fst ` set reqs \<longrightarrow> row (sv_store sv) rid = row (sv_store sv0) rid) \<and>
      store_errors sv0 + card (?stuck sv ph) \<le> store_errors sv"
    using assms(1)
  proof (induction rule: serving.induct)
    case start
    have "\<not> left_pending r rid Waiting" for r rid by (simp add: left_pending_def has_ended_def)
    then have "?stuck sv0 (replicate ?n Waiting) = {}" by auto
    then show ?case using assms(2) fresh by (simp add: row_matches_def del: Collect_empty_eq)
  next
    case (turn sv ph k p sv')
    note k = turn.hyps(2) and len = serving_length [OF turn.hyps(1)]
    have IH: "ok (sv_store sv)" "row_matches env ?h (row (sv_store sv)) (?q k) (?rid k) (ph ! k)"
      "store_errors sv0 + card (?stuck sv ph) \<le> store_errors sv"
      and matches: "\<And>j. j < ?n \<Longrightarrow> row_matches env ?h (row (sv_store sv)) (?q j) (?rid j) (ph ! j)"
      and heap: "gw_heap (sv_gateway sv) = ?h"
      using turn.IH k by blast+
    note step = advance_row [OF IH(1) IH(2) [folded heap] turn.hyps(3), unfolded heap]
    have heap': "gw_heap (sv_gateway sv') = ?h" using advance_heap [OF turn.hyps(3)] heap by simp
    have a: "ok (sv_store sv')" "row_matches env ?h (row (sv_store sv')) (?q k) (?rid k) p"
      "\<And>i. i = ?rid k \<or> row (sv_store sv') i = row (sv_store sv) i"
      "store_errors sv + (if left_pending (row (sv_store sv')) (?rid k) p then 1 else 0) \<le> store_errors sv'"
      using step by simp_all
    have other: "row (sv_store sv') (?rid j) = row (sv_store sv) (?rid j)" if "j < ?n" "j \<noteq> k" for j
      using a(3) [of "?rid j"] that k assms(3) by (auto simp: distinct_conv_nth)
    have outside: "row (sv_store sv') rid = row (sv_store sv) rid" if "rid \<notin> fst ` set reqs" for rid
      using a(3) [of rid] that k by auto
    have "?stuck sv' (ph[k := p]) \<subseteq>
        ?stuck sv ph \<union> (if left_pending (row (sv_store sv')) (?rid k) p then {k} else {})"
    proof
      fix j assume j: "j \<in> ?stuck sv' (ph[k := p])"
      show "j \<in> ?stuck sv ph \<union> (if left_pending (row (sv_store sv')) (?rid k) p then {k} else {})"
      proof (cases "j = k")
        case True
        then have "left_pending (row (sv_store sv')) (?rid k) p" using j len k by simp
        then show ?thesis using True by simp
      next
        case False
        then have "j \<in> ?stuck sv ph" using j other [of j] by (simp add: left_pending_def)
        then show ?thesis by (rule UnI1)
      qed
    qed
    then have "card (?stuck sv' (ph[k := p])) \<le>
        card (?stuck sv ph \<union> (if left_pending (row (sv_store sv')) (?rid k) p then {k} else {}))"
      by (intro card_mono) auto
    also have "\<dots> \<le> card (?stuck sv ph) + (if left_pending (row (sv_store sv')) (?rid k) p then 1 else 0)"
      by (rule order.trans [OF card_Un_le]) simp
    finally have c: "store_errors sv0 + card (?stuck sv' (ph[k := p])) \<le> store_errors sv'"
      using IH(3) a(4) by linarith
    have "row_matches env ?h (row (sv_store sv')) (?q j) (?rid j) (ph[k := p] ! j)" if "j < ?n" for j
      using a(2) matches [OF that] other [OF that] len that
        row_matches_same [of "row (sv_store sv')" "?rid j" "row (sv_store sv)" env ?h "?q j" "ph ! j"]
      by (cases "j = k") simp_all
    then have m: "\<forall>j<?n. row_matches env ?h (row (sv_store sv')) (?q j) (?rid j) (ph[k := p] ! j)" by blast
    have o: "\<forall>rid. rid \<notin> fst ` set reqs \<longrightarrow> row (sv_store sv') rid = row (sv_store sv0) rid"
      using outside turn.IH by simp
    show ?case by (rule conjI [OF heap' conjI [OF a(1) conjI [OF m conjI [OF o c]]]])
  qed
  note R = this
  show "ok (sv_store sv)" by (rule R [THEN conjunct2, THEN conjunct1])
  show "i < length reqs \<Longrightarrow> row_matches env ?h (row (sv_store sv)) (?q i) (?rid i) (ph ! i)"
    using R [THEN conjunct2, THEN conjunct2, THEN conjunct1] by simp
  show "rid \<notin> fst ` set reqs \<Longrightarrow> row (sv_store sv) rid = row (sv_store sv0) rid"
    using R [THEN conjunct2, THEN conjunct2, THEN conjunct2, THEN conjunct1] by simp
  show "store_errors sv0 + card (?stuck sv ph) \<le> store_errors sv"
    by (rule R [THEN conjunct2, THEN conjunct2, THEN conjunct2, THEN conjunct2])
qed

end



subsection \<open>Every request is answered\<close>

lemma set_metrics_gw_ok [simp]:
  "gw_ok genv (g\<lparr>gw_metrics := mx\<rparr>) = gw_ok genv g"
  by (simp add: gw_ok_def)

lemma call_route_gateway:
  assumes "call_route env q account model route state sv w = Some (state', w', sv')"
    and "gw_ok genv (sv_gateway sv)" and "map_of (rs_proxies (gw_routing (sv_gateway sv))) model = Some route"
  shows "gw_ok genv (sv_gateway sv')"
proof -
  let ?key = "affinity_key account (hGet (cq_header q) ''X-Conversation-Id'')"
  let ?route' = "snd (selectBackend (sx_lib env) route ?key)"
  obtain sel route1 where s: "selectHealthyBackend (sx_lib env) (cq_health q) route ?key = (sel, route1)" by fastforce
  have "route1 = ?route'" using s by (metis snd_conv snd_selectHealthyBackend)
  with s have "\<exists>mx. sv_gateway sv' = (set_route model ?route' (sv_gateway sv))\<lparr>gw_metrics := mx\<rparr>"
    using assms(1)
    by (auto simp: call_route_def Let_def route_ServeHTTP_def set_metrics_def split: prod.splits option.splits selection.splits)
  then show ?thesis using gw_ok_set_route [OF assms(2,3), of ?route'] by auto
qed

text \<open>The status a routed request is answered with; 0 when the client left before there was one.\<close>

definition backend_status :: "'d serverEnv \<Rightarrow> completion \<Rightarrow> bytes \<Rightarrow> modelRoute \<Rightarrow> int" where
  "backend_status env q account route =
     (case chosen_backend env q account route of
        None \<Rightarrow> 503
      | Some b \<Rightarrow>
          (case cq_exchange q b of
             TransportError timed_out \<Rightarrow> if fst (cq_cancelled q) then 0 else error_status timed_out
           | Answer status ct reads \<Rightarrow> status))"

lemma server_frames [simp]:
  "gw_ok genv (sv_gateway (set_metrics mx sv)) = gw_ok genv (sv_gateway sv)"
  "gw_ok genv (sv_gateway (release env sv)) = gw_ok genv (sv_gateway sv)"
  "gw_ok genv (sv_gateway (count_metering_error op sv)) = gw_ok genv (sv_gateway sv)"
  "gw_ok genv (sv_gateway (finish_metering env store q st sv)) = gw_ok genv (sv_gateway sv)"
  by (simp_all add: set_metrics_def release_def count_metering_error_def finish_metering_def count_metered_def Let_def
      split: option.split prod.split sum.split)

lemma call_route_answer:
  assumes "route_ok (gw_heap (sv_gateway sv)) route" and "ring_law (sx_lib env)"
  obtains st' w' sv' where "call_route env q account model route (Some st) sv fresh_reply = Some (Some st', w', sv')"
    and "rp_status w' = backend_status env q account route"
  by (rule call_route_total [OF assms, where q = q and account = account and model = model and state = "Some st"
        and w = fresh_reply])
    (auto simp: backend_status_def split: option.splits exchange.splits)

text \<open>What a request is answered with once it holds a slot.\<close>

definition admitted_reply :: "'d serverEnv \<Rightarrow> completion \<Rightarrow> bytes \<Rightarrow> KeyIdentity \<Rightarrow> 'd server \<Rightarrow> bytes reply \<Rightarrow> bool" where
  "admitted_reply env q rid \<iota> sv w \<longleftrightarrow>
     (case find_route env (cq_body q) (sv_gateway sv) of
        Inl (status, message) \<Rightarrow>
          status \<in> {400, 404, 413} \<and> rp_status w = status \<and> rp_body w = ErrorBody message ''invalid_request_error''
      | Inr (model, streaming, route) \<Rightarrow>
          (case sx_store env of
             None \<Rightarrow> rp_status w = backend_status env q [] route
           | Some store \<Rightarrow> rp_status w =
               (if isl (fst (as_BeginUsage store (usage_start \<iota> rid model) (sv_store sv))) then 503
                else backend_status env q (ki_AccountID \<iota>) route)))"

lemma find_route_error:
  "find_route env b g = Inl (status, message) \<Longrightarrow>
     status \<in> {400, 404, 413} \<and> error_type status = ''invalid_request_error''"
  by (auto simp: find_route_def read_request_def error_type_def split: sum.splits option.splits if_splits prod.splits)

lemma admitted_reply_frame:
  "admit env (set_metrics mx sv) = Some sv1 \<Longrightarrow> admitted_reply env q rid \<iota> sv1 w = admitted_reply env q rid \<iota> sv w"
  by (auto simp: admitted_reply_def admit_def find_route_set_metrics split: option.splits if_splits sum.splits)

lemma serve_admitted_total:
  assumes "gw_ok genv (sv_gateway sv)" and "ring_law (sx_lib env)"
  obtains state' w' sv' where "serve_admitted env \<iota> q (Some st) sv (fresh_reply :: bytes reply) = Some (state', w', sv')"
    and "gw_ok genv (sv_gateway sv')" and "sv_inflight sv' = sv_inflight sv" and "admitted_reply env q (ob_id st) \<iota> sv w'"
proof (cases "find_route env (cq_body q) (sv_gateway sv)")
  case (Inl e)
  with assms that show thesis
    by (cases e) (auto simp: serve_admitted_def admitted_reply_def dest: find_route_error)
next
  case (Inr r)
  obtain model streaming route where r: "r = (model, streaming, route)" by (cases r)
  note m = routed_lookup [OF Inr [unfolded r]]
  have rt: "route_ok (gw_heap (sv_gateway sv)) route" by (rule gw_ok_route(1) [OF assms(1) m])
  show thesis
  proof (cases "sx_store env")
    case None
    obtain st' w' sv' where c: "call_route env q [] model route (Some st) sv fresh_reply = Some (Some st', w', sv')"
      and w': "rp_status w' = backend_status env q [] route"
      by (rule call_route_answer [OF rt assms(2)])
    show ?thesis
      by (rule that [of "Some st'" w' sv'])
        (use None Inr r c w' call_route_gateway [OF c assms(1) m] call_route_inflight [OF c] in \<open>auto simp: serve_admitted_def admitted_reply_def\<close>)
  next
    case (Some store)
    obtain res d where b: "as_BeginUsage store (usage_start \<iota> (ob_id st) model) (sv_store sv) = (res, d)" by fastforce
    show ?thesis
    proof (cases res)
      case (Inl e)
      with assms(1) Some Inr r b that show ?thesis by (auto simp: serve_admitted_def serve_metered_def admitted_reply_def)
    next
      case ok: (Inr u)
      let ?sv = "sv\<lparr>sv_store := d\<rparr>" and ?st = "st\<lparr>ob_usage := Some (new_capture streaming)\<rparr>"
      obtain st' w' sv' where c: "call_route env q (ki_AccountID \<iota>) model route (Some ?st) ?sv fresh_reply = Some (Some st', w', sv')"
        and w': "rp_status w' = backend_status env q (ki_AccountID \<iota>) route"
        by (rule call_route_answer [of ?sv route env, OF _ assms(2)]) (use rt in simp)
      have "gw_ok genv (sv_gateway sv')" by (rule call_route_gateway [OF c]) (simp_all add: assms(1) m)
      moreover have "sv_inflight sv' = sv_inflight sv" using call_route_inflight [OF c] by simp
      ultimately show ?thesis
        using Some Inr r b ok c w'
        by (intro that [of "Some st'" w' "finish_metering env store q st' sv'"])
          (auto simp: serve_admitted_def serve_metered_def admitted_reply_def)
    qed
  qed
qed

lemma admit_release:
  assumes "admit env sv = Some sv1" and "sv_inflight sv2 = sv_inflight sv1"
  shows "sv_inflight (release env sv2) = sv_inflight sv" and "sv_gateway sv1 = sv_gateway sv" and "sv_store sv1 = sv_store sv"
  using assms by (auto simp: admit_def release_def split: option.splits if_splits)

lemma admit_set_metrics: "admit env (set_metrics mx sv) = None \<longleftrightarrow> admit env sv = None"
  by (simp add: admit_def split: option.split)

text \<open>Authentication does not look at the metrics, and writes only an error.\<close>

lemma authenticate_who:
  "authenticate store d h mx (w :: 'b reply) = (who, mx', w') \<Longrightarrow>
     fst (authenticate store d h mx2 (w2 :: 'c reply)) = who \<and>
     (if who = None then rp_status w' \<in> {401, 503} else w' = w)"
  by (auto simp: authenticate_def unauthorized_def split: option.splits sum.splits if_splits)

text \<open>
  C13: In a well-formed gateway every completion request comes back with an answer, never with a panic:
  401 or 503 without an accepted key, 429 with Retry-After at the limit, 413, 400 or 404 for an
  unusable request, 503 when the usage record cannot be begun or no replica is healthy, and
  otherwise what the chosen backend answered, or 502 or 504 when it did not. The gateway stays
  well-formed and its slot is given back.
\<close>
theorem every_request_answered:
  assumes "gw_ok genv (sv_gateway sv)" and "ring_law (sx_lib env)"
  shows "\<exists>state' w' sv'. handleCompletions env q (Some (new_observation rid)) sv fresh_reply = Some (state', w', sv') \<and>
    gw_ok genv (sv_gateway sv') \<and> sv_inflight sv' = sv_inflight sv \<and>
    (case fst (authenticate (sx_store env) (sv_store sv) (cq_header q) no_metrics (fresh_reply :: unit reply)) of
       None \<Rightarrow> rp_status w' \<in> {401, 503}
     | Some \<iota> \<Rightarrow>
         if admit env sv = None then rp_status w' = 429 \<and> rp_header w' ''Retry-After'' = [''1'']
         else (case find_route env (cq_body q) (sv_gateway sv) of
             Inl (status, message) \<Rightarrow>
               status \<in> {400, 404, 413} \<and> rp_status w' = status \<and> rp_body w' = ErrorBody message ''invalid_request_error''
           | Inr (model, streaming, route) \<Rightarrow>
               (case sx_store env of
                  None \<Rightarrow> rp_status w' = backend_status env q [] route
                | Some store \<Rightarrow> rp_status w' =
                    (if isl (fst (as_BeginUsage store (usage_start \<iota> rid model) (sv_store sv))) then 503
                     else backend_status env q (ki_AccountID \<iota>) route))))"
proof -
  obtain who mx w where a: "authenticate (sx_store env) (sv_store sv) (cq_header q) (gw_metrics (sv_gateway sv))
      (fresh_reply :: bytes reply) = (who, mx, w)" by (metis prod_cases3)
  note who = authenticate_who [OF a, where ?mx2.0 = no_metrics and ?w2.0 = "fresh_reply :: unit reply"]
  show ?thesis
  proof (cases who)
    case None
    with a who assms(1) show ?thesis by (auto simp: handleCompletions_def)
  next
    case (Some \<iota>)
    then have w: "w = fresh_reply" using who by simp
    show ?thesis
    proof (cases "admit env (set_metrics mx sv)")
      case None
      then have "admit env sv = None" by (simp add: admit_set_metrics)
      with a who Some None assms(1) show ?thesis
        by (auto simp: handleCompletions_def serveCompletions_def refuse_limit_def)
    next
      case ad: (Some sv1)
      then obtain x where limit: "admit env sv = Some x" using admit_set_metrics [of env mx sv] by auto
      have "gw_ok genv (sv_gateway sv1)" using admit_release(2) [OF ad refl] assms(1) by simp
      then obtain state' w' sv2
        where s: "serve_admitted env \<iota> q (Some (new_observation rid)) sv1 (fresh_reply :: bytes reply) = Some (state', w', sv2)"
          and g: "gw_ok genv (sv_gateway sv2)" "sv_inflight sv2 = sv_inflight sv1"
          and r: "admitted_reply env q (ob_id (new_observation rid)) \<iota> sv1 w'"
        by (rule serve_admitted_total [OF _ assms(2)])
      have "handleCompletions env q (Some (new_observation rid)) sv fresh_reply = Some (state', w', release env sv2)"
        using a Some ad s w by (simp add: handleCompletions_def serveCompletions_def)
      moreover have "gw_ok genv (sv_gateway (release env sv2))" "sv_inflight (release env sv2) = sv_inflight sv"
        using g admit_release(1) [OF ad g(2)] by simp_all
      moreover have "admitted_reply env q rid \<iota> sv w'"
        using r by (simp add: admitted_reply_frame [OF ad] new_observation_def)
      moreover have "fst (authenticate (sx_store env) (sv_store sv) (cq_header q) no_metrics (fresh_reply :: unit reply)) = Some \<iota>"
        using who Some by simp
      ultimately show ?thesis
        unfolding admitted_reply_def using limit by (intro exI [of _ state'] exI [of _ w'] exI [of _ "release env sv2"]) simp
    qed
  qed
qed

theorem every_request_answered_witness:
  "\<exists>g state' w' sv'. gw_ok (Membership.demo_env demo_one demo_two) g \<and>
     handleCompletions (demo_server_env None) demo_completion (Some (new_observation ''r''))
       \<lparr>sv_gateway = g, sv_inflight = 0, sv_store = ()\<rparr> fresh_reply = Some (state', w', sv')"
proof -
  obtain g where g: "gw_ok (Membership.demo_env demo_one demo_two) g"
    using demo_reachable [OF demo_registries_valid(1)] by metis
  have "ring_law (sx_lib (demo_server_env None))" using demo_ring_law by (simp add: demo_server_env_def)
  moreover have "gw_ok (Membership.demo_env demo_one demo_two) (sv_gateway \<lparr>sv_gateway = g, sv_inflight = 0, sv_store = ()\<rparr>)"
    using g by simp
  ultimately show ?thesis
    using every_request_answered [where env = "demo_server_env None" and sv = "\<lparr>sv_gateway = g, sv_inflight = 0, sv_store = ()\<rparr>"
        and q = demo_completion and rid = "''r''"] g by blast
qed

end
