(* ===== verification/Cookies.thy ===== *)
theory Cookies
  imports Http Codec
begin

text \<open>
  The session cookie (\<open>setSession\<close> and the reading and clearing of the cookie in
  \<open>gateway/portal.go\<close>), over \<open>net/http\<close>'s cookies: how a \<open>Cookie\<close> header is split and a value
  checked, and the text \<open>http.SetCookie\<close> adds.
\<close>

subsection \<open>Reading\<close>

definition ascii_space :: "char \<Rightarrow> bool" where
  "ascii_space c \<longleftrightarrow> c \<in> {CHR '' '', CHR 0x09, CHR 0x0A, CHR 0x0D}"

text \<open>\<open>textproto.TrimString\<close>.\<close>

definition trimString :: "bytes \<Rightarrow> bytes" where
  "trimString s = rev (dropWhile ascii_space (rev (dropWhile ascii_space s)))"

definition validCookieValueByte :: "char \<Rightarrow> bool" where
  "validCookieValueByte c \<longleftrightarrow>
     0x20 \<le> byte c \<and> byte c < 0x7F \<and> c \<noteq> CHR 0x22 \<and> c \<noteq> CHR '';'' \<and> c \<noteq> CHR 0x5C"

definition parseCookieValue :: "bytes \<Rightarrow> bytes option" where
  "parseCookieValue raw =
     (let v = (if length raw > 1 \<and> hd raw = CHR 0x22 \<and> last raw = CHR 0x22 then butlast (tl raw) else raw)
      in if list_all validCookieValueByte v then Some v else None)"

text \<open>The nonempty parts of one header line.\<close>

definition cookie_parts :: "bytes \<Rightarrow> bytes list" where
  "cookie_parts line = filter (\<lambda>p. p \<noteq> []) (map trimString (split_on CHR '';'' (trimString line)))"

definition cookie_value :: "bytes \<Rightarrow> bytes \<Rightarrow> bytes option" where
  "cookie_value name part =
     (case cut part CHR ''='' of (n, v, found) \<Rightarrow> if trimString n = name then parseCookieValue v else None)"

text \<open>\<open>r.Cookie(name)\<close>, for a name that is a token: the first cookie of that name, or \<open>ErrNoCookie\<close>.\<close>

definition readCookie :: "header \<Rightarrow> bytes \<Rightarrow> bytes option" where
  "readCookie h name =
     (case List.map_filter (cookie_value name) (concat (map cookie_parts (h ''Cookie''))) of
        [] \<Rightarrow> None
      | v # _ \<Rightarrow> Some v)"

subsection \<open>Setting\<close>

definition sanitizeCookieValue :: "bytes \<Rightarrow> bytes" where
  "sanitizeCookieValue v =
     (let v' = filter validCookieValueByte v in
      if v' = [] then []
      else if CHR '' '' \<in> set v' \<or> CHR '','' \<in> set v' then CHR 0x22 # v' @ [CHR 0x22] else v')"

definition sessionCookie :: bytes where
  "sessionCookie = ''vire_session''"

definition cookie_flags :: "bool \<Rightarrow> bytes" where
  "cookie_flags insecure = ''; HttpOnly'' @ (if insecure then [] else ''; Secure'') @ ''; SameSite=Strict''"

definition session_cookie :: "bool \<Rightarrow> bytes \<Rightarrow> bytes" where
  "session_cookie insecure token =
     sessionCookie @ ''='' @ sanitizeCookieValue token @ ''; Path=/api; Max-Age=604800'' @ cookie_flags insecure"

definition clear_cookie :: "bool \<Rightarrow> bytes" where
  "clear_cookie insecure = sessionCookie @ ''=; Path=/api; Max-Age=0'' @ cookie_flags insecure"

definition add_cookie :: "bytes \<Rightarrow> 'b reply \<Rightarrow> 'b reply" where
  "add_cookie cookie w =
     w\<lparr>rp_header := (rp_header w)(''Set-Cookie'' := rp_header w ''Set-Cookie'' @ [cookie])\<rparr>"

definition setSession :: "bool \<Rightarrow> bytes \<Rightarrow> 'b reply \<Rightarrow> 'b reply" where
  "setSession insecure token w = add_cookie (session_cookie insecure token) w"

lemma add_cookie_simps [simp]:
  "rp_status (add_cookie c w) = rp_status w" "rp_body (add_cookie c w) = rp_body w"
  "rp_header (add_cookie c w) = (rp_header w)(''Set-Cookie'' := rp_header w ''Set-Cookie'' @ [c])"
  by (simp_all add: add_cookie_def)

subsection \<open>The cookie comes back\<close>

text \<open>What a browser sends for a cookie it was set: its name and value, up to the attributes.\<close>

definition cookie_pair :: "bytes \<Rightarrow> bytes" where
  "cookie_pair set_cookie = fst (cut set_cookie CHR '';'')"

definition token_char :: "char \<Rightarrow> bool" where
  "token_char c \<longleftrightarrow> validCookieValueByte c \<and> c \<noteq> CHR '' '' \<and> c \<noteq> CHR '',''"

lemma token_char_value: "b64_value c \<noteq> None \<Longrightarrow> token_char c"
  by (auto simp: b64_value_def token_char_def validCookieValueByte_def byte_def Let_def split: if_splits)

lemma token_char_digit: "n < 64 \<Longrightarrow> token_char (b64_digit n)"
  by (rule token_char_value) (simp add: b64_value_digit)

lemma token_char_encode: "list_all token_char (b64_encode s)"
proof (induction s rule: b64_encode.induct)
  case (2 a)
  have "byte a div 4 < 64" "byte a mod 4 * 16 < 64" using byte_less [of a] by auto
  then show ?case by (simp add: token_char_digit)
next
  case (3 a b)
  have "byte a div 4 < 64" "byte a mod 4 * 16 + byte b div 16 < 64" "byte b mod 16 * 4 < 64"
    using byte_less [of a] byte_less [of b] by auto
  then show ?case by (simp add: token_char_digit)
next
  case (4 a b c rest)
  have "byte a div 4 < 64" "byte a mod 4 * 16 + byte b div 16 < 64" "byte b mod 16 * 4 + byte c div 64 < 64" "byte c mod 64 < 64"
    using byte_less [of a] byte_less [of b] byte_less [of c] by auto
  with 4 show ?case by (simp add: token_char_digit)
qed simp

lemma cut_none: "c \<notin> set xs \<Longrightarrow> cut xs c = (xs, [], False)"
  by (induction xs) auto

lemma dropWhile_id: "xs \<noteq> [] \<Longrightarrow> \<not> P (hd xs) \<Longrightarrow> dropWhile P xs = xs"
  by (cases xs) auto

lemma trimString_id:
  "xs \<noteq> [] \<Longrightarrow> \<not> ascii_space (hd xs) \<Longrightarrow> \<not> ascii_space (last xs) \<Longrightarrow> trimString xs = xs"
  by (simp add: trimString_def dropWhile_id hd_rev)

lemma token_char_simps:
  assumes "token_char c"
  shows "c \<noteq> CHR '';''" and "validCookieValueByte c" and "\<not> ascii_space c"
proof -
  show "c \<noteq> CHR '';''" "validCookieValueByte c"
    using assms by (simp_all add: token_char_def validCookieValueByte_def)
  have "\<not> validCookieValueByte (CHR 0x09)" "\<not> validCookieValueByte (CHR 0x0A)" "\<not> validCookieValueByte (CHR 0x0D)"
    by (simp_all add: validCookieValueByte_def byte_def)
  then have "c \<noteq> CHR 0x09" "c \<noteq> CHR 0x0A" "c \<noteq> CHR 0x0D"
    using assms unfolding token_char_def by blast+
  then show "\<not> ascii_space c" using assms by (simp add: ascii_space_def token_char_def)
qed

lemma cookie_pair_session:
  assumes "list_all token_char token"
  shows "cookie_pair (session_cookie insecure token) = ''vire_session='' @ token"
proof -
  have t: "filter validCookieValueByte token = token" "CHR '' '' \<notin> set token" "CHR '','' \<notin> set token" "CHR '';'' \<notin> set token"
    using assms by (auto simp: list_all_iff token_char_def validCookieValueByte_def intro: filter_True)
  then have "sanitizeCookieValue token = token" by (simp add: sanitizeCookieValue_def)
  then have "session_cookie insecure token =
      (''vire_session='' @ token) @ CHR '';'' # '' Path=/api; Max-Age=604800'' @ cookie_flags insecure"
    by (simp add: session_cookie_def sessionCookie_def)
  moreover have "CHR '';'' \<notin> set (''vire_session='' @ token)" using t(4) by simp
  then have "cut ((''vire_session='' @ token) @ CHR '';'' # '' Path=/api; Max-Age=604800'' @ cookie_flags insecure) CHR '';'' =
      (''vire_session='' @ token, '' Path=/api; Max-Age=604800'' @ cookie_flags insecure, True)" by (rule cut_append)
  ultimately show ?thesis unfolding cookie_pair_def by (simp only: fst_conv)
qed

lemma readCookie_pair:
  assumes "list_all token_char token"
  shows "readCookie (hSet h ''Cookie'' (''vire_session='' @ token)) sessionCookie = Some token"
proof -
  have tok: "\<not> ascii_space c" "c \<noteq> CHR '';''" "validCookieValueByte c" if "c \<in> set token" for c
    using assms that token_char_simps [of c] by (auto simp: list_all_iff)
  let ?l = "''vire_session='' @ token"
  have "\<not> ascii_space (last ?l)" using tok(1) [of "last token"] by (auto simp: ascii_space_def last_append)
  moreover have "\<not> ascii_space (hd ?l)" by (simp add: ascii_space_def)
  ultimately have tr: "trimString ?l = ?l" by (intro trimString_id) simp_all
  have "CHR '';'' \<notin> set ?l" using tok(2) by auto
  then have "split_on CHR '';'' ?l = [?l]" by (rule split_on_none)
  then have parts: "cookie_parts ?l = [?l]" unfolding cookie_parts_def tr by (simp only: list.map tr) simp
  have "\<not> (length token > 1 \<and> hd token = CHR 0x22 \<and> last token = CHR 0x22)"
    using tok(3) [of "hd token"] by (cases token) (auto simp: validCookieValueByte_def)
  then have v: "parseCookieValue token = Some token"
    using tok(3) by (auto simp: parseCookieValue_def list_all_iff)
  have c: "cut ?l CHR ''='' = (''vire_session'', token, True)"
    using cut_append [of "CHR ''=''" "''vire_session''" token] by simp
  have "trimString ''vire_session'' = ''vire_session''" by code_simp
  then have "cookie_value sessionCookie ?l = Some token"
    unfolding cookie_value_def c prod.case sessionCookie_def by (simp add: v)
  moreover have "concat (map cookie_parts (hSet h ''Cookie'' ?l ''Cookie'')) = [?l]"
    by (simp only: header_simps refl if_True list.map concat.simps parts append_Nil2)
  ultimately show ?thesis unfolding readCookie_def by (simp only: map_filter_simps option.case list.case)
qed

lemma readCookie_session:
  "list_all token_char token \<Longrightarrow>
     readCookie (hSet h ''Cookie'' (cookie_pair (session_cookie insecure token))) sessionCookie = Some token"
  unfolding cookie_pair_session by (rule readCookie_pair)

end
