(* ===== verification/Portal.thy ===== *)
theory Portal
  imports Cookies Completions Maintenance
begin

text \<open>
  The account portal (\<open>gateway/portal.go\<close> and \<open>portalChatHandler\<close> of \<open>gateway/proxy.go\<close>): the checks on
  browser requests, signup, login, logout, the account, its usage, its models, and the chat that
  runs a completion with the session's account. The store is a record of operations; the JSON
  decoder, \<open>mail.ParseAddress\<close>, \<open>url.Parse\<close> and \<open>strings.ToLower\<close> are parameters.
\<close>

subsection \<open>Interface and environment\<close>

record 'd portalStore =
  ps_Signup :: "bytes \<Rightarrow> bytes \<Rightarrow> bytes \<Rightarrow> 'd \<Rightarrow> (store_error + SignupResult) \<times> 'd"
  ps_Login :: "bytes \<Rightarrow> bytes \<Rightarrow> 'd \<Rightarrow> (store_error + PortalSession) \<times> 'd"
  ps_Session :: "bytes \<Rightarrow> 'd \<Rightarrow> store_error + PortalAccount"
  ps_Logout :: "bytes \<Rightarrow> 'd \<Rightarrow> (store_error + unit) \<times> 'd"
  ps_Usage :: "bytes \<Rightarrow> time \<Rightarrow> 'd \<Rightarrow> store_error + PortalUsage list"
  ps_ChatKeyID :: "bytes \<Rightarrow> 'd \<Rightarrow> store_error + bytes"

text \<open>
  \<open>px_parseAddress\<close> is the address part of what \<open>mail.ParseAddress\<close> returns. A decoder is the first
  \<open>Decode\<close> with \<open>DisallowUnknownFields\<close>: the value and the bytes after it, or an error.
\<close>

record 'd portalEnv =
  px_store :: "'d portalStore option"
  px_insecureCookies :: bool
  px_origin :: bytes
  px_parse :: url_parser
  px_parseAddress :: "bytes \<Rightarrow> bytes option"
  px_lower :: "bytes \<Rightarrow> bytes"
  px_signup :: "bytes \<Rightarrow> ((bytes \<times> bytes \<times> bytes) \<times> bytes) option"
  px_login :: "bytes \<Rightarrow> ((bytes \<times> bytes) \<times> bytes) option"

text \<open>\<open>br_body\<close>: the bytes the client sends and whether reading then fails.\<close>

record browserRequest =
  br_header :: header
  br_host :: bytes
  br_tls :: bool
  br_body :: "bytes \<times> bool"

text \<open>What the handlers encode; the tokens of \<open>SignupResult\<close> and \<open>PortalSession\<close> are left out by their tags.\<close>

datatype portal_body =
    SignupBody bytes bytes bytes
  | SessionBody PortalAccount
  | AccountBody PortalAccount
  | UsageBody "PortalUsage list"

subsection \<open>Checks\<close>

definition validSignup :: "(bytes \<Rightarrow> bytes option) \<Rightarrow> bytes \<Rightarrow> bytes \<Rightarrow> bool" where
  "validSignup parseAddress email name =
     (if length email = 0 \<or> length email > 254 \<or> length name = 0 \<or> length name > 100 then False
      else parseAddress email = Some email \<and> CHR 0x0D \<notin> set name \<and> CHR 0x0A \<notin> set name)"

definition validPassword :: "bytes \<Rightarrow> bool" where
  "validPassword password \<longleftrightarrow> utf8_valid password \<and> rune_count password \<ge> 10 \<and> length password \<le> 256"

text \<open>The request may go on (\<open>None\<close>), or the status and message it is refused with.\<close>

definition browserPost :: "'d portalEnv \<Rightarrow> browserRequest \<Rightarrow> (int \<times> bytes) option" where
  "browserPost env r =
     (if hGet (br_header r) ''Content-Type'' \<noteq> ''application/json'' then Some (415, ''JSON is required'')
      else
        let org = hGet (br_header r) ''Origin'' in
        if org = [] then None
        else (case px_parse env org of
            None \<Rightarrow> Some (403, ''cross-origin request denied'')
          | Some u \<Rightarrow>
              if (Host u \<noteq> br_host r \<and> org \<noteq> px_origin env) \<or> HasUser u \<or> Path u \<noteq> [] \<or> RawQuery u \<noteq> [] \<or>
                 Fragment u \<noteq> [] \<or> (Scheme u \<noteq> ''https'' \<and> Scheme u \<noteq> ''http'')
              then Some (403, ''cross-origin request denied'')
              else if br_tls r \<and> Scheme u \<noteq> ''https'' then Some (403, ''cross-origin request denied'')
              else None))"

text \<open>
  One value and then the end, within the 4096 bytes of \<open>MaxBytesReader\<close>: a longer body makes one of
  the two \<open>Decode\<close> calls see more input or the reader's error, never \<open>io.EOF\<close>.
\<close>

definition readPortalJSON :: "(bytes \<Rightarrow> ('v \<times> bytes) option) \<Rightarrow> bytes \<times> bool \<Rightarrow> 'v option" where
  "readPortalJSON decode b =
     (case b of (data, failed) \<Rightarrow>
        if length data > 4096 \<or> failed then None
        else (case decode data of
            None \<Rightarrow> None
          | Some (v, rest) \<Rightarrow> if list_all json_space rest then Some v else None))"

definition noStore :: "'b reply \<Rightarrow> 'b reply" where
  "noStore w = set_reply_header ''Cache-Control'' ''no-store'' w"

definition sessionAccount ::
    "'d portalEnv \<Rightarrow> header \<Rightarrow> 'd \<Rightarrow> (int \<times> bytes) + PortalAccount \<times> bytes" where
  "sessionAccount env h d =
     (case px_store env of
        None \<Rightarrow> Inl (503, ''account portal is unavailable'')
      | Some s \<Rightarrow>
          (case readCookie h sessionCookie of
             None \<Rightarrow> Inl (401, ''sign in required'')
           | Some token \<Rightarrow>
               (case ps_Session s token d of
                  Inl e \<Rightarrow>
                    Inl (if e = InvalidSession then (401, ''sign in required'')
                         else (503, ''account portal is unavailable''))
                | Inr account \<Rightarrow> Inr (account, token))))"

subsection \<open>Handlers\<close>

definition refuse :: "'b reply \<Rightarrow> int \<times> bytes \<Rightarrow> 'b reply" where
  "refuse w err = (case err of (status, message) \<Rightarrow> writeAPIError w status message)"

definition signupHandler ::
    "'d portalEnv \<Rightarrow> browserRequest \<Rightarrow> 'd \<Rightarrow> portal_body reply \<Rightarrow> portal_body reply \<times> 'd" where
  "signupHandler env r d w0 =
     (let w = noStore w0 in
      case px_store env of
        None \<Rightarrow> (writeAPIError w 503 ''account signup is unavailable'', d)
      | Some s \<Rightarrow>
          (case browserPost env r of
             Some err \<Rightarrow> (refuse w err, d)
           | None \<Rightarrow>
               (case readPortalJSON (px_signup env) (br_body r) of
                  None \<Rightarrow> (writeAPIError w 400 ''invalid request'', d)
                | Some (email0, name0, password) \<Rightarrow>
                    let email = px_lower env (trimSpace email0); name = trimSpace name0 in
                    if \<not> validSignup (px_parseAddress env) email name \<or> \<not> validPassword password
                    then (writeAPIError w 400
                            ''valid email, account name, and password of at least 10 characters are required'', d)
                    else (case ps_Signup s email name password d of
                        (Inl e, d') \<Rightarrow>
                          (if e = EmailTaken then writeAPIError w 409 ''email is already registered''
                           else writeAPIError w 503 ''account signup is unavailable'', d')
                      | (Inr res, d') \<Rightarrow>
                          (write_json (setSession (px_insecureCookies env) (su_SessionToken res) w) 201
                             (SignupBody (su_AccountID res) (su_KeyID res) (su_APIKey res)), d')))))"

definition loginHandler ::
    "'d portalEnv \<Rightarrow> browserRequest \<Rightarrow> 'd \<Rightarrow> portal_body reply \<Rightarrow> portal_body reply \<times> 'd" where
  "loginHandler env r d w0 =
     (let w = noStore w0 in
      case px_store env of
        None \<Rightarrow> (writeAPIError w 503 ''account login is unavailable'', d)
      | Some s \<Rightarrow>
          (case browserPost env r of
             Some err \<Rightarrow> (refuse w err, d)
           | None \<Rightarrow>
               (case readPortalJSON (px_login env) (br_body r) of
                  None \<Rightarrow> (writeAPIError w 400 ''invalid request'', d)
                | Some (email0, password) \<Rightarrow>
                    let email = px_lower env (trimSpace email0) in
                    if length email > 254 \<or> length password > 256 \<or> email = [] \<or> password = []
                    then (writeAPIError w 401 ''invalid email or password'', d)
                    else (case ps_Login s email password d of
                        (Inl e, d') \<Rightarrow>
                          (if e = LoginLimited
                           then writeAPIError (set_reply_header ''Retry-After'' ''900'' w) 429 ''too many attempts; try again later''
                           else if e = InvalidCredentials then writeAPIError w 401 ''invalid email or password''
                           else writeAPIError w 503 ''account login is unavailable'', d')
                      | (Inr res, d') \<Rightarrow>
                          (write_json (setSession (px_insecureCookies env) (po_Token res) w) 200
                             (SessionBody (po_Account res)), d')))))"

definition accountHandler :: "'d portalEnv \<Rightarrow> header \<Rightarrow> 'd \<Rightarrow> portal_body reply \<Rightarrow> portal_body reply" where
  "accountHandler env h d w0 =
     (let w = noStore w0 in
      case sessionAccount env h d of
        Inl err \<Rightarrow> refuse w err
      | Inr (account, token) \<Rightarrow> write_json w 200 (AccountBody account))"

definition usageHandler :: "'d portalEnv \<Rightarrow> time \<Rightarrow> header \<Rightarrow> 'd \<Rightarrow> portal_body reply \<Rightarrow> portal_body reply" where
  "usageHandler env now h d w0 =
     (let w = noStore w0 in
      case sessionAccount env h d of
        Inl err \<Rightarrow> refuse w err
      | Inr (account, token) \<Rightarrow>
          (case ps_Usage (the (px_store env)) (pa_AccountID account) (now - 29 * microseconds_per_day) d of
             Inl e \<Rightarrow> writeAPIError w 503 ''usage is unavailable''
           | Inr rows \<Rightarrow> write_json w 200 (UsageBody rows)))"

definition logoutHandler ::
    "'d portalEnv \<Rightarrow> browserRequest \<Rightarrow> 'd \<Rightarrow> portal_body reply \<Rightarrow> portal_body reply \<times> 'd" where
  "logoutHandler env r d w0 =
     (let w = noStore w0 in
      case browserPost env r of
        Some err \<Rightarrow> (refuse w err, d)
      | None \<Rightarrow>
          (case sessionAccount env (br_header r) d of
             Inl err \<Rightarrow> (refuse w err, d)
           | Inr (account, token) \<Rightarrow>
               (case ps_Logout (the (px_store env)) token d of
                  (Inl e, d') \<Rightarrow> (writeAPIError w 503 ''logout is unavailable'', d')
                | (Inr _, d') \<Rightarrow>
                    ((add_cookie (clear_cookie (px_insecureCookies env)) w)\<lparr>rp_status := 204\<rparr>, d'))))"

subsection \<open>Chat\<close>

text \<open>
  The completion a chat becomes: without the session cookie and without credentials. The path it is
  sent under does not change what \<open>serveCompletions\<close> does.
\<close>

definition strip_session :: "completion \<Rightarrow> completion" where
  "strip_session q = q\<lparr>cq_header := hDel (hDel (cq_header q) ''Cookie'') ''Authorization''\<rparr>"

definition portalChatHandler ::
    "'d portalEnv \<Rightarrow> 'd serverEnv \<Rightarrow> browserRequest \<Rightarrow> completion \<Rightarrow> requestObservation option \<Rightarrow> 'd server \<Rightarrow>
     bytes reply \<Rightarrow> (requestObservation option \<times> bytes reply \<times> 'd server) option" where
  "portalChatHandler env senv r q state sv w0 =
     (let w = noStore w0 in
      case browserPost env r of
        Some err \<Rightarrow> Some (state, refuse w err, sv)
      | None \<Rightarrow>
          (case sessionAccount env (cq_header q) (sv_store sv) of
             Inl err \<Rightarrow> Some (state, refuse w err, sv)
           | Inr (account, token) \<Rightarrow>
               if sx_store senv = None then Some (state, writeAPIError w 503 ''chat is unavailable'', sv)
               else (case ps_ChatKeyID (the (px_store env)) (pa_AccountID account) (sv_store sv) of
                   Inl e \<Rightarrow> Some (state, writeAPIError w 503 ''chat is unavailable'', sv)
                 | Inr keyID \<Rightarrow>
                     if keyID = [] then Some (state, writeAPIError w 403 ''an active API key is required for chat'', sv)
                     else serveCompletions senv \<lparr>ki_AccountID = pa_AccountID account, ki_KeyID = keyID\<rparr>
                            (strip_session q) state sv w)))"

subsection \<open>Public models\<close>

text \<open>\<open>usd\<close> is the conversion of a micro rate to a floating-point rate per million.\<close>

record 'f publicModel =
  pm_ID :: bytes
  pm_DisplayName :: bytes
  pm_Pricing :: "('f \<times> 'f \<times> bool) option"

definition public_model :: "(int64 \<Rightarrow> 'f) \<Rightarrow> Model \<Rightarrow> 'f publicModel" where
  "public_model usd m =
     \<lparr>pm_ID = Name m, pm_DisplayName = (if DisplayName m = [] then Name m else DisplayName m),
      pm_Pricing = map_option (\<lambda>p. (usd (InputRateMicroPerMillion p), usd (OutputRateMicroPerMillion p), Example p)) (Pricing m)\<rparr>"

fun byName :: "(int64 \<Rightarrow> 'f) \<Rightarrow> Model list \<Rightarrow> (bytes \<times> 'f publicModel) list \<Rightarrow> (bytes \<times> 'f publicModel) list" where
  "byName usd [] acc = acc"
| "byName usd (m # ms) acc =
     (if map_of acc (Name m) \<noteq> None then byName usd ms acc
      else byName usd ms (AList.update (Name m) (public_model usd m) acc))"

definition public_models :: "(int64 \<Rightarrow> 'f) \<Rightarrow> Model list \<Rightarrow> 'f publicModel list" where
  "public_models usd models =
     (let m = byName usd models [] in map (\<lambda>n. the (map_of m n)) (sort (map fst m)))"

definition portalModelsHandler :: "(int64 \<Rightarrow> 'f) \<Rightarrow> Model list \<Rightarrow> 'f publicModel list reply \<Rightarrow> 'f publicModel list reply" where
  "portalModelsHandler usd models w = write_json w 200 (public_models usd models)"

end
