(* ===== verification/Account_Sessions.thy ===== *)
theory Account_Sessions
  imports Account_Keys
begin

text \<open>
  Signup, portal sessions and the login limit (\<open>internal/accountdb/portal.go\<close>): a signup
  happens completely or not at all, its key and its session work, a session lasts seven days or
  until the logout, and at most five passwords per email are compared in a window.
\<close>

subsection \<open>Finding a session\<close>

definition session_rows :: "time \<Rightarrow> bytes \<Rightarrow> database \<Rightarrow> PortalAccount set" where
  "session_rows now digest db =
     {\<lparr>pa_AccountID = ses_AccountID s, pa_Name = acc_Name a, pa_Email = usr_Email u\<rparr> | s u a.
        s \<in> set (db_sessions db) \<and> u \<in> set (db_users db) \<and> a \<in> set (db_accounts db) \<and>
        usr_ID u = ses_UserID s \<and> acc_ID a = ses_AccountID s \<and> ses_TokenHash s = digest \<and> now < ses_ExpiresAt s}"

lemma first_row:
  "(case rows of [] \<Rightarrow> Inl NoRows | r # _ \<Rightarrow> Inr r) = Inl NoRows \<and> set rows = {} \<or>
   (\<exists>r\<in>set rows. (case rows of [] \<Rightarrow> Inl NoRows | r # _ \<Rightarrow> Inr r) = Inr r)"
  by (cases rows) auto

lemma find_session_rows:
  "find_session now digest db = Inl NoRows \<and> session_rows now digest db = {} \<or>
   (\<exists>r\<in>session_rows now digest db. find_session now digest db = Inr r)"
proof -
  let ?rows = "concat (map (\<lambda>s. concat (map (\<lambda>u. concat (map (\<lambda>a.
      if usr_ID u = ses_UserID s \<and> acc_ID a = ses_AccountID s \<and> ses_TokenHash s = digest \<and> ses_ExpiresAt s > now
      then [\<lparr>pa_AccountID = ses_AccountID s, pa_Name = acc_Name a, pa_Email = usr_Email u\<rparr>]
      else []) (db_accounts db))) (db_users db))) (db_sessions db))"
  have "set ?rows = session_rows now digest db"
    unfolding session_rows_def by (auto split: if_splits)
  with first_row [of ?rows] show ?thesis unfolding find_session_def by (simp only:)
qed

text \<open>The primary keys make the row unique.\<close>

lemma session_row_unique:
  assumes ok: "db_ok db" and "s \<in> set (db_sessions db)" and "u \<in> set (db_users db)" and "a \<in> set (db_accounts db)"
    and "usr_ID u = ses_UserID s" and "acc_ID a = ses_AccountID s" and "ses_TokenHash s = digest"
  shows "session_rows now digest db =
    (if now < ses_ExpiresAt s
     then {\<lparr>pa_AccountID = ses_AccountID s, pa_Name = acc_Name a, pa_Email = usr_Email u\<rparr>} else {})"
proof -
  have d: "distinct (map ses_TokenHash (db_sessions db))" "distinct (map usr_ID (db_users db))"
    "distinct (map acc_ID (db_accounts db))"
    using ok by (simp_all add: db_ok_defs)
  let ?row = "\<lparr>pa_AccountID = ses_AccountID s, pa_Name = acc_Name a, pa_Email = usr_Email u\<rparr>"
  have s: "s' = s" if "s' \<in> set (db_sessions db)" "ses_TokenHash s' = digest" for s'
    by (rule distinct_map_eq [OF d(1) that(1) assms(2)]) (simp only: that(2) assms(7))
  have u: "u' = u" if "u' \<in> set (db_users db)" "usr_ID u' = ses_UserID s" for u'
    by (rule distinct_map_eq [OF d(2) that(1) assms(3)]) (simp only: that(2) assms(5))
  have a: "a' = a" if "a' \<in> set (db_accounts db)" "acc_ID a' = ses_AccountID s" for a'
    by (rule distinct_map_eq [OF d(3) that(1) assms(4)]) (simp only: that(2) assms(6))
  have "x = ?row \<and> now < ses_ExpiresAt s" if "x \<in> session_rows now digest db" for x
  proof -
    from that obtain s' u' a' where x: "x = \<lparr>pa_AccountID = ses_AccountID s', pa_Name = acc_Name a', pa_Email = usr_Email u'\<rparr>"
      "s' \<in> set (db_sessions db)" "u' \<in> set (db_users db)" "a' \<in> set (db_accounts db)"
      "usr_ID u' = ses_UserID s'" "acc_ID a' = ses_AccountID s'" "ses_TokenHash s' = digest" "now < ses_ExpiresAt s'"
      unfolding session_rows_def by blast
    have s': "s' = s" by (rule s [OF x(2,7)])
    have "u' = u" by (rule u [OF x(3)]) (simp only: x(5) s')
    moreover have "a' = a" by (rule a [OF x(4)]) (simp only: x(6) s')
    ultimately show ?thesis using x(1,8) s' by simp
  qed
  moreover have "?row \<in> session_rows now digest db" if "now < ses_ExpiresAt s"
    using that assms(2-7) unfolding session_rows_def by blast
  ultimately have "now < ses_ExpiresAt s \<Longrightarrow> session_rows now digest db = {?row}"
    "\<not> now < ses_ExpiresAt s \<Longrightarrow> session_rows now digest db = {}" by blast+
  then show ?thesis by (simp only: if_split) blast
qed

lemma find_session_unique:
  assumes "db_ok db" and "s \<in> set (db_sessions db)" and "u \<in> set (db_users db)" and "a \<in> set (db_accounts db)"
    and "usr_ID u = ses_UserID s" and "acc_ID a = ses_AccountID s" and "ses_TokenHash s = digest"
  shows "find_session now digest db =
    (if now < ses_ExpiresAt s
     then Inr \<lparr>pa_AccountID = ses_AccountID s, pa_Name = acc_Name a, pa_Email = usr_Email u\<rparr> else Inl NoRows)"
  using session_row_unique [OF assms, of now] find_session_rows [of now digest db]
  by (cases "now < ses_ExpiresAt s") auto

lemma sessionDigest_token:
  "length random = 32 \<Longrightarrow> sessionDigest env (b64_encode random) = Some (se_sha256 env (b64_encode random))"
  by (simp add: sessionDigest_def length_b64_encode b64_decode_encode)

lemma Session_token:
  "length random = 32 \<Longrightarrow> Session env t Fine (b64_encode random) db =
     (case find_session t (se_sha256 env (b64_encode random)) db of
        Inl e \<Rightarrow> Inl (if e = NoRows then InvalidSession else DatabaseError e)
      | Inr account \<Rightarrow> Inr account)"
  by (simp add: Session_def sessionDigest_token query_def)

subsection \<open>Signup\<close>

lemma Signup_Inr:
  assumes "Signup env now rnd fts email name password db = (Inr r, db')"
  obtains h where "hashPassword env (sr_salt rnd) password = Inr h" and "fts 7 = Fine"
    and "run_tx fts 1 (signup_statements env now rnd (normalize_email env email) (trimSpace name) h) db = Inr db'"
    and "r = \<lparr>su_AccountID = sr_accountID rnd, su_KeyID = sr_keyID rnd,
      su_APIKey = key_token (sr_keyID rnd) (sr_secret rnd), su_SessionToken = b64_encode (sr_session rnd)\<rparr>"
  using assms by (auto simp: Signup_def Let_def call_Inr exec_unit_Inr newSessionToken_def
      split: if_splits sum.splits)

text \<open>The rows a completed signup adds.\<close>

definition signup_db ::
    "storeEnv \<Rightarrow> time \<Rightarrow> signupRandom \<Rightarrow> bytes \<Rightarrow> bytes \<Rightarrow> bytes \<Rightarrow> database \<Rightarrow> database" where
  "signup_db env now rnd email name h db =
     db\<lparr>db_users := db_users db @ [\<lparr>usr_ID = sr_userID rnd, usr_Email = email, usr_CreatedAt = now\<rparr>],
        db_passwords := db_passwords db @ [(sr_userID rnd, h)],
        db_accounts := db_accounts db @ [\<lparr>acc_ID = sr_accountID rnd, acc_Name = name, acc_CreatedAt = now\<rparr>],
        db_members := db_members db @
          [\<lparr>mem_AccountID = sr_accountID rnd, mem_UserID = sr_userID rnd, mem_Role = ''owner''\<rparr>],
        db_keys := db_keys db @
          [\<lparr>key_ID = sr_keyID rnd, key_AccountID = sr_accountID rnd, key_CreatedByUserID = sr_userID rnd,
            key_Name = ''Default'', key_TokenHash = se_sha256 env (key_token (sr_keyID rnd) (sr_secret rnd)),
            key_CreatedAt = now, key_RevokedAt = None\<rparr>],
        db_sessions := db_sessions db @
          [\<lparr>ses_TokenHash = se_sha256 env (b64_encode (sr_session rnd)), ses_UserID = sr_userID rnd,
            ses_AccountID = sr_accountID rnd, ses_ExpiresAt = now + seven_days\<rparr>]\<rparr>"

lemma signup_tx:
  assumes "run_tx fts i (signup_statements env now rnd email name h) db = Inr db'"
  shows "db' = signup_db env now rnd email name h db \<and> text_ok (sr_keyID rnd) \<and> text_ok email \<and>
    sr_userID rnd \<notin> usr_ID ` set (db_users db) \<and> email \<notin> usr_Email ` set (db_users db)"
proof -
  from assms obtain d1 d2 d3 d4 d5 where
    1: "CreateUser now (sr_userID rnd) email db = Inr d1"
    and 2: "insert_password (sr_userID rnd) h d1 = Inr d2"
    and 3: "CreateAccount now (sr_accountID rnd) name d2 = Inr d3"
    and 4: "AddAccountOwner (sr_accountID rnd) (sr_userID rnd) d3 = Inr d4"
    and 5: "CreateAPIKey now (sr_keyID rnd) (sr_accountID rnd) (sr_userID rnd) ''Default''
      (se_sha256 env (key_token (sr_keyID rnd) (sr_secret rnd))) d4 = Inr d5"
    and 6: "insert_session now (se_sha256 env (b64_encode (sr_session rnd))) (sr_userID rnd) (sr_accountID rnd) d5 = Inr db'"
    unfolding signup_statements_def newSessionToken_def snd_conv run_tx_Cons_Inr by auto
  note d = 1 [unfolded inserts] 2 [unfolded inserts] 3 [unfolded inserts] 4 [unfolded inserts]
    5 [unfolded inserts] 6 [unfolded inserts]
  then have "d1 = db\<lparr>db_users := db_users db @ [\<lparr>usr_ID = sr_userID rnd, usr_Email = email, usr_CreatedAt = now\<rparr>]\<rparr>"
    by blast
  with d show ?thesis by (simp add: signup_db_def)
qed

text \<open>
  C16: A signup happens completely or not at all: an error leaves the database as it was, unless
  only the answer of the commit was lost, and then everything is there; a success has added the
  user, the password, the account, its owner, a key and a session, under an email that was free.
\<close>
theorem signup_atomic:
  "case Signup env now rnd fts email name password db of
     (Inl e, db') \<Rightarrow> db' = db \<or>
       (fts 7 = Unacknowledged \<and> e = DatabaseError Unavailable \<and>
        (\<exists>h. db' = signup_db env now rnd (normalize_email env email) (trimSpace name) h db))
   | (Inr r, db') \<Rightarrow>
       normalize_email env email \<notin> usr_Email ` set (db_users db) \<and>
       (\<exists>h. hashPassword env (sr_salt rnd) password = Inr h \<and>
            db' = signup_db env now rnd (normalize_email env email) (trimSpace name) h db)"
proof (cases "Signup env now rnd fts email name password db")
  case (Pair r db')
  show ?thesis
  proof (cases r)
    case (Inr x)
    show ?thesis
      by (rule Signup_Inr [OF Pair [unfolded Inr]]) (use Pair Inr signup_tx in \<open>auto simp: Pair Inr\<close>)
  next
    case (Inl e)
    then have "db' = db \<or> fts 7 = Unacknowledged \<and> e = DatabaseError Unavailable \<and>
        (\<exists>h. run_tx fts 1 (signup_statements env now rnd (normalize_email env email) (trimSpace name) h) db = Inr db')"
      using Pair
      by (auto simp: Signup_def Let_def exec_unit_def exec_def split: if_splits sum.splits fault.splits)
    then have "db' = db \<or> fts 7 = Unacknowledged \<and> e = DatabaseError Unavailable \<and>
        (\<exists>h. db' = signup_db env now rnd (normalize_email env email) (trimSpace name) h db)"
      using signup_tx by blast
    then show ?thesis by (simp only: Pair Inl prod.case sum.case)
  qed
qed

lemma signup_sessions:
  assumes "db_ok db" and "run_tx fts 1 (signup_statements env now rnd email name h) db = Inr db'"
    and "length (sr_session rnd) = 32"
  shows "Session env t Fine (b64_encode (sr_session rnd)) db' =
    (if t < now + seven_days
     then Inr \<lparr>pa_AccountID = sr_accountID rnd, pa_Name = name, pa_Email = email\<rparr> else Inl InvalidSession)"
proof -
  have db': "db' = signup_db env now rnd email name h db" using signup_tx [OF assms(2)] by blast
  have "db_ok db'" by (rule db_step_ok [OF db_step.step_signup [OF assms(2)] assms(1)])
  then show ?thesis
    unfolding Session_token [OF assms(3)]
    by (subst find_session_unique [where
          s = "\<lparr>ses_TokenHash = se_sha256 env (b64_encode (sr_session rnd)), ses_UserID = sr_userID rnd,
            ses_AccountID = sr_accountID rnd, ses_ExpiresAt = now + seven_days\<rparr>"
          and u = "\<lparr>usr_ID = sr_userID rnd, usr_Email = email, usr_CreatedAt = now\<rparr>"
          and a = "\<lparr>acc_ID = sr_accountID rnd, acc_Name = name, acc_CreatedAt = now\<rparr>"])
      (simp_all add: db' signup_db_def)
qed

text \<open>
  The key and the session a signup returns work at once: the key authenticates as the new
  account, and the session is the account's, with the cleaned name and email, for seven days.
\<close>
theorem signup_credentials_work:
  assumes "db_ok db" and "Signup env now rnd fts email name password db = (Inr r, db')"
    and "rand_text (sr_keyID rnd)" and "length (sr_secret rnd) = 32" and "length (sr_session rnd) = 32"
  shows "Authenticate env Fine (su_APIKey r) db' = Inr \<lparr>ki_AccountID = su_AccountID r, ki_KeyID = su_KeyID r\<rparr> \<and>
    Session env t Fine (su_SessionToken r) db' =
      (if t < now + seven_days
       then Inr \<lparr>pa_AccountID = su_AccountID r, pa_Name = trimSpace name, pa_Email = normalize_email env email\<rparr>
       else Inl InvalidSession)"
proof -
  obtain h where tx: "run_tx fts 1 (signup_statements env now rnd (normalize_email env email) (trimSpace name) h) db = Inr db'"
    and r: "r = \<lparr>su_AccountID = sr_accountID rnd, su_KeyID = sr_keyID rnd,
      su_APIKey = key_token (sr_keyID rnd) (sr_secret rnd), su_SessionToken = b64_encode (sr_session rnd)\<rparr>"
    by (rule Signup_Inr [OF assms(2)])
  have ok: "db_ok db'" by (rule db_step_ok [OF db_step.step_signup [OF tx] assms(1)])
  note t = signup_tx [OF tx]
  let ?k = "\<lparr>key_ID = sr_keyID rnd, key_AccountID = sr_accountID rnd, key_CreatedByUserID = sr_userID rnd,
    key_Name = ''Default'', key_TokenHash = se_sha256 env (key_token (sr_keyID rnd) (sr_secret rnd)),
    key_CreatedAt = now, key_RevokedAt = None\<rparr>"
  have "?k \<in> set (db_keys db')" using t by (simp add: signup_db_def)
  from AuthenticateI [OF ok this] t parse_key_token [OF assms(3,4)]
  have "Authenticate env Fine (key_token (sr_keyID rnd) (sr_secret rnd)) db' =
      Inr \<lparr>ki_AccountID = sr_accountID rnd, ki_KeyID = sr_keyID rnd\<rparr>" by simp
  with signup_sessions [OF assms(1) tx assms(5)] show ?thesis by (simp add: r)
qed

theorem signup_credentials_work_witness:
  "Authenticate demo_env Fine (key_token (replicate 26 CHR ''K'') (replicate 32 CHR ''s'')) demo_db =
     Inr \<lparr>ki_AccountID = replicate 26 CHR ''A'', ki_KeyID = replicate 26 CHR ''K''\<rparr> \<and>
   Session demo_env 1 Fine (b64_encode (replicate 32 CHR ''t'')) demo_db =
     Inr \<lparr>pa_AccountID = replicate 26 CHR ''A'', pa_Name = ''Acme'', pa_Email = ''a@b.c''\<rparr>"
proof -
  have "rand_text (sr_keyID demo_random)" "length (sr_secret demo_random) = 32" "length (sr_session demo_random) = 32"
    using demo_ids(1) by (simp_all only: demo_random_def signupRandom.simps length_replicate)
  from signup_credentials_work [OF empty_db_ok demo_signup this, of 1] show ?thesis
    by (simp only: demo_inputs SignupResult.simps) (simp add: seven_days_def microseconds_per_day_def del: replicate.simps)
qed

subsection \<open>Login and logout\<close>

lemma first_row_mem: "(case rows of [] \<Rightarrow> Inl NoRows | r # _ \<Rightarrow> Inr r) = Inr x \<Longrightarrow> x \<in> set rows"
  by (cases rows) auto

lemma find_login_rows:
  assumes "find_login email db = Inr (userID, account, encoded)"
  obtains u m a where "u \<in> set (db_users db)" and "m \<in> set (db_members db)" and "a \<in> set (db_accounts db)"
    and "usr_ID u = userID" and "usr_Email u = email" and "(userID, encoded) \<in> set (db_passwords db)"
    and "mem_UserID m = userID" and "acc_ID a = mem_AccountID m"
    and "account = \<lparr>pa_AccountID = acc_ID a, pa_Name = acc_Name a, pa_Email = email\<rparr>"
proof -
  let ?rows = "concat (map (\<lambda>u. concat (map (\<lambda>p. concat (map (\<lambda>m. concat (map (\<lambda>a.
      if usr_Email u = email \<and> fst p = usr_ID u \<and> mem_UserID m = usr_ID u \<and>
         mem_Role m = ''owner'' \<and> acc_ID a = mem_AccountID m
      then [(usr_ID u, \<lparr>pa_AccountID = acc_ID a, pa_Name = acc_Name a, pa_Email = usr_Email u\<rparr>, snd p)]
      else []) (db_accounts db))) (db_members db))) (db_passwords db))) (db_users db))"
  have "find_login email db = (if \<not> text_ok email then Inl BadText
      else case ?rows of [] \<Rightarrow> Inl NoRows | r # _ \<Rightarrow> Inr r)"
    by (rule find_login_def)
  with assms have "(userID, account, encoded) \<in> set ?rows"
    by - (rule first_row_mem, cases "text_ok email", simp_all only: if_False if_True not_False_eq_True not_True_eq_False, simp)
  then obtain u p m a where "u \<in> set (db_users db)" "p \<in> set (db_passwords db)" "m \<in> set (db_members db)"
    "a \<in> set (db_accounts db)" "usr_Email u = email" "fst p = usr_ID u" "mem_UserID m = usr_ID u"
    "acc_ID a = mem_AccountID m" "userID = usr_ID u" "encoded = snd p"
    "account = \<lparr>pa_AccountID = acc_ID a, pa_Name = acc_Name a, pa_Email = usr_Email u\<rparr>"
    by (auto split: if_splits)
  with that [of u m a] show thesis by (cases p) simp
qed

text \<open>A login that succeeds: the counter it read, the credentials, and the session it stored.\<close>

lemma Login_Inr:
  assumes "Login env now random fts email password db = (Inr s, db')"
  obtains n db1 userID account encoded db2 where
    "fts 0 = Fine" and "count_attempt now (normalize_email env email) db = Inr (n, db1)" and "n \<le> 5"
    and "find_login (normalize_email env email) db1 = Inr (userID, account, encoded)"
    and "se_compare env password encoded"
    and "insert_session now (se_sha256 env (b64_encode random)) userID (pa_AccountID account) db1 = Inr db2"
    and "db' = snd (exec_unit (fts 3) (delete_attempts (normalize_email env email)) db2)"
    and "s = \<lparr>po_Token = b64_encode random, po_Account = account\<rparr>"
proof -
  let ?e = "normalize_email env email"
  obtain r db1 where 1: "exec (fts 0) (count_attempt now ?e) db = (r, db1)" by fastforce
  with assms obtain n where r: "r = Inr n" "n \<le> 5"
    by (cases r) (auto simp: Login_def Let_def split: if_splits)
  with 1 assms obtain userID account encoded where
    q: "find_login ?e db1 = Inr (userID, account, encoded)" "se_compare env password encoded"
    by (auto simp: Login_def Let_def split: sum.splits if_splits)
  obtain r2 db2 where 2: "exec_unit (fts 2)
      (insert_session now (se_sha256 env (b64_encode random)) userID (pa_AccountID account)) db1 = (r2, db2)" by fastforce
  from assms 1 r q 2 obtain v where r2: "r2 = Inr v"
    "s = \<lparr>po_Token = b64_encode random, po_Account = account\<rparr>"
    "db' = snd (exec_unit (fts 3) (delete_attempts ?e) db2)"
    by (cases r2) (auto simp: Login_def Let_def newSessionToken_def query_def split: if_splits)
  show thesis
    by (rule that) (use 1 2 r r2 q in \<open>auto simp: exec_Inr exec_unit_Inr\<close>)
qed

lemma login_tables:
  "count_attempt now e db = Inr (n, db1) \<Longrightarrow> db_users db1 = db_users db \<and> db_accounts db1 = db_accounts db \<and>
     db_members db1 = db_members db \<and> db_sessions db1 = db_sessions db \<and> db_passwords db1 = db_passwords db"
  "db' = snd (exec_unit ft (delete_attempts e) db2) \<Longrightarrow>
     db_users db' = db_users db2 \<and> db_accounts db' = db_accounts db2 \<and> db_sessions db' = db_sessions db2"
  by (auto simp: count_attempt_def exec_unit_def exec_def delete_attempts_def
      split: if_splits option.splits fault.splits)

text \<open>
  The session of a login belongs to the account of the login and ends after seven days.
\<close>
lemma session_lifetime:
  assumes "db_ok db" and "Login env now random fts email password db = (Inr s, db')" and "length random = 32"
  shows "Session env t Fine (po_Token s) db' =
    (if t < now + seven_days then Inr (po_Account s) else Inl InvalidSession)"
proof -
  let ?e = "normalize_email env email" and ?h = "se_sha256 env (b64_encode random)"
  have "db_ok (snd (Login env now random fts email password db))" by (rule db_run_ok [OF Login_run assms(1)])
  then have ok: "db_ok db'" by (simp only: assms(2) snd_conv)
  obtain n db1 userID account encoded db2 where c: "count_attempt now ?e db = Inr (n, db1)"
    and f: "find_login ?e db1 = Inr (userID, account, encoded)"
    and i: "insert_session now ?h userID (pa_AccountID account) db1 = Inr db2"
    and d: "db' = snd (exec_unit (fts 3) (delete_attempts ?e) db2)"
    and s: "s = \<lparr>po_Token = b64_encode random, po_Account = account\<rparr>"
    by (rule Login_Inr [OF assms(2)])
  obtain u m a where r: "u \<in> set (db_users db1)" "a \<in> set (db_accounts db1)" "usr_ID u = userID" "usr_Email u = ?e"
    "account = \<lparr>pa_AccountID = acc_ID a, pa_Name = acc_Name a, pa_Email = ?e\<rparr>"
    by (rule find_login_rows [OF f])
  let ?s = "\<lparr>ses_TokenHash = ?h, ses_UserID = userID, ses_AccountID = pa_AccountID account,
    ses_ExpiresAt = now + seven_days\<rparr>"
  have "db2 = db1\<lparr>db_sessions := db_sessions db1 @ [?s]\<rparr>" using i by (simp add: inserts)
  then have mem: "?s \<in> set (db_sessions db')" "u \<in> set (db_users db')" "a \<in> set (db_accounts db')"
    using login_tables(2) [OF d] r(1,2) by simp_all
  have "usr_ID u = ses_UserID ?s" "acc_ID a = ses_AccountID ?s" "ses_TokenHash ?s = ?h"
    using r(3,5) by simp_all
  from find_session_unique [OF ok mem this, of t] r(4,5)
  have "find_session t ?h db' = (if t < now + seven_days then Inr account else Inl NoRows)" by simp
  then show ?thesis by (simp add: s Session_token [OF assms(3)])
qed

lemma demo_login:
  obtains db' where "Login demo_env 9 (replicate 32 CHR ''w'') (\<lambda>_. Fine) ''a@b.c'' ''correct horse'' demo_db =
    (Inr \<lparr>po_Token = b64_encode (replicate 32 CHR ''w''), po_Account =
       \<lparr>pa_AccountID = replicate 26 CHR ''A'', pa_Name = ''Acme'', pa_Email = ''a@b.c''\<rparr>\<rparr>, db')"
proof -
  let ?d1 = "demo_db\<lparr>db_attempts := [\<lparr>la_Email = ''a@b.c'', la_Attempts = 1, la_WindowStarted = 9\<rparr>]\<rparr>"
  let ?account = "\<lparr>pa_AccountID = replicate 26 CHR ''A'', pa_Name = ''Acme'', pa_Email = ''a@b.c''\<rparr>"
  obtain h where h_eq: "h = ''digest of '' @ b64_encode (replicate 32 CHR ''w'')" by blast
  let ?row = "\<lparr>ses_TokenHash = h, ses_UserID = replicate 26 CHR ''U'', ses_AccountID = replicate 26 CHR ''A'',
    ses_ExpiresAt = 9 + seven_days\<rparr>"
  let ?d2 = "?d1\<lparr>db_sessions := db_sessions ?d1 @ [?row]\<rparr>"
  have c: "count_attempt 9 ''a@b.c'' demo_db = Inr (1, ?d1)"
    by (simp add: count_attempt_def demo_db_def demo_inputs del: replicate.simps)
  have f: "find_login ''a@b.c'' ?d1 = Inr (replicate 26 CHR ''U'', ?account, ''argon2 of correct horse'')"
    by (simp add: find_login_def demo_db_def demo_inputs del: replicate.simps)
  have "replicate 32 CHR ''w'' \<noteq> replicate 32 CHR ''t''" by code_simp
  then have "b64_encode (replicate 32 CHR ''w'') \<noteq> b64_encode (replicate 32 CHR ''t'')"
    using b64_decode_encode by (metis option.inject)
  then have i: "insert_session 9 h (replicate 26 CHR ''U'') (replicate 26 CHR ''A'') ?d1 = Inr ?d2"
    by (simp add: insert_session_def demo_db_def demo_ids h_eq del: replicate.simps)
  have p: "se_compare demo_env ''correct horse'' ''argon2 of correct horse''"
    and h: "newSessionToken demo_env (replicate 32 CHR ''w'') = (b64_encode (replicate 32 CHR ''w''), h)"
    by (simp_all add: demo_env_def newSessionToken_def h_eq del: replicate.simps)
  have "Login demo_env 9 (replicate 32 CHR ''w'') (\<lambda>_. Fine) ''a@b.c'' ''correct horse'' demo_db =
    (Inr \<lparr>po_Token = b64_encode (replicate 32 CHR ''w''), po_Account = ?account\<rparr>,
     snd (exec_unit Fine (delete_attempts ''a@b.c'') ?d2))"
    unfolding Login_def Let_def demo_inputs(1)
    by (simp add: exec_unit_def exec_def query_def c f i p h del: replicate.simps)
  then show thesis by (rule that)
qed

text \<open>
  After a logout the session's token is refused, at any time.
\<close>
lemma logout_ends_session:
  assumes "Logout env ft token db = (Inr (), db')"
  shows "Session env t Fine token db' = Inl InvalidSession"
proof -
  from assms obtain digest where d: "sessionDigest env token = Some digest"
    and db': "db' = db\<lparr>db_sessions := filter (\<lambda>s. ses_TokenHash s \<noteq> digest) (db_sessions db)\<rparr>"
    by (auto simp: Logout_def exec_unit_def exec_def split: option.splits fault.splits)
  then have "session_rows t digest db' = {}" by (auto simp: session_rows_def)
  then have "find_session t digest db' = Inl NoRows" using find_session_rows [of t digest db'] by simp
  then show ?thesis by (simp add: Session_def d query_def)
qed

subsection \<open>The login limit\<close>

text \<open>Logins for one email, one after the other.\<close>

fun Logins ::
    "storeEnv \<Rightarrow> bytes \<Rightarrow> (time \<times> bytes \<times> (nat \<Rightarrow> fault) \<times> bytes) list \<Rightarrow> database \<Rightarrow>
     (store_error + PortalSession) list \<times> database" where
  "Logins env email [] db = ([], db)"
| "Logins env email ((now, random, fts, password) # as) db =
     (case Login env now random fts email password db of
        (r, db') \<Rightarrow> (case Logins env email as db' of (rs, db'') \<Rightarrow> (r # rs, db'')))"

definition counted :: "bytes \<Rightarrow> nat \<Rightarrow> time \<Rightarrow> database \<Rightarrow> bool" where
  "counted e n t0 db \<longleftrightarrow> (\<exists>a. find (\<lambda>a. la_Email a = e) (db_attempts db) = Some a \<and>
     la_Attempts a = int n \<and> la_WindowStarted a = t0)"

lemma find_append_None: "find P xs = None \<Longrightarrow> find P (xs @ ys) = find P ys"
  by (induction xs) (auto split: if_splits)

lemma find_map_same:
  assumes "\<And>x. P (f x) \<longleftrightarrow> P x"
  shows "find P (map f xs) = map_option f (find P xs)"
  using assms by (induction xs) simp_all

lemma count_attempt_counted:
  assumes "text_ok e" and "counted e n t0 db" and "now \<le> t0 + login_window" and "Suc n < 2 ^ 31"
  obtains db1 where "count_attempt now e db = Inr (int (Suc n), db1)" and "counted e (Suc n) t0 db1"
proof -
  from assms(2) obtain a where a: "find (\<lambda>a. la_Email a = e) (db_attempts db) = Some a" "la_Attempts a = int n"
    "la_WindowStarted a = t0" by (auto simp: counted_def)
  let ?f = "\<lambda>b. if la_Email b = e then next_attempt now b else b"
  have nxt: "la_Attempts (next_attempt now a) = int (Suc n)" "la_WindowStarted (next_attempt now a) = t0"
    using assms(3) a by (simp_all add: next_attempt_def)
  have "int (Suc n) < int (2 ^ 31)" using assms(4) by (simp only: of_nat_less_iff)
  then have "int (Suc n) < 2 ^ 31" by simp
  then have "count_attempt now e db = Inr (int (Suc n), db\<lparr>db_attempts := map ?f (db_attempts db)\<rparr>)"
    using assms(1) a(1) nxt(1) by (simp add: count_attempt_def)
  moreover have "find (\<lambda>a. la_Email a = e) (map ?f (db_attempts db)) = Some (next_attempt now a)"
    using a(1) find_SomeD [OF a(1)] by (subst find_map_same) (simp_all add: next_attempt_def)
  with nxt have "counted e (Suc n) t0 (db\<lparr>db_attempts := map ?f (db_attempts db)\<rparr>)"
    by (simp add: counted_def)
  ultimately show thesis by (rule that)
qed

lemma counted_attempts: "db_attempts db' = db_attempts db \<Longrightarrow> counted e n t0 db' = counted e n t0 db"
  by (simp add: counted_def)

lemma Login_failed:
  assumes "exec (fts 0) (count_attempt now (normalize_email env email)) db = (Inr m, db1)"
    and "Login env now random fts email password db = (r, db')" and "isl r"
  shows "db_attempts db' = db_attempts db1"
proof -
  have "db_attempts (snd (exec_unit ft (insert_session now h u a) db1)) = db_attempts db1" for ft h u a
    by (rule exec_unit_ok [where P = "\<lambda>d. db_attempts d = db_attempts db1"]) (auto simp: inserts)
  with assms show ?thesis
    by (auto simp: Login_def Let_def case_prod_beta' split: if_splits sum.splits)
qed

text \<open>One more login: it is refused once five have been counted, and a failure is counted.\<close>

lemma Login_counted:
  assumes "text_ok (normalize_email env email)" and "counted (normalize_email env email) n t0 db"
    and "now \<le> t0 + login_window" and "Suc n < 2 ^ 31" and "fts 0 = Fine"
    and l: "Login env now random fts email password db = (r, db')"
  shows "5 \<le> n \<Longrightarrow> r = Inl LoginLimited" and "isl r \<Longrightarrow> counted (normalize_email env email) (Suc n) t0 db'"
proof -
  let ?e = "normalize_email env email"
  obtain db1 where c: "count_attempt now ?e db = Inr (int (Suc n), db1)" and d: "counted ?e (Suc n) t0 db1"
    by (rule count_attempt_counted [OF assms(1-4)])
  then have x: "exec (fts 0) (count_attempt now ?e) db = (Inr (int (Suc n)), db1)"
    by (simp add: exec_def assms(5))
  show "r = Inl LoginLimited" if "5 \<le> n"
  proof -
    have "5 < int (Suc n)" using that by linarith
    with l x show ?thesis by (simp add: Login_def Let_def)
  qed
  show "counted ?e (Suc n) t0 db'" if "isl r"
    using d unfolding counted_attempts [OF Login_failed [OF x l that]] .
qed

lemma Logins_counted:
  assumes "text_ok (normalize_email env email)" and "counted (normalize_email env email) n t0 db"
    and "list_all (\<lambda>(now, random, fts, password). now \<le> t0 + login_window \<and> fts 0 = Fine) as"
    and "n + length as < 2 ^ 31" and "Logins env email as db = (rs, db')" and "i < length rs" and "5 \<le> n + i"
    and "list_all isl (take i rs)"
  shows "rs ! i = Inl LoginLimited"
  using assms(2-)
proof (induction as arbitrary: n db rs db' i)
  case (Cons a as)
  obtain now random fts password where a: "a = (now, random, fts, password)" by (metis prod_cases4)
  obtain r d where l: "Login env now random fts email password db = (r, d)" by fastforce
  obtain rs1 d1 where ls: "Logins env email as d = (rs1, d1)" by fastforce
  with Cons.prems(4) a l have rs: "rs = r # rs1" by simp
  have one: "5 \<le> n \<Longrightarrow> r = Inl LoginLimited" "isl r \<Longrightarrow> counted (normalize_email env email) (Suc n) t0 d"
    using Login_counted [OF assms(1) Cons.prems(1) _ _ _ l] Cons.prems(2,3) a by simp_all
  show ?case
  proof (cases i)
    case 0
    with one(1) Cons.prems(6) rs show ?thesis by simp
  next
    case (Suc j)
    with Cons.prems(7) rs have "isl r" "list_all isl (take j rs1)" by simp_all
    from Cons.IH [OF one(2) [OF this(1)] _ _ ls _ _ this(2)] Cons.prems(2,3,5,6) Suc rs a show ?thesis by simp
  qed
qed simp

text \<open>
  C15: Guessing is limited: of the logins for an email within fifteen minutes of the first, all
  from the sixth on are refused without looking at the password, unless one succeeded before.
\<close>
theorem guessing_is_limited:
  assumes "text_ok (normalize_email env email)"
    and "normalize_email env email \<notin> la_Email ` set (db_attempts db)"
    and "list_all (\<lambda>(now, random, fts, password). now \<le> t0 + login_window \<and> fts 0 = Fine) as"
    and "length as < 2 ^ 31 - 1" and "fts0 0 = Fine"
    and "Logins env email ((t0, random0, fts0, password0) # as) db = (rs, db')"
    and "5 \<le> i" and "i < length rs" and "list_all isl (take i rs)"
  shows "rs ! i = Inl LoginLimited"
proof -
  let ?e = "normalize_email env email"
  obtain r d where l: "Login env t0 random0 fts0 email password0 db = (r, d)" by fastforce
  obtain rs1 d1 where ls: "Logins env email as d = (rs1, d1)" by fastforce
  with assms(6) l have rs: "rs = r # rs1" by simp
  obtain j where i: "i = Suc j" using assms(7) by (cases i) auto
  with assms(9) rs have r: "isl r" "list_all isl (take j rs1)" by simp_all
  have none: "find (\<lambda>a. la_Email a = ?e) (db_attempts db) = None"
    using assms(2) by (force simp: find_None_iff)
  then have x: "exec (fts0 0) (count_attempt t0 ?e) db =
      (Inr 1, db\<lparr>db_attempts := db_attempts db @ [\<lparr>la_Email = ?e, la_Attempts = 1, la_WindowStarted = t0\<rparr>]\<rparr>)"
    (is "_ = (_, ?d1)") using assms(1,5) by (simp add: count_attempt_def exec_def)
  have "find (\<lambda>a. la_Email a = ?e) (db_attempts ?d1) = Some \<lparr>la_Email = ?e, la_Attempts = 1, la_WindowStarted = t0\<rparr>"
    by (simp add: find_append_None [OF none])
  then have "counted ?e 1 t0 ?d1" by (simp add: counted_def)
  then have "counted ?e 1 t0 d" unfolding counted_attempts [OF Login_failed [OF x l r(1)]] .
  from Logins_counted [OF assms(1) this assms(3) _ ls _ _ r(2)] assms(4,7,8) i rs show ?thesis by simp
qed

text \<open>Six wrong passwords for an email nobody registered: the last is refused unseen.\<close>

lemma demo_guesses:
  "Logins demo_env ''x@y'' (replicate 6 (0, [], \<lambda>_. Fine, ''guess'')) empty_db =
     (replicate 5 (Inl InvalidCredentials) @ [Inl LoginLimited],
      empty_db\<lparr>db_attempts := [\<lparr>la_Email = ''x@y'', la_Attempts = 6, la_WindowStarted = 0\<rparr>]\<rparr>)"
  by code_simp

theorem guessing_is_limited_witness:
  "fst (Logins demo_env ''x@y'' (replicate 6 (0, [], \<lambda>_. Fine, ''guess'')) empty_db) ! 5 = Inl LoginLimited"
proof -
  have a: "text_ok (normalize_email demo_env ''x@y'')"
    and b: "normalize_email demo_env ''x@y'' \<notin> la_Email ` set (db_attempts empty_db)"
    by code_simp+
  have c: "list_all (\<lambda>(now, random, fts, password). now \<le> 0 + login_window \<and> fts (0 :: nat) = Fine)
      (replicate 5 (0 :: time, [] :: bytes, \<lambda>_ :: nat. Fine, ''guess''))"
    by (simp add: list_all_iff login_window_def)
  have d: "Logins demo_env ''x@y'' ((0, [], \<lambda>_. Fine, ''guess'') # replicate 5 (0, [], \<lambda>_. Fine, ''guess'')) empty_db =
     (replicate 5 (Inl InvalidCredentials) @ [Inl LoginLimited],
      empty_db\<lparr>db_attempts := [\<lparr>la_Email = ''x@y'', la_Attempts = 6, la_WindowStarted = 0\<rparr>]\<rparr>)"
    using demo_guesses by (simp add: numeral_eq_Suc)
  have l: "length (replicate 5 (0 :: time, [] :: bytes, \<lambda>_ :: nat. Fine, ''guess'')) < 2 ^ 31 - 1" by simp
  show ?thesis
    unfolding demo_guesses fst_conv
    by (rule guessing_is_limited [OF a b c l _ d]) (simp_all add: list_all_iff)
qed

end
