(* ===== verification/Portal_Flows.thy ===== *)
theory Portal_Flows
  imports Portal Metering Account_Sessions
begin

text \<open>
  What the portal promises its users: signing up or logging in signs the browser in, logging out
  signs it out, only requests of the portal's own pages change anything, an account sees only
  itself, and a chat runs as the session's account without the session reaching a backend. The
  handlers are verified over what they need of the store (the locale \<open>portal_sessions\<close>), and the
  account database provides it (\<open>portal_database\<close>).
\<close>

subsection \<open>The store the handlers rely on\<close>

locale portal_sessions =
  fixes store :: "'d portalStore"
    and ok :: "'d \<Rightarrow> bool"
    and clean :: "bytes \<Rightarrow> bytes"
  assumes signup_session: "ok d \<Longrightarrow> ps_Signup store email name password d = (Inr r, d') \<Longrightarrow>
      list_all token_char (su_SessionToken r) \<and>
      ps_Session store (su_SessionToken r) d' =
        Inr \<lparr>pa_AccountID = su_AccountID r, pa_Name = trimSpace name, pa_Email = clean email\<rparr>"
    and login_session: "ok d \<Longrightarrow> ps_Login store email password d = (Inr s, d') \<Longrightarrow>
      list_all token_char (po_Token s) \<and> ps_Session store (po_Token s) d' = Inr (po_Account s)"
    and logout_session: "ps_Logout store token d = (Inr u, d') \<Longrightarrow> ps_Session store token d' = Inl InvalidSession"
begin

text \<open>The cookie a handler sets opens the account page as long as the store knows its token.\<close>

lemma account_page:
  assumes "px_store env = Some store" and "list_all token_char token" and "ps_Session store token d = Inr account"
  shows "accountHandler env (hSet h ''Cookie'' (cookie_pair (session_cookie insecure token))) d (fresh_reply :: portal_body reply) =
    write_json (noStore fresh_reply) 200 (AccountBody account)"
  using assms by (simp add: accountHandler_def sessionAccount_def readCookie_session Let_def)

lemma signup_page:
  assumes "ok d" and "px_store env = Some store" and "signupHandler env r d fresh_reply = (w, d')" and "rp_status w = 201"
  obtains token account i key secret where
    "rp_header w ''Set-Cookie'' = [session_cookie (px_insecureCookies env) token]"
    and "rp_body w = Content (SignupBody i key secret)" and "pa_AccountID account = i"
    and "accountHandler env (hSet h ''Cookie'' (cookie_pair (session_cookie (px_insecureCookies env) token))) d' fresh_reply =
      write_json (noStore fresh_reply) 200 (AccountBody account)"
proof -
  have b: "status \<in> {403, 415}" if "browserPost env r = Some (status, m)" for status m
    using that by (auto simp: browserPost_def Let_def split: if_splits option.splits)
  from assms(2-4) obtain email name password res where
    s: "ps_Signup store email name password d = (Inr res, d')"
    and w: "w = write_json (setSession (px_insecureCookies env) (su_SessionToken res) (noStore fresh_reply)) 201
        (SignupBody (su_AccountID res) (su_KeyID res) (su_APIKey res))"
    using b
    by (fastforce simp: signupHandler_def Let_def refuse_def split: option.splits sum.splits prod.splits if_splits)
  note t = signup_session [OF assms(1) s]
  show thesis
  proof (rule that)
    show "rp_header w ''Set-Cookie'' = [session_cookie (px_insecureCookies env) (su_SessionToken res)]"
      by (simp add: w setSession_def noStore_def)
    show "rp_body w = Content (SignupBody (su_AccountID res) (su_KeyID res) (su_APIKey res))" by (simp add: w)
    show "accountHandler env (hSet h ''Cookie'' (cookie_pair (session_cookie (px_insecureCookies env) (su_SessionToken res)))) d'
        fresh_reply = write_json (noStore fresh_reply) 200
          (AccountBody \<lparr>pa_AccountID = su_AccountID res, pa_Name = trimSpace name, pa_Email = clean email\<rparr>)"
      by (rule account_page [OF assms(2)]) (use t in simp_all)
  qed simp
qed

lemma login_page:
  assumes "ok d" and "px_store env = Some store" and "loginHandler env r d fresh_reply = (w, d')" and "rp_status w = 200"
  obtains token account where
    "rp_header w ''Set-Cookie'' = [session_cookie (px_insecureCookies env) token]"
    and "rp_body w = Content (SessionBody account)"
    and "accountHandler env (hSet h ''Cookie'' (cookie_pair (session_cookie (px_insecureCookies env) token))) d' fresh_reply =
      write_json (noStore fresh_reply) 200 (AccountBody account)"
proof -
  have b: "status \<in> {403, 415}" if "browserPost env r = Some (status, m)" for status m
    using that by (auto simp: browserPost_def Let_def split: if_splits option.splits)
  from assms(2-4) obtain email password res where s: "ps_Login store email password d = (Inr res, d')"
    and w: "w = write_json (setSession (px_insecureCookies env) (po_Token res) (noStore fresh_reply)) 200
        (SessionBody (po_Account res))"
    using b
    by (fastforce simp: loginHandler_def Let_def refuse_def split: option.splits sum.splits prod.splits if_splits)
  note t = login_session [OF assms(1) s]
  show thesis
  proof (rule that)
    show "rp_header w ''Set-Cookie'' = [session_cookie (px_insecureCookies env) (po_Token res)]"
      by (simp add: w setSession_def noStore_def)
    show "rp_body w = Content (SessionBody (po_Account res))" by (simp add: w)
    show "accountHandler env (hSet h ''Cookie'' (cookie_pair (session_cookie (px_insecureCookies env) (po_Token res)))) d'
        fresh_reply = write_json (noStore fresh_reply) 200 (AccountBody (po_Account res))"
      by (rule account_page [OF assms(2)]) (use t in simp_all)
  qed
qed

lemma logout_page:
  assumes "px_store env = Some store" and "logoutHandler env r d fresh_reply = (w, d')" and "rp_status w = 204"
  shows "rp_header w ''Set-Cookie'' = [clear_cookie (px_insecureCookies env)]"
    and "accountHandler env (br_header r) d' fresh_reply = writeAPIError (noStore (fresh_reply :: portal_body reply)) 401 ''sign in required''"
proof -
  have b: "status \<in> {403, 415}" if "browserPost env r = Some (status, m)" for status m
    using that by (auto simp: browserPost_def Let_def split: if_splits option.splits)
  have c: "status \<in> {401, 503}" if "sessionAccount env h d = Inl (status, m)" for h status m
    using that by (auto simp: sessionAccount_def split: option.splits sum.splits if_splits)
  from assms b c obtain account token u where s: "sessionAccount env (br_header r) d = Inr (account, token)"
    and l: "ps_Logout store token d = (Inr u, d')"
    and w: "w = (add_cookie (clear_cookie (px_insecureCookies env)) (noStore fresh_reply))\<lparr>rp_status := 204\<rparr>"
    by (fastforce simp: logoutHandler_def Let_def refuse_def split: option.splits sum.splits prod.splits if_splits)
  from s assms(1) have t: "readCookie (br_header r) sessionCookie = Some token"
    by (auto simp: sessionAccount_def split: option.splits sum.splits)
  show "rp_header w ''Set-Cookie'' = [clear_cookie (px_insecureCookies env)]" by (simp add: w noStore_def)
  show "accountHandler env (br_header r) d' fresh_reply = writeAPIError (noStore (fresh_reply :: portal_body reply)) 401 ''sign in required''"
    using t assms(1) logout_session [OF l] by (simp add: accountHandler_def sessionAccount_def refuse_def Let_def)
qed

end

subsection \<open>The account database as the store\<close>

text \<open>
  The portal's operations on the database: \<open>now\<close> is the time of the signup or login, \<open>later\<close> that of
  what follows; \<open>fts k\<close> are the faults of the calls of operation \<open>k\<close>. The lookup of the session is
  the call that must not be lost for an account page.
\<close>

definition portal_db ::
    "storeEnv \<Rightarrow> time \<Rightarrow> time \<Rightarrow> signupRandom \<Rightarrow> bytes \<Rightarrow> (nat \<Rightarrow> nat \<Rightarrow> fault) \<Rightarrow> database portalStore" where
  "portal_db senv now later rnd random fts =
     \<lparr>ps_Signup = Signup senv now rnd (fts 0), ps_Login = Login senv now random (fts 1),
      ps_Session = Session senv later Fine, ps_Logout = Logout senv (fts 2 0),
      ps_Usage = Usage (fts 3 0), ps_ChatKeyID = ChatKeyID (fts 4 0)\<rparr>"

lemma portal_db_sessions:
  assumes signup_random: "length (sr_session rnd) = 32" and login_random: "length random = 32"
    and in_time: "later < now + seven_days"
  shows "portal_sessions (portal_db senv now later rnd random fts) db_ok (normalize_email senv)"
proof
  fix d email name password r d'
  assume d: "db_ok d" and s: "ps_Signup (portal_db senv now later rnd random fts) email name password d = (Inr r, d')"
  then have s': "Signup senv now rnd (fts 0) email name password d = (Inr r, d')" by (simp add: portal_db_def)
  obtain h where tx: "run_tx (fts 0) 1 (signup_statements senv now rnd (normalize_email senv email) (trimSpace name) h) d = Inr d'"
    and r: "r = \<lparr>su_AccountID = sr_accountID rnd, su_KeyID = sr_keyID rnd,
      su_APIKey = key_token (sr_keyID rnd) (sr_secret rnd), su_SessionToken = b64_encode (sr_session rnd)\<rparr>"
    by (rule Signup_Inr [OF s'])
  from signup_sessions [OF d tx signup_random, of later] in_time
  show "list_all token_char (su_SessionToken r) \<and> ps_Session (portal_db senv now later rnd random fts) (su_SessionToken r) d' =
      Inr \<lparr>pa_AccountID = su_AccountID r, pa_Name = trimSpace name, pa_Email = normalize_email senv email\<rparr>"
    by (simp add: r portal_db_def token_char_encode)
next
  fix d email password s d'
  assume d: "db_ok d" and s: "ps_Login (portal_db senv now later rnd random fts) email password d = (Inr s, d')"
  then have s': "Login senv now random (fts 1) email password d = (Inr s, d')" by (simp add: portal_db_def)
  have "po_Token s = b64_encode random" by (rule Login_Inr [OF s']) simp
  with session_lifetime [OF d s' login_random, of later] in_time
  show "list_all token_char (po_Token s) \<and>
      ps_Session (portal_db senv now later rnd random fts) (po_Token s) d' = Inr (po_Account s)"
    by (simp add: portal_db_def token_char_encode)
next
  fix token d u d'
  assume "ps_Logout (portal_db senv now later rnd random fts) token d = (Inr u, d')"
  then show "ps_Session (portal_db senv now later rnd random fts) token d' = Inl InvalidSession"
    using logout_ends_session [of senv "fts 2 0" token d d' later] by (simp add: portal_db_def)
qed

locale portal_database =
  fixes senv :: storeEnv
    and now later :: time
    and rnd :: signupRandom
    and random :: bytes
    and fts :: "nat \<Rightarrow> nat \<Rightarrow> fault"
  assumes signup_random: "length (sr_session rnd) = 32"
    and login_random: "length random = 32"
    and in_time: "later < now + seven_days"

sublocale portal_database \<subseteq> portal_sessions "portal_db senv now later rnd random fts" db_ok "normalize_email senv"
  using signup_random login_random in_time by (rule portal_db_sessions)

interpretation demo_portal: portal_database demo_env 0 1 demo_random "replicate 32 CHR ''w''" "\<lambda>_ _. Fine"
  by unfold_locales
    (simp_all add: demo_random_def seven_days_def microseconds_per_day_def del: replicate.simps)

subsection \<open>A concrete portal\<close>

definition demo_portal_env :: "'d portalStore \<Rightarrow> 'd portalEnv" where
  "demo_portal_env store =
     \<lparr>px_store = Some store, px_insecureCookies = False, px_origin = [], px_parse = demo_parse, px_parseAddress = Some,
      px_lower = (\<lambda>s. s), px_signup = (\<lambda>b. Some ((''a@b.c'', ''Acme'', ''correct horse''), [])),
      px_login = (\<lambda>b. Some ((''a@b.c'', ''correct horse''), []))\<rparr>"

definition demo_portal_db :: "database portalStore" where
  "demo_portal_db = portal_db demo_env 0 1 demo_random (replicate 32 CHR ''w'') (\<lambda>_ _. Fine)"

definition demo_browser :: browserRequest where
  "demo_browser = \<lparr>br_header = hSet no_header ''Content-Type'' ''application/json'', br_host = ''h'', br_tls = True,
     br_body = (''{}'', False)\<rparr>"

lemma demo_portal_simps [simp]:
  "px_store (demo_portal_env store) = Some store" "px_insecureCookies (demo_portal_env store) = False"
  by (simp_all add: demo_portal_env_def)

lemma demo_signup_page:
  "signupHandler (demo_portal_env demo_portal_db) demo_browser empty_db fresh_reply =
     (write_json (setSession False (b64_encode (replicate 32 CHR ''t'')) (noStore fresh_reply)) 201
        (SignupBody (replicate 26 CHR ''A'') (replicate 26 CHR ''K'')
           (key_token (replicate 26 CHR ''K'') (replicate 32 CHR ''s''))), demo_db)"
proof -
  have "browserPost (demo_portal_env demo_portal_db) demo_browser = None"
    by (simp add: browserPost_def demo_browser_def hGet_def Let_def)
  moreover have "readPortalJSON (px_signup (demo_portal_env demo_portal_db)) (br_body demo_browser) =
      Some (''a@b.c'', ''Acme'', ''correct horse'')"
    by (simp add: readPortalJSON_def demo_browser_def demo_portal_env_def)
  moreover have "px_lower (demo_portal_env demo_portal_db) (trimSpace ''a@b.c'') = ''a@b.c''"
    using demo_inputs(1) by (simp add: demo_portal_env_def normalize_email_def demo_env_def)
  moreover have "validSignup (px_parseAddress (demo_portal_env demo_portal_db)) ''a@b.c'' ''Acme''"
    by (simp add: validSignup_def demo_portal_env_def)
  moreover have "validPassword ''correct horse''" by code_simp
  moreover have "ps_Signup demo_portal_db ''a@b.c'' ''Acme'' ''correct horse'' empty_db =
     (Inr \<lparr>su_AccountID = replicate 26 CHR ''A'', su_KeyID = replicate 26 CHR ''K'',
           su_APIKey = key_token (replicate 26 CHR ''K'') (replicate 32 CHR ''s''),
           su_SessionToken = b64_encode (replicate 32 CHR ''t'')\<rparr>, demo_db)"
    using demo_signup by (simp add: demo_portal_db_def portal_db_def del: replicate.simps)
  ultimately show ?thesis
    by (simp add: signupHandler_def demo_inputs Let_def del: replicate.simps)
qed

lemma demo_session:
  "ps_Session demo_portal_db (b64_encode (replicate 32 CHR ''t'')) demo_db =
     Inr \<lparr>pa_AccountID = replicate 26 CHR ''A'', pa_Name = ''Acme'', pa_Email = ''a@b.c''\<rparr>"
proof -
  have r: "length (sr_session demo_random) = 32" "length (replicate 32 CHR ''w'') = 32" "(1 :: time) < 0 + seven_days"
    by (simp_all add: demo_random_def seven_days_def microseconds_per_day_def del: replicate.simps)
  have "ps_Signup demo_portal_db ''a@b.c'' ''Acme'' ''correct horse'' empty_db =
     (Inr \<lparr>su_AccountID = replicate 26 CHR ''A'', su_KeyID = replicate 26 CHR ''K'',
           su_APIKey = key_token (replicate 26 CHR ''K'') (replicate 32 CHR ''s''),
           su_SessionToken = b64_encode (replicate 32 CHR ''t'')\<rparr>, demo_db)"
    using demo_signup by (simp add: demo_portal_db_def portal_db_def del: replicate.simps)
  from portal_sessions.signup_session [OF portal_db_sessions [OF r] empty_db_ok this [unfolded demo_portal_db_def]]
  show ?thesis by (simp add: demo_portal_db_def demo_inputs del: replicate.simps)
qed

subsection \<open>Properties\<close>

text \<open>
  C18: Signing up signs the browser in: the reply to a signup sets exactly one cookie, and a browser that
  sends it back, at any time within seven days, gets the page of the account the reply names.
\<close>
theorem signup_signs_in:
  assumes "db_ok d" and "length (sr_session rnd) = 32" and "length random = 32" and "later < now + seven_days"
    and "px_store env = Some (portal_db senv now later rnd random fts)"
    and "signupHandler env r d fresh_reply = (w, d')" and "rp_status w = 201"
  shows "\<exists>cookie i key secret account. rp_header w ''Set-Cookie'' = [cookie] \<and>
    rp_body w = Content (SignupBody i key secret) \<and> pa_AccountID account = i \<and>
    accountHandler env (hSet h ''Cookie'' (cookie_pair cookie)) d' fresh_reply =
      write_json (noStore fresh_reply) 200 (AccountBody account)"
proof -
  note p = portal_db_sessions [OF assms(2-4)]
  show ?thesis by (rule portal_sessions.signup_page [OF p assms(1,5-7), where h = h]) blast
qed

theorem signup_signs_in_witness:
  "\<exists>cookie account. rp_header (fst (signupHandler (demo_portal_env demo_portal_db) demo_browser empty_db fresh_reply)) ''Set-Cookie'' = [cookie] \<and>
     accountHandler (demo_portal_env demo_portal_db) (hSet no_header ''Cookie'' (cookie_pair cookie)) demo_db fresh_reply =
       write_json (noStore fresh_reply) 200 (AccountBody account)"
proof -
  have r: "length (sr_session demo_random) = 32" "length (replicate 32 CHR ''w'') = 32" "(1 :: time) < 0 + seven_days"
    by (simp_all add: demo_random_def seven_days_def microseconds_per_day_def del: replicate.simps)
  have s: "px_store (demo_portal_env demo_portal_db) =
      Some (portal_db demo_env 0 1 demo_random (replicate 32 CHR ''w'') (\<lambda>_ _. Fine))"
    by (simp add: demo_portal_db_def del: replicate.simps)
  from signup_signs_in [OF empty_db_ok r s demo_signup_page, of no_header] show ?thesis
    unfolding demo_signup_page fst_conv reply_simps by blast
qed

text \<open>
  Logging in signs the browser in: the reply sets exactly one cookie and names an account, and a
  browser that sends the cookie back within seven days gets that account's page.
\<close>
theorem login_signs_in:
  assumes "db_ok d" and "length (sr_session rnd) = 32" and "length random = 32" and "later < now + seven_days"
    and "px_store env = Some (portal_db senv now later rnd random fts)"
    and "loginHandler env r d fresh_reply = (w, d')" and "rp_status w = 200"
  shows "\<exists>cookie account. rp_header w ''Set-Cookie'' = [cookie] \<and> rp_body w = Content (SessionBody account) \<and>
    accountHandler env (hSet h ''Cookie'' (cookie_pair cookie)) d' fresh_reply =
      write_json (noStore fresh_reply) 200 (AccountBody account)"
proof -
  note p = portal_db_sessions [OF assms(2-4)]
  show ?thesis by (rule portal_sessions.login_page [OF p assms(1,5-7), where h = h]) blast
qed

theorem login_signs_in_witness:
  "\<exists>w d' cookie account. loginHandler (demo_portal_env (portal_db demo_env 9 10 demo_random (replicate 32 CHR ''w'') (\<lambda>_ _. Fine)))
       demo_browser demo_db fresh_reply = (w, d') \<and> rp_header w ''Set-Cookie'' = [cookie] \<and>
     accountHandler (demo_portal_env (portal_db demo_env 9 10 demo_random (replicate 32 CHR ''w'') (\<lambda>_ _. Fine)))
       (hSet no_header ''Cookie'' (cookie_pair cookie)) d' fresh_reply =
       write_json (noStore fresh_reply) 200 (AccountBody account)"
proof -
  let ?store = "portal_db demo_env 9 10 demo_random (replicate 32 CHR ''w'') (\<lambda>_ _. Fine)"
  let ?env = "demo_portal_env ?store"
  let ?account = "\<lparr>pa_AccountID = replicate 26 CHR ''A'', pa_Name = ''Acme'', pa_Email = ''a@b.c''\<rparr>"
  obtain db' where "Login demo_env 9 (replicate 32 CHR ''w'') (\<lambda>_. Fine) ''a@b.c'' ''correct horse'' demo_db =
      (Inr \<lparr>po_Token = b64_encode (replicate 32 CHR ''w''), po_Account = ?account\<rparr>, db')" by (rule demo_login)
  then have l: "ps_Login ?store ''a@b.c'' ''correct horse'' demo_db =
      (Inr \<lparr>po_Token = b64_encode (replicate 32 CHR ''w''), po_Account = ?account\<rparr>, db')"
    by (simp add: portal_db_def del: replicate.simps)
  have b: "browserPost ?env demo_browser = None" by (simp add: browserPost_def demo_browser_def hGet_def Let_def)
  have j: "readPortalJSON (px_login ?env) (br_body demo_browser) = Some (''a@b.c'', ''correct horse'')"
    by (simp add: readPortalJSON_def demo_browser_def demo_portal_env_def)
  have e: "px_lower ?env (trimSpace ''a@b.c'') = ''a@b.c''"
    using demo_inputs(1) by (simp add: demo_portal_env_def normalize_email_def demo_env_def)
  let ?w = "write_json (setSession False (b64_encode (replicate 32 CHR ''w'')) (noStore fresh_reply)) 200 (SessionBody ?account)"
  have h: "loginHandler ?env demo_browser demo_db fresh_reply = (?w, db')"
    by (simp add: loginHandler_def Let_def b j e l del: replicate.simps)
  have r: "length (sr_session demo_random) = 32" "length (replicate 32 CHR ''w'') = 32" "(10 :: time) < 9 + seven_days"
    by (simp_all add: demo_random_def seven_days_def microseconds_per_day_def del: replicate.simps)
  have "rp_status ?w = 200" by simp
  from login_signs_in [OF demo_db_ok r demo_portal_simps(1) h this, of no_header] h show ?thesis by blast
qed

text \<open>
  C19: Logging out signs the browser out: a logout that succeeds clears the cookie, and the cookie the
  browser had opens nothing any more.
\<close>
theorem logout_signs_out:
  assumes "length (sr_session rnd) = 32" and "length random = 32" and "later < now + seven_days"
    and "px_store env = Some (portal_db senv now later rnd random fts)"
    and "logoutHandler env r d fresh_reply = (w, d')" and "rp_status w = 204"
  shows "rp_header w ''Set-Cookie'' = [clear_cookie (px_insecureCookies env)] \<and>
    accountHandler env (br_header r) d' fresh_reply =
      writeAPIError (noStore (fresh_reply :: portal_body reply)) 401 ''sign in required''"
  using portal_sessions.logout_page [OF portal_db_sessions [OF assms(1-3)] assms(4-6)] by blast

theorem logout_signs_out_witness:
  "\<exists>w d'. logoutHandler (demo_portal_env demo_portal_db) (demo_browser\<lparr>br_header := hSet (br_header demo_browser) ''Cookie''
         (cookie_pair (session_cookie False (b64_encode (replicate 32 CHR ''t''))))\<rparr>) demo_db fresh_reply = (w, d') \<and>
     rp_header w ''Set-Cookie'' = [clear_cookie False]"
proof -
  let ?h = "hSet (br_header demo_browser) ''Cookie'' (cookie_pair (session_cookie False (b64_encode (replicate 32 CHR ''t''))))"
  let ?r = "demo_browser\<lparr>br_header := ?h\<rparr>"
  have r: "length (sr_session demo_random) = 32" "length (replicate 32 CHR ''w'') = 32" "(1 :: time) < 0 + seven_days"
    by (simp_all add: demo_random_def seven_days_def microseconds_per_day_def del: replicate.simps)
  have s: "px_store (demo_portal_env demo_portal_db) =
      Some (portal_db demo_env 0 1 demo_random (replicate 32 CHR ''w'') (\<lambda>_ _. Fine))"
    by (simp add: demo_portal_db_def del: replicate.simps)
  have c: "readCookie ?h sessionCookie = Some (b64_encode (replicate 32 CHR ''t''))"
    by (rule readCookie_session) (rule token_char_encode)
  have b: "browserPost (demo_portal_env demo_portal_db) ?r = None"
    by (simp add: browserPost_def demo_browser_def hGet_def Let_def)
  note a = demo_session
  obtain d' where l: "ps_Logout demo_portal_db (b64_encode (replicate 32 CHR ''t'')) demo_db = (Inr (), d')"
    by (simp add: demo_portal_db_def portal_db_def Logout_def sessionDigest_token exec_unit_def exec_def del: replicate.simps)
  have "logoutHandler (demo_portal_env demo_portal_db) ?r demo_db fresh_reply =
      ((add_cookie (clear_cookie False) (noStore fresh_reply))\<lparr>rp_status := 204\<rparr>, d')"
    by (simp add: logoutHandler_def Let_def b sessionAccount_def c a l del: replicate.simps)
  from logout_signs_out [OF r s this] this show ?thesis by (simp del: replicate.simps)
qed

text \<open>
  C20: A cross-site request changes nothing: a signup, login, logout or chat that has any effect on the
  store was sent as JSON, and its Origin, when the browser sent one, was an http origin without
  path or credentials, of the host the request came to or of the configured portal, and https
  when the request came over TLS.
\<close>
theorem only_own_pages_write:
  assumes "snd (signupHandler env r d w1) \<noteq> d \<or> snd (loginHandler env r d w2) \<noteq> d \<or> snd (logoutHandler env r d w3) \<noteq> d \<or>
    portalChatHandler env senv r q state sv w4 \<notin> {None} \<union> (\<lambda>w. Some (state, w, sv)) ` UNIV"
  shows "hGet (br_header r) ''Content-Type'' = ''application/json'' \<and>
    (let org = hGet (br_header r) ''Origin'' in
     org = [] \<or> (\<exists>u. px_parse env org = Some u \<and> (Host u = br_host r \<or> org = px_origin env) \<and>
       Scheme u \<in> {''http'', ''https''} \<and> (\<not> br_tls r \<or> Scheme u = ''https'') \<and>
       \<not> HasUser u \<and> Path u = [] \<and> RawQuery u = [] \<and> Fragment u = []))"
proof -
  have "browserPost env r = None"
  proof (rule ccontr)
    assume "browserPost env r \<noteq> None"
    then obtain err where "browserPost env r = Some err" by blast
    then show False using assms
      by (auto simp: signupHandler_def loginHandler_def logoutHandler_def portalChatHandler_def Let_def split: option.splits)
  qed
  then show ?thesis by (auto simp: browserPost_def Let_def split: if_splits option.splits)
qed

theorem only_own_pages_write_witness:
  "hGet (br_header demo_browser) ''Content-Type'' = ''application/json''"
proof -
  have "db_users demo_db \<noteq> db_users empty_db" by (simp add: demo_db_def empty_db_def)
  then have "snd (signupHandler (demo_portal_env demo_portal_db) demo_browser empty_db fresh_reply) \<noteq> empty_db"
    unfolding demo_signup_page snd_conv by metis
  from only_own_pages_write [OF disjI1 [OF this]] show ?thesis by blast
qed

text \<open>Over the database the session is a row.\<close>

lemma sessionAccount_rows:
  assumes "sessionAccount env h db = Inr (account, token)" and "px_store env = Some (portal_db senv now later rnd random fts)"
  obtains digest where "readCookie h sessionCookie = Some token" and "sessionDigest senv token = Some digest"
    and "account \<in> session_rows later digest db"
proof -
  have k: "readCookie h sessionCookie = Some token" and "Session senv later Fine token db = Inr account"
    using assms by (auto simp: sessionAccount_def portal_db_def split: option.splits sum.splits)
  then obtain digest where "sessionDigest senv token = Some digest" "find_session later digest db = Inr account"
    by (auto simp: Session_def query_def split: option.splits sum.splits)
  with find_session_rows [of later digest db] that k show thesis by auto
qed

text \<open>
  C22: A usage page is the session's own. What a browser is shown belongs to one account, that of a
  stored, unexpired session whose token the browser's cookie carries: a row for exactly the days and
  models of the last 30 days for which that account has daily totals or finished events not yet in the
  totals, the latest day first, each row with the sums over exactly that account's totals and events.
\<close>
theorem usage_page_is_own:
  assumes "px_store env = Some (portal_db senv now later rnd random fts)"
    and "rp_status (usageHandler env t h d fresh_reply) = 200"
  shows "\<exists>token digest account rows. readCookie h sessionCookie = Some token \<and> sessionDigest senv token = Some digest \<and>
    account \<in> session_rows later digest d \<and>
    rp_body (usageHandler env t h d fresh_reply) = Content (UsageBody rows) \<and>
    own_report (pa_AccountID account) (day_of t - 29) (db_daily d) (db_events d) rows"
proof -
  let ?store = "portal_db senv now later rnd random fts"
  have c: "status \<in> {401, 503}" if "sessionAccount env h d = Inl (status, m)" for status m
    using that by (auto simp: sessionAccount_def split: option.splits sum.splits if_splits)
  from assms c obtain account token rows where a: "sessionAccount env h d = Inr (account, token)"
    and u: "ps_Usage ?store (pa_AccountID account) (t - 29 * microseconds_per_day) d = Inr rows"
    by (fastforce simp: usageHandler_def Let_def refuse_def split: sum.splits prod.splits)
  have b: "rp_body (usageHandler env t h d fresh_reply) = Content (UsageBody rows)"
    using a u assms(1) by (simp add: usageHandler_def Let_def)
  have "day_of (t - 29 * microseconds_per_day) = day_of t - 29"
    by (simp add: day_of_def microseconds_per_day_def)
  then have "rows = usage_report (pa_AccountID account) (day_of t - 29) d"
    using u by (auto simp: portal_db_def Usage_def Let_def split: if_splits)
  then have own: "own_report (pa_AccountID account) (day_of t - 29) (db_daily d) (db_events d) rows"
    by (simp only: usage_report_own)
  obtain digest where "readCookie h sessionCookie = Some token" "sessionDigest senv token = Some digest"
    "account \<in> session_rows later digest d"
    by (rule sessionAccount_rows [OF a assms(1)])
  with b own show ?thesis by blast
qed

text \<open>One finished request of the signed-in account, and one of another account.\<close>

definition demo_used :: database where
  "demo_used = demo_db\<lparr>db_events :=
     [ledger_event\<lparr>ev_AccountID := replicate 26 CHR ''A'', ev_State := ''complete''\<rparr>,
      ledger_event\<lparr>ev_State := ''complete''\<rparr>]\<rparr>"

lemma demo_used_report:
  "usage_report (replicate 26 CHR ''A'') (-29) demo_used =
     [\<lparr>pu_Day = 0, pu_Model = ''m'', pu_Counts = Counts 1 1 0 0 0 0 0 0\<rparr>]"
proof -
  have ne: "(''a'' = replicate 26 CHR ''A'') = False" "(replicate 26 CHR ''A'' = ''a'') = False"
    by (simp_all add: eval_nat_numeral)
  have "usage_lines (replicate 26 CHR ''A'') (-29) demo_used = [((0, ''m''), Counts 1 1 0 0 0 0 0 0)]"
    by (simp add: usage_lines_def live_events_def demo_used_def demo_db_def ledger_event_def terminal_unrolled_def ne
        day_of_def microseconds_per_day_def event_counts_def or_zero_def Let_def zero_counts_def del: replicate.simps)
  then show ?thesis by (simp add: usage_report_def report_keys_def line_total_def Let_def zero_counts_def)
qed

theorem usage_page_is_own_witness:
  "\<exists>rows. rp_body (usageHandler (demo_portal_env demo_portal_db) 5
       (hSet no_header ''Cookie'' (cookie_pair (session_cookie False (b64_encode (replicate 32 CHR ''t''))))) demo_used fresh_reply) =
       Content (UsageBody rows) \<and> rows \<noteq> [] \<and>
     (\<exists>account. own_report account (-29) (db_daily demo_used) (db_events demo_used) rows)"
proof -
  let ?h = "hSet no_header ''Cookie'' (cookie_pair (session_cookie False (b64_encode (replicate 32 CHR ''t''))))"
  let ?account = "\<lparr>pa_AccountID = replicate 26 CHR ''A'', pa_Name = ''Acme'', pa_Email = ''a@b.c''\<rparr>"
  let ?page = "usageHandler (demo_portal_env demo_portal_db) 5 ?h demo_used (fresh_reply :: portal_body reply)"
  have c: "readCookie ?h sessionCookie = Some (b64_encode (replicate 32 CHR ''t''))"
    by (rule readCookie_session) (rule token_char_encode)
  have "find_session 1 digest demo_used = find_session 1 digest demo_db" for digest
    by (simp add: find_session_def demo_used_def)
  then have "Session demo_env 1 Fine tok demo_used = Session demo_env 1 Fine tok demo_db" for tok
    by (simp only: Session_def query_def)
  then have "ps_Session demo_portal_db tok demo_used = ps_Session demo_portal_db tok demo_db" for tok
    by (simp add: demo_portal_db_def portal_db_def)
  then have a: "sessionAccount (demo_portal_env demo_portal_db) ?h demo_used = Inr (?account, b64_encode (replicate 32 CHR ''t''))"
    by (simp add: sessionAccount_def c demo_session del: replicate.simps)
  have "day_of (5 - 29 * microseconds_per_day) = -29" by (simp add: day_of_def microseconds_per_day_def)
  then have u: "ps_Usage demo_portal_db (replicate 26 CHR ''A'') (5 - 29 * microseconds_per_day) demo_used =
      Inr [\<lparr>pu_Day = 0, pu_Model = ''m'', pu_Counts = Counts 1 1 0 0 0 0 0 0\<rparr>]"
    by (simp add: demo_portal_db_def portal_db_def Usage_def demo_ids Let_def demo_used_report counts_ok_def bigint_ok_def
        del: replicate.simps)
  have s: "px_store (demo_portal_env demo_portal_db) =
      Some (portal_db demo_env 0 1 demo_random (replicate 32 CHR ''w'') (\<lambda>_ _. Fine))"
    by (simp add: demo_portal_db_def del: replicate.simps)
  have ok: "rp_status ?page = 200" and body: "rp_body ?page = Content (UsageBody [\<lparr>pu_Day = 0, pu_Model = ''m'', pu_Counts = Counts 1 1 0 0 0 0 0 0\<rparr>])"
    unfolding usageHandler_def Let_def a by (simp_all add: u del: replicate.simps)
  have "day_of 5 - 29 = -29" by (simp add: day_of_def microseconds_per_day_def)
  with usage_page_is_own [OF s ok] body show ?thesis by auto
qed

lemma browserPost_status: "browserPost env r = Some (status, m) \<Longrightarrow> 400 \<le> status"
  by (auto simp: browserPost_def Let_def split: if_splits option.splits)

lemma sessionAccount_status: "sessionAccount env h d = Inl (status, m) \<Longrightarrow> 400 \<le> status"
  by (auto simp: sessionAccount_def split: option.splits sum.splits if_splits)

lemma ChatKeyID_row:
  assumes "ChatKeyID ft accountID db = Inr keyID" and "keyID \<noteq> []"
  obtains k where "k \<in> set (db_keys db)" and "key_AccountID k = accountID" and "key_RevokedAt k = None" and "key_ID k = keyID"
proof -
  obtain ks k where "sort_key key_CreatedAt (sort_key key_ID (filter (\<lambda>k. key_AccountID k = accountID \<and>
      key_RevokedAt k = None) (db_keys db))) = k # ks" and k: "keyID = key_ID k"
    using assms by (auto simp: ChatKeyID_def query_def chat_key_def split: sum.splits if_splits list.splits)
  from arg_cong [OF this(1), of set] that k show thesis by auto
qed

lemma outgoing_stripped:
  "or_Header (outgoing reencode pc st cn (hr\<lparr>ir_Header := cq_header (strip_session q)\<rparr>)) ''Cookie'' = []"
  "or_Header (outgoing reencode (pc\<lparr>pc_backendAPIKey := []\<rparr>) st cn (hr\<lparr>ir_Header := cq_header (strip_session q)\<rparr>)) ''Authorization'' = []"
  by (auto simp: rewrite_header_def proxy_header_def strip_session_def Let_def split: option.split)

text \<open>
  C21: A chat either answers an error and changes nothing, or is the completion of the session's account
  under an active key of that account; what it sends on carries neither the session cookie nor
  any credential of the browser.
\<close>
theorem chat_runs_as_account:
  assumes "px_store env = Some (portal_db senv now later rnd random fts)"
  shows "(\<exists>w'. portalChatHandler env sxenv r q state sv w = Some (state, w', sv) \<and> 400 \<le> rp_status w') \<or>
    (\<exists>token digest account k. readCookie (cq_header q) sessionCookie = Some token \<and>
       sessionDigest senv token = Some digest \<and> account \<in> session_rows later digest (sv_store sv) \<and>
       k \<in> set (db_keys (sv_store sv)) \<and> key_AccountID k = pa_AccountID account \<and> key_RevokedAt k = None \<and>
       portalChatHandler env sxenv r q state sv w =
         serveCompletions sxenv \<lparr>ki_AccountID = pa_AccountID account, ki_KeyID = key_ID k\<rparr> (strip_session q) state sv (noStore w) \<and>
       or_Header (outgoing reencode pc st cn (hr\<lparr>ir_Header := cq_header (strip_session q)\<rparr>)) ''Cookie'' = [] \<and>
       or_Header (outgoing reencode (pc\<lparr>pc_backendAPIKey := []\<rparr>) st cn (hr\<lparr>ir_Header := cq_header (strip_session q)\<rparr>)) ''Authorization'' = [])"
proof (cases "browserPost env r")
  case (Some err)
  then show ?thesis by (cases err) (auto simp: portalChatHandler_def Let_def refuse_def dest: browserPost_status)
next
  case ok: None
  show ?thesis
  proof (cases "sessionAccount env (cq_header q) (sv_store sv)")
    case (Inl err)
    with ok show ?thesis by (cases err) (auto simp: portalChatHandler_def Let_def refuse_def dest: sessionAccount_status)
  next
    case (Inr a)
    obtain account token where a: "a = (account, token)" by (cases a)
    obtain digest where own: "readCookie (cq_header q) sessionCookie = Some token" "sessionDigest senv token = Some digest"
        "account \<in> session_rows later digest (sv_store sv)"
      by (rule sessionAccount_rows [OF Inr [unfolded a] assms])
    show ?thesis
    proof (cases "sx_store sxenv = None \<or> ChatKeyID (fts 4 0) (pa_AccountID account) (sv_store sv) \<in> {Inr []} \<union> range Inl")
      case True
      with ok Inr a assms show ?thesis by (auto simp: portalChatHandler_def Let_def portal_db_def)
    next
      case False
      then obtain keyID where c: "ChatKeyID (fts 4 0) (pa_AccountID account) (sv_store sv) = Inr keyID" "keyID \<noteq> []"
        by (cases "ChatKeyID (fts 4 0) (pa_AccountID account) (sv_store sv)") auto
      obtain k where k: "k \<in> set (db_keys (sv_store sv))" "key_AccountID k = pa_AccountID account" "key_RevokedAt k = None"
        "key_ID k = keyID" by (rule ChatKeyID_row [OF c])
      have "portalChatHandler env sxenv r q state sv w =
          serveCompletions sxenv \<lparr>ki_AccountID = pa_AccountID account, ki_KeyID = key_ID k\<rparr> (strip_session q) state sv (noStore w)"
        using ok Inr a assms c False k(4) by (auto simp: portalChatHandler_def Let_def portal_db_def)
      with own k(1-3) outgoing_stripped show ?thesis by blast
    qed
  qed
qed

theorem chat_runs_as_account_witness:
  "\<exists>w'. portalChatHandler (demo_portal_env demo_portal_db) (demo_server_env (Some (database_store demo_env 5 6 (\<lambda>_. Fine))))
       demo_browser demo_completion None (demo_server demo_db) fresh_reply = Some (None, w', demo_server demo_db) \<and>
     400 \<le> rp_status w'"
proof -
  have s: "px_store (demo_portal_env demo_portal_db) =
      Some (portal_db demo_env 0 1 demo_random (replicate 32 CHR ''w'') (\<lambda>_ _. Fine))"
    by (simp add: demo_portal_db_def del: replicate.simps)
  have "readCookie (cq_header demo_completion) sessionCookie = None"
    by (simp add: readCookie_def demo_completion_def)
  with chat_runs_as_account [OF s, where q = demo_completion and r = demo_browser and state = None
      and sxenv = "demo_server_env (Some (database_store demo_env 5 6 (\<lambda>_. Fine)))" and sv = "demo_server demo_db"
      and w = fresh_reply]
  show ?thesis by simp
qed

lemma byName_lookup:
  "map_of (byName usd ms acc) n =
     (case map_of acc n of Some p \<Rightarrow> Some p | None \<Rightarrow> map_option (public_model usd) (find (\<lambda>m. Name m = n) ms))"
  by (induction ms arbitrary: acc) (auto simp: update_conv' split: option.splits)

lemma byName_keys:
  "distinct (map fst acc) \<Longrightarrow> distinct (map fst (byName usd ms acc)) \<and>
     set (map fst (byName usd ms acc)) = set (map fst acc) \<union> Name ` set ms"
proof (induction ms arbitrary: acc)
  case (Cons m ms)
  have "distinct (map fst (AList.update (Name m) (public_model usd m) acc))"
    "set (map fst (AList.update (Name m) (public_model usd m) acc)) = insert (Name m) (set (map fst acc))"
    using Cons.prems by (simp_all add: distinct_update dom_update)
  with Cons show ?case by (auto simp: map_of_eq_None_iff dest: map_of_SomeD)
qed simp

text \<open>
  The public list of models names every registered model once, in order of their names, each as its
  first entry in the registry presents it.
\<close>
theorem public_models_list:
  "let ms = public_models usd models in
   map pm_ID ms = sorted_list_of_set (Name ` set models) \<and>
   list_all (\<lambda>p. find (\<lambda>m. Name m = pm_ID p) models \<noteq> None \<and>
     p = public_model usd (the (find (\<lambda>m. Name m = pm_ID p) models))) ms"
proof -
  let ?m = "byName usd models []" and ?first = "\<lambda>n. find (\<lambda>m. Name m = n) models"
  have look: "map_of ?m n = map_option (public_model usd) (?first n)" for n by (simp add: byName_lookup)
  have keys: "distinct (map fst ?m)" "set (map fst ?m) = Name ` set models"
    using byName_keys [of "[]" usd models] by simp_all
  then have sorted: "sort (map fst ?m) = sorted_list_of_set (Name ` set models)"
    by (metis sorted_list_of_set_sort_remdups distinct_remdups_id)
  have found: "\<exists>m. ?first n = Some m \<and> Name m = n" if "n \<in> Name ` set models" for n
    using that by (cases "?first n") (auto simp: find_None_iff dest: find_SomeD)
  have "map (\<lambda>n. pm_ID (the (map_of ?m n))) (sort (map fst ?m)) = sort (map fst ?m)"
    using found keys(2) by (intro map_idI) (fastforce simp: look public_model_def)
  moreover have "list_all (\<lambda>p. ?first (pm_ID p) \<noteq> None \<and> p = public_model usd (the (?first (pm_ID p))))
      (map (\<lambda>n. the (map_of ?m n)) (sort (map fst ?m)))"
    unfolding list_all_iff
  proof
    fix p assume "p \<in> set (map (\<lambda>n. the (map_of ?m n)) (sort (map fst ?m)))"
    then obtain n where n: "n \<in> Name ` set models" "p = the (map_of ?m n)" using keys(2) by auto
    obtain m where m: "?first n = Some m" "Name m = n" using found [OF n(1)] by blast
    then have "p = public_model usd m" "pm_ID p = n" using n(2) by (simp_all add: look public_model_def)
    with m show "?first (pm_ID p) \<noteq> None \<and> p = public_model usd (the (?first (pm_ID p)))" by simp
  qed
  ultimately show ?thesis using sorted by (simp add: public_models_def Let_def comp_def)
qed

end
