(* ===== verification/Migration.thy ===== *)
theory Migration
  imports Account_Invariant
begin

text \<open>
  The schema migrations of \<open>internal/accountdb/store.go\<close>: one transaction under an advisory lock
  reads the highest version applied and runs the scripts that are missing. What a script does to
  the database is the parameter \<open>run\<close>; the scripts are the embedded files. The specification is
  \<open>upgraded\<close>: the missing scripts applied in order, and their versions recorded.
\<close>

subsection \<open>Migrate\<close>

record 'd versioned =
  vs_versions :: "int list option"
  vs_data :: 'd

record schemas =
  sch_v1 :: bytes
  sch_v2 :: bytes
  sch_v3 :: bytes

datatype migrate_error = SchemaNewer int | MigrateFailed pg_error

definition create_versions :: "'d versioned \<Rightarrow> pg_error + 'd versioned" where
  "create_versions db = Inr (case vs_versions db of None \<Rightarrow> db\<lparr>vs_versions := Some []\<rparr> | Some _ \<Rightarrow> db)"

text \<open>\<open>COALESCE(MAX(version), 0)\<close>\<close>

definition current_version :: "'d versioned \<Rightarrow> int" where
  "current_version db =
     (case vs_versions db of None \<Rightarrow> 0 | Some vs \<Rightarrow> if vs = [] then 0 else Max (set vs))"

definition insert_version :: "int \<Rightarrow> 'd versioned \<Rightarrow> pg_error + 'd versioned" where
  "insert_version v db =
     (case vs_versions db of
        None \<Rightarrow> Inl NoRows
      | Some vs \<Rightarrow>
          if v \<in> set vs then Inl (UniqueViolation ''schema_migrations_pkey'')
          else Inr (db\<lparr>vs_versions := Some (v # vs)\<rparr>))"

definition run_script ::
    "(bytes \<Rightarrow> 'd \<Rightarrow> pg_error + 'd) \<Rightarrow> bytes \<Rightarrow> 'd versioned \<Rightarrow> pg_error + 'd versioned" where
  "run_script run script db =
     (case run script (vs_data db) of Inl e \<Rightarrow> Inl e | Inr d \<Rightarrow> Inr (db\<lparr>vs_data := d\<rparr>))"

text \<open>The statements a database at \<open>version\<close> still needs; the first script is split at its semicolons.\<close>

definition migration_statements ::
    "(bytes \<Rightarrow> 'd \<Rightarrow> pg_error + 'd) \<Rightarrow> schemas \<Rightarrow> int \<Rightarrow> ('d versioned \<Rightarrow> pg_error + 'd versioned) list" where
  "migration_statements run sch version =
     (if version = 0
      then map (run_script run) (filter (\<lambda>s. trimSpace s \<noteq> []) (split_on CHR '';'' (sch_v1 sch))) @ [insert_version 1]
      else []) @
     (if version \<in> {0, 1} then [run_script run (sch_v2 sch), insert_version 2] else []) @
     (if version \<in> {0, 1, 2} then [run_script run (sch_v3 sch), insert_version 3] else [])"

text \<open>
  Faults 0 to 3: the begin, the lock, the table of versions and the query of the highest one; the
  statements follow, and \<open>commit\<close> is the commit's fault.
\<close>

definition Migrate ::
    "(bytes \<Rightarrow> 'd \<Rightarrow> pg_error + 'd) \<Rightarrow> schemas \<Rightarrow> (nat \<Rightarrow> fault) \<Rightarrow> fault \<Rightarrow> 'd versioned \<Rightarrow>
     (migrate_error + unit) \<times> 'd versioned" where
  "Migrate run sch fts commit db =
     (if fts 0 \<noteq> Fine \<or> fts 1 \<noteq> Fine then (Inl (MigrateFailed Unavailable), db)
      else case query (fts 2) create_versions db of
        Inl e \<Rightarrow> (Inl (MigrateFailed e), db)
      | Inr db1 \<Rightarrow>
          if fts 3 \<noteq> Fine then (Inl (MigrateFailed Unavailable), db)
          else if current_version db1 > 3 then (Inl (SchemaNewer (current_version db1)), db)
          else case run_tx fts 4 (migration_statements run sch (current_version db1)) db1 of
            Inl e \<Rightarrow> (Inl (MigrateFailed e), db)
          | Inr db2 \<Rightarrow>
              (case exec_unit commit (\<lambda>_. Inr db2) db of
                 (Inl e, db') \<Rightarrow> (Inl (MigrateFailed e), db')
               | (Inr _, db') \<Rightarrow> (Inr (), db')))"

subsection \<open>What a migration leaves\<close>

text \<open>
  The specification: the scripts a database at version \<open>v\<close> has not seen, in order, the first one as its
  nonblank pieces; running scripts one after the other; and the database all missing scripts lead to.
\<close>

definition missing_scripts :: "schemas \<Rightarrow> int \<Rightarrow> bytes list" where
  "missing_scripts sch v =
     (if v < 1 then filter (\<lambda>s. trimSpace s \<noteq> []) (split_on CHR '';'' (sch_v1 sch)) else []) @
     (if v < 2 then [sch_v2 sch] else []) @ (if v < 3 then [sch_v3 sch] else [])"

fun apply_scripts :: "(bytes \<Rightarrow> 'd \<Rightarrow> pg_error + 'd) \<Rightarrow> bytes list \<Rightarrow> 'd \<Rightarrow> pg_error + 'd" where
  "apply_scripts run [] d = Inr d"
| "apply_scripts run (s # ss) d = (case run s d of Inl e \<Rightarrow> Inl e | Inr d' \<Rightarrow> apply_scripts run ss d')"

definition applied_versions :: "'d versioned \<Rightarrow> int list" where
  "applied_versions db = (case vs_versions db of None \<Rightarrow> [] | Some vs \<Rightarrow> vs)"

definition upgraded :: "(bytes \<Rightarrow> 'd \<Rightarrow> pg_error + 'd) \<Rightarrow> schemas \<Rightarrow> 'd versioned \<Rightarrow> 'd versioned \<Rightarrow> bool" where
  "upgraded run sch db db' \<longleftrightarrow>
     apply_scripts run (missing_scripts sch (current_version db)) (vs_data db) = Inr (vs_data db') \<and>
     vs_versions db' = Some (filter (\<lambda>v. current_version db < v) [3, 2, 1] @ applied_versions db)"

lemma apply_scripts_append:
  "apply_scripts run (xs @ ys) d = (case apply_scripts run xs d of Inl e \<Rightarrow> Inl e | Inr d' \<Rightarrow> apply_scripts run ys d')"
  by (induction xs arbitrary: d) (simp_all split: sum.split)

lemma version_below: "vs_versions d = Some vs \<Longrightarrow> current_version d < v \<Longrightarrow> v \<notin> set vs"
  by (auto simp: current_version_def split: if_splits dest: Max_ge [OF finite_set])

lemma version_inserted:
  "vs_versions d = Some (v # vs) \<Longrightarrow> \<forall>w\<in>set vs. w \<le> v \<Longrightarrow> current_version d = v"
  by (auto simp: current_version_def intro!: Max_eqI)

lemma versions_le: "vs_versions d = Some vs \<Longrightarrow> w \<in> set vs \<Longrightarrow> w \<le> current_version d"
  by (auto simp: current_version_def intro: Max_ge)

text \<open>A transaction that gets through does what it does without faults.\<close>

lemma run_tx_fine: "run_tx fts i stmts d = Inr d' \<Longrightarrow> run_tx (\<lambda>_. Fine) i stmts d = Inr d'"
  by (induction stmts arbitrary: i d) (auto simp: run_tx_Cons_Inr simp del: run_tx.simps(2))

lemma versioned_swap: "d\<lparr>vs_data := x, vs_versions := ws, vs_data := y\<rparr> = d\<lparr>vs_versions := ws, vs_data := y\<rparr>"
  by (cases d) simp

text \<open>A group of scripts and the row that records it.\<close>

lemma run_group:
  assumes "vs_versions d = Some vs" and "v \<notin> set vs"
  shows "run_tx (\<lambda>_. Fine) i (map (run_script run) scripts @ insert_version v # rest) d =
    (case apply_scripts run scripts (vs_data d) of
       Inl e \<Rightarrow> Inl e
     | Inr x \<Rightarrow> run_tx (\<lambda>_. Fine) (i + length scripts + 1) rest (d\<lparr>vs_versions := Some (v # vs), vs_data := x\<rparr>))"
  using assms
proof (induction scripts arbitrary: i d)
  case Nil
  then show ?case by (simp add: query_def insert_version_def)
next
  case (Cons s ss)
  show ?case
  proof (cases "run s (vs_data d)")
    case (Inl e)
    then show ?thesis by (simp add: query_def run_script_def)
  next
    case (Inr x)
    then show ?thesis using Cons.IH [of "d\<lparr>vs_data := x\<rparr>" "Suc i"] Cons.prems
      by (simp add: query_def run_script_def versioned_swap del: apply_scripts.simps(1) split: sum.split)
  qed
qed

lemma migration_runs:
  assumes "vs_versions db = Some vs" and "0 \<le> current_version db" and "current_version db \<le> 3"
  shows "run_tx (\<lambda>_. Fine) i (migration_statements run sch (current_version db)) db =
    map_sum id (\<lambda>x. db\<lparr>vs_versions := Some (filter (\<lambda>v. current_version db < v) [3, 2, 1] @ vs), vs_data := x\<rparr>)
      (apply_scripts run (missing_scripts sch (current_version db)) (vs_data db))"
proof -
  let ?p = "filter (\<lambda>s. trimSpace s \<noteq> []) (split_on CHR '';'' (sch_v1 sch))"
  note fresh = version_below [OF assms(1)]
  have three: "run_tx (\<lambda>_. Fine) i [run_script run (sch_v3 sch), insert_version 3] (db\<lparr>vs_versions := Some ws, vs_data := x\<rparr>) =
      (case run (sch_v3 sch) x of Inl e \<Rightarrow> Inl e | Inr y \<Rightarrow> Inr (db\<lparr>vs_versions := Some (3 # ws), vs_data := y\<rparr>))"
    if "3 \<notin> set ws" for i ws x
    using run_group [of "db\<lparr>vs_versions := Some ws, vs_data := x\<rparr>" ws 3 i run "[sch_v3 sch]" "[]"] that
    by (simp split: sum.split)
  have two: "run_tx (\<lambda>_. Fine) i ([run_script run (sch_v2 sch), insert_version 2] @ [run_script run (sch_v3 sch), insert_version 3])
        (db\<lparr>vs_versions := Some ws, vs_data := x\<rparr>) =
      (case apply_scripts run [sch_v2 sch, sch_v3 sch] x of Inl e \<Rightarrow> Inl e
       | Inr y \<Rightarrow> Inr (db\<lparr>vs_versions := Some (3 # 2 # ws), vs_data := y\<rparr>))"
    if "2 \<notin> set ws" "3 \<notin> set ws" for i ws x
    using run_group [of "db\<lparr>vs_versions := Some ws, vs_data := x\<rparr>" ws 2 i run "[sch_v2 sch]"
        "[run_script run (sch_v3 sch), insert_version 3]"] that three
    by (simp del: run_tx.simps split: sum.split)
  have id: "db\<lparr>vs_versions := Some vs, vs_data := vs_data db\<rparr> = db" using assms(1) by simp
  consider "current_version db = 0" | "current_version db = 1" | "current_version db = 2" | "current_version db = 3"
    using assms(2,3) by linarith
  then show ?thesis
  proof cases
    case 1
    have "run_tx (\<lambda>_. Fine) i (migration_statements run sch (current_version db)) db =
        (case apply_scripts run ?p (vs_data db) of Inl e \<Rightarrow> Inl e
         | Inr x \<Rightarrow> run_tx (\<lambda>_. Fine) (i + length ?p + 1)
             ([run_script run (sch_v2 sch), insert_version 2] @ [run_script run (sch_v3 sch), insert_version 3])
             (db\<lparr>vs_versions := Some (1 # vs), vs_data := x\<rparr>))"
      using run_group [OF assms(1) fresh, of 1 i run ?p
        "[run_script run (sch_v2 sch), insert_version 2] @ [run_script run (sch_v3 sch), insert_version 3]"] 1
      by (simp add: migration_statements_def)
    moreover have "missing_scripts sch (current_version db) = ?p @ [sch_v2 sch, sch_v3 sch]"
      "filter (\<lambda>v. current_version db < v) [3, 2, 1] = [3, 2, 1]"
      using 1 by (simp_all add: missing_scripts_def)
    moreover have "2 \<notin> set (1 # vs)" "3 \<notin> set (1 # vs)" using fresh 1 by simp_all
    note two [OF this]
    ultimately show ?thesis
      by (cases "apply_scripts run ?p (vs_data db)")
        (simp_all add: apply_scripts_append del: run_tx.simps apply_scripts.simps append.simps split: sum.split)
  next
    case 2
    with two [of vs i "vs_data db"] fresh show ?thesis
      by (simp add: migration_statements_def missing_scripts_def id del: run_tx.simps split: sum.split)
  next
    case 3
    with three [of vs i "vs_data db"] fresh show ?thesis
      by (simp add: migration_statements_def missing_scripts_def id del: run_tx.simps split: sum.split)
  next
    case 4
    with id show ?thesis by (simp add: migration_statements_def missing_scripts_def)
  qed
qed

lemma upgraded_version:
  assumes "upgraded run sch db db'" and "current_version db \<le> 3"
  shows "current_version db' = 3"
proof (cases "current_version db = 3")
  case True
  then show ?thesis using assms(1)
    by (cases "vs_versions db") (simp_all add: upgraded_def applied_versions_def current_version_def)
next
  case False
  have "w \<le> 3" if "w \<in> set (applied_versions db)" for w
    using that assms(2) versions_le [of db "applied_versions db" w]
    by (cases "vs_versions db") (auto simp: applied_versions_def)
  moreover have "vs_versions db' = Some (3 # filter (\<lambda>v. current_version db < v) [2, 1] @ applied_versions db)"
    using assms False by (simp add: upgraded_def)
  ultimately show ?thesis by (intro version_inserted) (auto split: if_splits)
qed

text \<open>
  C36: A migration that succeeds has run exactly the scripts the database had not seen, in order, on its
  data, has recorded their versions and left it at version 3; running it again changes nothing. One that
  fails has changed nothing, unless only the answer of the commit was lost, and then all of this was
  done; and it fails only for a fault of the database, a version above 3, or an error of a script.
\<close>
theorem migrate_once:
  fixes run :: "bytes \<Rightarrow> 'd \<Rightarrow> pg_error + 'd"
  assumes "0 \<le> current_version db"
  shows "case Migrate run sch fts commit db of
      (Inr _, db') \<Rightarrow> upgraded run sch db db' \<and> current_version db' = 3 \<and> snd (Migrate run sch fts' commit' db') = db'
    | (Inl _, db') \<Rightarrow> (db' = db \<or> commit = Unacknowledged \<and> upgraded run sch db db') \<and>
        (fts \<noteq> (\<lambda>_. Fine) \<or> commit \<noteq> Fine \<or> 3 < current_version db \<or>
         isl (apply_scripts run (missing_scripts sch (current_version db)) (vs_data db)))"
proof -
  obtain db1 where c: "create_versions db = Inr db1" by (simp add: create_versions_def)
  then have v1: "current_version db1 = current_version db" "vs_data db1 = vs_data db"
      "vs_versions db1 = Some (applied_versions db)"
    by (auto simp: create_versions_def current_version_def applied_versions_def split: option.splits)
  have again: "snd (Migrate run sch fts' commit' d) = d" if "current_version d = 3" for d
  proof -
    have "create_versions d = Inr d"
      using that by (cases "vs_versions d") (simp_all add: create_versions_def current_version_def)
    with that show ?thesis
      by (auto simp: Migrate_def query_def migration_statements_def exec_unit_def exec_def split: fault.split)
  qed
  show ?thesis
  proof (cases "fts 0 = Fine \<and> fts 1 = Fine \<and> fts 2 = Fine \<and> fts 3 = Fine \<and> current_version db \<le> 3")
    case False
    with c v1 show ?thesis by (auto simp: Migrate_def query_def)
  next
    case True
    let ?stmts = "migration_statements run sch (current_version db1)"
    have low: "0 \<le> current_version db1" "current_version db1 \<le> 3" using True assms v1 by simp_all
    note runs = migration_runs [OF v1(3) low, where run = run and sch = sch and i = 4, unfolded v1]
    show ?thesis
    proof (cases "run_tx fts 4 ?stmts db1")
      case (Inl e)
      then have "fts \<noteq> (\<lambda>_. Fine) \<or> isl (apply_scripts run (missing_scripts sch (current_version db)) (vs_data db))"
        using runs v1 by (cases "apply_scripts run (missing_scripts sch (current_version db)) (vs_data db)") auto
      with Inl True c v1 show ?thesis by (simp add: Migrate_def query_def)
    next
      case (Inr db2)
      then have "run_tx (\<lambda>_. Fine) 4 ?stmts db1 = Inr db2" by (rule run_tx_fine)
      then have up: "upgraded run sch db db2"
        using runs v1(1) by (cases "apply_scripts run (missing_scripts sch (current_version db)) (vs_data db)")
          (auto simp: upgraded_def)
      then have "current_version db2 = 3" by (rule upgraded_version) (use True in simp)
      with True c v1 Inr again up show ?thesis
        by (cases commit) (simp_all add: Migrate_def query_def exec_unit_def exec_def)
    qed
  qed
qed

theorem migrate_once_witness:
  "\<exists>db'. Migrate (\<lambda>script d. Inr (d @ script)) \<lparr>sch_v1 = ''a;b;'', sch_v2 = ''c'', sch_v3 = ''d''\<rparr> (\<lambda>_. Fine) Fine
      \<lparr>vs_versions = None, vs_data = []\<rparr> = (Inr (), db') \<and> current_version db' = 3 \<and> vs_data db' = ''abcd''"
proof -
  let ?run = "\<lambda>script d. Inr (d @ script) :: pg_error + bytes"
  let ?sch = "\<lparr>sch_v1 = ''a;b;'', sch_v2 = ''c'', sch_v3 = ''d''\<rparr>"
  let ?m = "Migrate ?run ?sch (\<lambda>_. Fine) Fine \<lparr>vs_versions = None, vs_data = []\<rparr>"
  have "fst ?m = Inr ()" and d: "vs_data (snd ?m) = ''abcd''" by code_simp+
  then have m: "?m = (Inr (), snd ?m)" by (metis prod.collapse)
  have "0 \<le> current_version \<lparr>vs_versions = None, vs_data = [] :: bytes\<rparr>" by (simp add: current_version_def)
  from migrate_once [OF this, where run = ?run and sch = ?sch and fts = "\<lambda>_. Fine" and commit = Fine]
  have "current_version (snd ?m) = 3" by (subst (asm) m) simp
  with m d show ?thesis by blast
qed

end
