(* ===== verification/Lifecycle.thy ===== *)
theory Lifecycle
  imports Prelude
begin

text \<open>
  The life of a gateway process (\<open>Server.Run\<close> of \<open>gateway/server.go\<close>): binding, serving, the wait for
  a failed listener or the end of the context, and the way down. The operating system and
  \<open>http.Server\<close> are the environment (\<open>runEnv\<close>); what \<open>Run\<close> does to them is a list of actions in
  order, the deferred ones at the end. The two servers are the endpoints \<open>API\<close> and \<open>Metrics\<close>.
\<close>

subsection \<open>Environment and actions\<close>

datatype endpoint = API | Metrics

text \<open>
  How the goroutine of a server ends: \<open>ServeFailed\<close>, on its own, with an error of its listener; or
  \<open>ServerClosed\<close>, with \<open>http.ErrServerClosed\<close>, and then only after its server was shut down or closed.
\<close>

datatype serve_end = ServerClosed | ServeFailed

datatype run_error =
    ListenError endpoint
  | ServeError endpoint
  | ShutdownError endpoint

text \<open>
  \<open>rn_done\<close>: whether the context ends; \<open>rn_woken\<close>: whether the select takes an error of a server that has
  failed although the context ends too; \<open>rn_api_first\<close>: which of two errors is first on the channel;
  \<open>rn_shutdown\<close>: whether a graceful shutdown returns without an error.
\<close>

record runEnv =
  rn_cancelled :: bool
  rn_metrics :: bool
  rn_listen :: "endpoint \<Rightarrow> bool"
  rn_serve :: "endpoint \<Rightarrow> serve_end"
  rn_done :: bool
  rn_woken :: bool
  rn_api_first :: bool
  rn_shutdown :: "endpoint \<Rightarrow> bool"

datatype action =
    Probe
  | Bind endpoint
  | Serve endpoint
  | WatchRegistry
  | WatchBackends
  | Shutdown endpoint
  | CloseServer endpoint
  | Receive endpoint
  | CloseListener endpoint
  | StopWorkers
  | CloseIdleConnections

definition closeServers :: "runEnv \<Rightarrow> action list" where
  "closeServers env = CloseServer API # (if rn_metrics env then [CloseServer Metrics] else [])"

definition serve_error :: "runEnv \<Rightarrow> endpoint \<Rightarrow> run_error option" where
  "serve_error env e = (case rn_serve env e of ServerClosed \<Rightarrow> None | ServeFailed \<Rightarrow> Some (ServeError e))"

subsection \<open>The wait\<close>

text \<open>The graceful way down: the API first, so that its metrics stay available while it drains.\<close>

definition shut_down :: "runEnv \<Rightarrow> run_error option \<times> action list" where
  "shut_down env =
     (let (err1, as1) = (if rn_shutdown env API then (None, [Shutdown API])
                         else (Some (ShutdownError API), [Shutdown API, CloseServer API]));
          (err2, as2) = (if \<not> rn_metrics env then (err1, [])
                         else (if \<not> rn_shutdown env Metrics \<and> err1 = None then Some (ShutdownError Metrics) else err1,
                               [Shutdown Metrics]))
      in (err2, as1 @ as2 @ closeServers env))"

text \<open>
  A goroutine has sent its error once its server failed, or was told to stop by one of the actions so
  far. \<open>receive\<close> takes the next error there is from the goroutines that have not been heard yet;
  without one it blocks.
\<close>

definition can_report :: "runEnv \<Rightarrow> action list \<Rightarrow> endpoint \<Rightarrow> bool" where
  "can_report env done e \<longleftrightarrow> rn_serve env e = ServeFailed \<or> Shutdown e \<in> set done \<or> CloseServer e \<in> set done"

definition receive :: "runEnv \<Rightarrow> action list \<Rightarrow> endpoint list \<Rightarrow> (endpoint \<times> endpoint list) option" where
  "receive env done pending =
     (case filter (can_report env done) pending of [] \<Rightarrow> None | e # _ \<Rightarrow> Some (e, remove1 e pending))"

text \<open>The channel is read once for every goroutine; the first error other than a close is kept.\<close>

fun drain :: "runEnv \<Rightarrow> nat \<Rightarrow> action list \<Rightarrow> endpoint list \<Rightarrow> run_error option \<Rightarrow> (run_error option \<times> action list) option" where
  "drain env 0 done pending err = Some (err, done)"
| "drain env (Suc remaining) done pending err =
     (case receive env done pending of
        None \<Rightarrow> None
      | Some (e, pending') \<Rightarrow>
          drain env remaining (done @ [Receive e]) pending' (if err = None then serve_error env e else err))"

text \<open>The select: an error of a server, or the end of the context.\<close>

definition await :: "runEnv \<Rightarrow> nat \<Rightarrow> action list \<Rightarrow> (run_error option \<times> action list) option" where
  "await env remaining done =
     (let pending = (if \<not> rn_metrics env then [API] else if rn_api_first env then [API, Metrics] else [Metrics, API]);
          failed = receive env done pending
      in if failed \<noteq> None \<and> (rn_woken env \<or> \<not> rn_done env)
         then drain env (remaining - 1) (done @ Receive (fst (the failed)) # closeServers env)
                (snd (the failed)) (serve_error env (fst (the failed)))
         else if rn_done env
         then (case shut_down env of (err, as) \<Rightarrow> drain env remaining (done @ as) pending err)
         else None)"

subsection \<open>Run\<close>

text \<open>
  The result \<open>None\<close> is a \<open>Run\<close> that waits for ever, in the select or on the channel. The deferred calls run in reverse
  order of their \<open>defer\<close>.
\<close>

definition Run :: "runEnv \<Rightarrow> (run_error option \<times> action list) option" where
  "Run env =
     (if rn_cancelled env then Some (None, [CloseIdleConnections])
      else if \<not> rn_listen env API then
        Some (Some (ListenError API), [Probe, StopWorkers, CloseIdleConnections])
      else if rn_metrics env \<and> \<not> rn_listen env Metrics then
        Some (Some (ListenError Metrics), [Probe, Bind API, CloseListener API, StopWorkers, CloseIdleConnections])
      else
        let bound = [Bind API] @ (if rn_metrics env then [Bind Metrics] else []);
            started = [Serve API, WatchRegistry, WatchBackends] @ (if rn_metrics env then [Serve Metrics] else []);
            deferred = closeServers env @ (if rn_metrics env then [CloseListener Metrics] else []) @
              [CloseListener API, StopWorkers, CloseIdleConnections]
        in (case await env (if rn_metrics env then 2 else 1) (Probe # bound @ started) of
              None \<Rightarrow> None
            | Some (err, as) \<Rightarrow> Some (err, as @ deferred)))"

subsection \<open>Properties\<close>

text \<open>What is open, served or watched after some actions.\<close>

fun bound_after :: "action list \<Rightarrow> endpoint set" where
  "bound_after [] = {}"
| "bound_after (a # as) =
     (case a of
        Bind e \<Rightarrow> (if CloseListener e \<in> set as then {} else {e}) \<union> bound_after as
      | _ \<Rightarrow> bound_after as)"

text \<open>Whether every \<open>y\<close> comes after some \<open>x\<close>.\<close>

definition preceded :: "action \<Rightarrow> action \<Rightarrow> action list \<Rightarrow> bool" where
  "preceded x y as \<longleftrightarrow> y \<notin> set as \<or> x \<in> set (takeWhile (\<lambda>a. a \<noteq> y) as)"

lemmas run_defs = Run_def await_def shut_down_def closeServers_def serve_error_def receive_def can_report_def Let_def

text \<open>Both servers are started.\<close>

definition starts :: "runEnv \<Rightarrow> bool" where
  "starts env \<longleftrightarrow> \<not> rn_cancelled env \<and> rn_listen env API \<and> (rn_metrics env \<longrightarrow> rn_listen env Metrics)"

definition served :: "runEnv \<Rightarrow> endpoint list" where
  "served env = (if rn_metrics env then [API, Metrics] else [API])"

text \<open>What every completed run has done.\<close>

definition cleaned_up :: "runEnv \<Rightarrow> action list \<Rightarrow> bool" where
  "cleaned_up env as \<longleftrightarrow>
     bound_after as = {} \<and>
     (\<forall>e. (Serve e \<in> set as \<longleftrightarrow> starts env \<and> e \<in> set (served env)) \<and>
        (Serve e \<in> set as \<longleftrightarrow> Receive e \<in> set as) \<and> preceded (Serve e) (Receive e) as \<and>
        (Serve e \<in> set as \<longleftrightarrow> CloseServer e \<in> set as) \<and> preceded (Serve e) (CloseServer e) as \<and>
        preceded (Bind API) (Serve e) as \<and> (\<not> rn_metrics env \<or> preceded (Bind Metrics) (Serve e) as)) \<and>
     preceded (Shutdown API) (Shutdown Metrics) as \<and>
     last as = CloseIdleConnections \<and> (as = [CloseIdleConnections] \<or> StopWorkers \<in> set as)"

lemma endpoint_all: "(\<forall>e. P e) \<longleftrightarrow> P API \<and> P Metrics"
  by (metis endpoint.exhaust)


text \<open>The ways through the select and the channel, with one server and with two.\<close>

lemma one_server:
  assumes "starts env" and "\<not> rn_metrics env"
  shows "case Run env of
      None \<Rightarrow> \<not> rn_done env \<and> rn_serve env API = ServerClosed
    | Some (err, as) \<Rightarrow> cleaned_up env as \<and> (rn_done env \<or> rn_serve env API = ServeFailed) \<and>
        (err = None \<longleftrightarrow> rn_serve env API = ServerClosed \<and> rn_shutdown env API)"
  using assms
  by (cases "rn_serve env API"; cases "rn_done env"; cases "rn_woken env"; cases "rn_shutdown env API")
    (simp_all add: starts_def served_def run_defs cleaned_up_def endpoint_all preceded_def)

lemma two_servers:
  assumes "starts env" and "rn_metrics env"
  shows "case Run env of
      None \<Rightarrow> \<not> rn_done env \<and> rn_serve env API = ServerClosed \<and> rn_serve env Metrics = ServerClosed
    | Some (err, as) \<Rightarrow> cleaned_up env as \<and>
        (rn_done env \<or> rn_serve env API = ServeFailed \<or> rn_serve env Metrics = ServeFailed) \<and>
        (err = None \<longleftrightarrow> rn_serve env API = ServerClosed \<and> rn_serve env Metrics = ServerClosed \<and>
           rn_shutdown env API \<and> rn_shutdown env Metrics)"
proof (cases "rn_api_first env")
  case True
  with assms show ?thesis
    by (cases "rn_serve env API"; cases "rn_serve env Metrics"; cases "rn_done env"; cases "rn_woken env";
        cases "rn_shutdown env API"; cases "rn_shutdown env Metrics")
      (simp_all add: starts_def served_def run_defs cleaned_up_def endpoint_all preceded_def numeral_2_eq_2)
next
  case False
  with assms show ?thesis
    by (cases "rn_serve env API"; cases "rn_serve env Metrics"; cases "rn_done env"; cases "rn_woken env";
        cases "rn_shutdown env API"; cases "rn_shutdown env Metrics")
      (simp_all add: starts_def served_def run_defs cleaned_up_def endpoint_all preceded_def numeral_2_eq_2)
qed


definition demo_run :: runEnv where
  "demo_run = \<lparr>rn_cancelled = False, rn_metrics = True, rn_listen = (\<lambda>_. True), rn_serve = (\<lambda>_. ServerClosed),
     rn_done = True, rn_woken = False, rn_api_first = False, rn_shutdown = (\<lambda>_. True)\<rparr>"


text \<open>
  \<open>Run\<close> reports no error exactly when it was cancelled before it began, or every bind succeeded, no
  server failed, and the shutdown it was asked for drained in time.
\<close>
theorem run_result:
  "map_option fst (Run env) = Some None \<longleftrightarrow>
    rn_cancelled env \<or>
    starts env \<and> rn_done env \<and> list_all (\<lambda>e. rn_serve env e = ServerClosed \<and> rn_shutdown env e) (served env)"
proof (cases "starts env")
  case False
  then show ?thesis by (auto simp: starts_def run_defs)
next
  case True
  then have "\<not> rn_cancelled env" by (simp add: starts_def)
  with True show ?thesis using one_server [OF True] two_servers [OF True]
    by (cases "rn_metrics env"; cases "Run env") (auto simp: served_def)
qed

text \<open>When one server fails, the other one is told to stop before its goroutine is waited for.\<close>

lemma failed_server_stops_sibling:
  "map_option fst (Run (demo_run\<lparr>rn_done := False, rn_serve := (\<lambda>e. if e = Metrics then ServeFailed else ServerClosed)\<rparr>)) =
     Some (Some (ServeError Metrics))"
  by code_simp

end
