(* ===== verification/Gateway_Main.thy ===== *)
theory Gateway_Main
  imports Completions Migration Maintenance Lifecycle Account_Keys
begin

text \<open>
  The gateway command (\<open>cmd/gateway/main.go\<close>) and the options it hands to the server
  (\<open>NewServerWithOptions\<close> of \<open>gateway/server.go\<close>): the configuration's checks, the concurrency limit,
  the handlers that are registered, opening and migrating the database, the hourly maintenance,
  writing the configured prices, and running the server. How flags and environment variables become
  the record \<open>config\<close>, and what happens to the connection pool, is in \<open>Startup\<close>.
\<close>

subsection \<open>Configuration\<close>

record config =
  cfg_addr :: bytes
  cfg_registry :: bytes
  cfg_metricsAddr :: bytes
  cfg_databaseURL :: bytes
  cfg_insecureDev :: bool
  cfg_backendAPIKey :: bytes
  cfg_maxInflight :: int
  cfg_webDir :: bytes
  cfg_insecureCookies :: bool
  cfg_portalOrigin :: bytes

datatype config_error = ChooseOneStore | InflightNotPositive | CookiesNeedLoopback | BadPortalOrigin

definition validate :: "url_parser \<Rightarrow> config \<Rightarrow> config_error option" where
  "validate parse cfg =
     (if (cfg_databaseURL cfg = [] \<and> \<not> cfg_insecureDev cfg) \<or> (cfg_databaseURL cfg \<noteq> [] \<and> cfg_insecureDev cfg)
      then Some ChooseOneStore
      else if cfg_maxInflight cfg \<le> 0 then Some InflightNotPositive
      else if cfg_insecureCookies cfg \<and> \<not> hasPrefix (cfg_addr cfg) ''127.0.0.1:'' \<and>
        \<not> hasPrefix (cfg_addr cfg) ''localhost:'' \<and> \<not> hasPrefix (cfg_addr cfg) ''[::1]:''
      then Some CookiesNeedLoopback
      else if cfg_portalOrigin cfg \<noteq> [] then
        (case parse (cfg_portalOrigin cfg) of
           None \<Rightarrow> Some BadPortalOrigin
         | Some u \<Rightarrow>
             if (Scheme u \<noteq> ''http'' \<and> Scheme u \<noteq> ''https'') \<or> Host u = [] \<or> HasUser u \<or> Path u \<noteq> [] \<or>
                RawQuery u \<noteq> [] \<or> Fragment u \<noteq> []
             then Some BadPortalOrigin else None)
      else None)"

text \<open>\<open>gateway.Options\<close>; of the stores only whether they are there.\<close>

record options =
  op_MetricsAddr :: bytes
  op_AccountStore :: bool
  op_PortalStore :: bool
  op_InsecureCookies :: bool
  op_PortalOrigin :: bytes
  op_WebDir :: bytes
  op_BackendAPIKey :: bytes
  op_MaxInflight :: int

definition server_options :: "config \<Rightarrow> options" where
  "server_options cfg =
     \<lparr>op_MetricsAddr = cfg_metricsAddr cfg, op_AccountStore = (cfg_databaseURL cfg \<noteq> []),
      op_PortalStore = (cfg_databaseURL cfg \<noteq> []), op_InsecureCookies = cfg_insecureCookies cfg,
      op_PortalOrigin = cfg_portalOrigin cfg, op_WebDir = cfg_webDir cfg, op_BackendAPIKey = cfg_backendAPIKey cfg,
      op_MaxInflight = cfg_maxInflight cfg\<rparr>"

subsection \<open>The server's set-up\<close>

definition inflight_limit :: "options \<Rightarrow> nat option" where
  "inflight_limit opts =
     (if op_AccountStore opts then Some (if op_MaxInflight opts \<le> 0 then 32 else nat (op_MaxInflight opts)) else None)"

datatype endpoint_handler =
    HealthHandler | ModelsHandler | PublicModelsHandler | HandleCompletions | PortalChatHandler | PortalModelsHandler
  | SignupHandler | LoginHandler | LogoutHandler | AccountHandler | UsageHandler | IndexPage | FileServer

text \<open>The patterns registered on the mux, with their handlers.\<close>

definition registered :: "options \<Rightarrow> (bytes \<times> endpoint_handler) list" where
  "registered opts =
     [(''GET /health'', HealthHandler)] @
     (if \<not> op_AccountStore opts then [(''GET /models'', ModelsHandler)]
      else [(''GET /v1/models'', PublicModelsHandler)]) @
     [(''POST /v1/chat/completions'', HandleCompletions),
      (''POST /api/chat/completions'', PortalChatHandler),
      (''GET /api/models'', PortalModelsHandler),
      (''POST /api/signup'', SignupHandler),
      (''POST /api/login'', LoginHandler),
      (''POST /api/logout'', LogoutHandler),
      (''GET /api/account'', AccountHandler),
      (''GET /api/usage'', UsageHandler)] @
     (if op_WebDir opts \<noteq> []
      then [(''GET /account'', IndexPage), (''GET /chat'', IndexPage), (''GET /'', FileServer)] else [])"

record serverLibs =
  sl_parse :: url_parser
  sl_decode :: "bytes \<Rightarrow> (Model list option \<times> bool) option"
  sl_sha256 :: "bytes \<Rightarrow> bytes"

definition gateway_env :: "serverLibs \<Rightarrow> options \<Rightarrow> gatewayEnv" where
  "gateway_env libs opts =
     \<lparr>ge_parse = sl_parse libs, ge_decode = sl_decode libs, ge_sha256 = sl_sha256 libs,
      ge_authenticated = op_AccountStore opts, ge_backendAPIKey = op_BackendAPIKey opts\<rparr>"

definition NewServerWithOptions :: "serverLibs \<Rightarrow> options \<Rightarrow> bytes option \<Rightarrow> (registry_error + gateway) option" where
  "NewServerWithOptions libs opts file = NewServer (gateway_env libs opts) file"

subsection \<open>Running\<close>

text \<open>
  Go's \<open>for _, model := range server.PricedModels()\<close>: the time, id and fault of the \<open>k\<close>-th call.
\<close>

fun configure_prices ::
    "(nat \<Rightarrow> time) \<Rightarrow> (nat \<Rightarrow> bytes) \<Rightarrow> (nat \<Rightarrow> fault) \<Rightarrow> nat \<Rightarrow> Model list \<Rightarrow> database \<Rightarrow>
     (bytes \<times> store_error) option \<times> database" where
  "configure_prices nows ids fts k [] db = (None, db)"
| "configure_prices nows ids fts k (m # ms) db =
     (case Pricing m of
        None \<Rightarrow> configure_prices nows ids fts (Suc k) ms db
      | Some p \<Rightarrow>
          (case SetPrice (nows k) (ids k) (fts k) (Name m) (InputRateMicroPerMillion p) (OutputRateMicroPerMillion p) db of
             (Inl e, db') \<Rightarrow> (Some (Name m, e), db')
           | (Inr i, db') \<Rightarrow> configure_prices nows ids fts (Suc k) ms db'))"

text \<open>
  The maintenance goroutine: one round after the other until the context ends, an error of a round
  being logged only. Round \<open>i\<close> has its own times, faults and locked rows.
\<close>

fun maintainAccounts ::
    "(nat \<Rightarrow> (nat \<Rightarrow> time) \<times> (nat \<Rightarrow> fault) \<times> (nat \<Rightarrow> bytes \<Rightarrow> bool)) \<Rightarrow> nat \<Rightarrow> nat \<Rightarrow> database \<Rightarrow> database" where
  "maintainAccounts rounds i 0 db = db"
| "maintainAccounts rounds i (Suc n) db =
     (case rounds i of (nows, fts, locks) \<Rightarrow> maintainAccounts rounds (Suc i) n (snd (Maintain nows fts locks db)))"

text \<open>What happens around a process.\<close>

record world =
  wd_open :: bool
  wd_script :: "bytes \<Rightarrow> database \<Rightarrow> pg_error + database"
  wd_schemas :: schemas
  wd_migrate :: "(nat \<Rightarrow> fault) \<times> fault"
  wd_file :: "bytes option"
  wd_prices :: "(nat \<Rightarrow> time) \<times> (nat \<Rightarrow> bytes) \<times> (nat \<Rightarrow> fault)"
  wd_run :: runEnv

datatype main_error =
    ConfigError config_error
  | OpenError
  | MigrateError migrate_error
  | RegistryError registry_error
  | PriceError bytes store_error
  | RunError run_error

definition openAccountStore :: "world \<Rightarrow> database versioned \<Rightarrow> main_error option \<times> database versioned" where
  "openAccountStore wd db =
     (if \<not> wd_open wd then (Some OpenError, db)
      else (case Migrate (wd_script wd) (wd_schemas wd) (fst (wd_migrate wd)) (snd (wd_migrate wd)) db of
          (Inl e, db') \<Rightarrow> (Some (MigrateError e), db')
        | (Inr _, db') \<Rightarrow> (None, db')))"

text \<open>After the store is open, or in development mode. \<open>None\<close> is a panic or a wait for ever.\<close>

definition serve_gateway ::
    "serverLibs \<Rightarrow> world \<Rightarrow> options \<Rightarrow> database versioned \<Rightarrow> (main_error option \<times> database versioned) option" where
  "serve_gateway libs wd opts db =
     (case NewServerWithOptions libs opts (wd_file wd) of
        None \<Rightarrow> None
      | Some (Inl e) \<Rightarrow> Some (Some (RegistryError e), db)
      | Some (Inr g) \<Rightarrow>
          (case (if op_AccountStore opts
                 then (case wd_prices wd of (nows, ids, fts) \<Rightarrow>
                        configure_prices nows ids fts 0 (PricedModels (gw_models g)) (vs_data db))
                 else (None, vs_data db)) of
             (Some (name, e), d) \<Rightarrow> Some (Some (PriceError name e), db\<lparr>vs_data := d\<rparr>)
           | (None, d) \<Rightarrow>
               map_option (\<lambda>(err, actions). (map_option RunError err, db\<lparr>vs_data := d\<rparr>)) (Run (wd_run wd))))"

definition run ::
    "serverLibs \<Rightarrow> world \<Rightarrow> config \<Rightarrow> database versioned \<Rightarrow> (main_error option \<times> database versioned) option" where
  "run libs wd cfg db =
     (case validate (sl_parse libs) cfg of
        Some e \<Rightarrow> Some (Some (ConfigError e), db)
      | None \<Rightarrow>
          if cfg_databaseURL cfg \<noteq> [] then
            (case openAccountStore wd db of
               (Some e, db') \<Rightarrow> Some (Some e, db')
             | (None, db') \<Rightarrow> serve_gateway libs wd (server_options cfg) db')
          else serve_gateway libs wd (server_options cfg) db)"

subsection \<open>Configured prices\<close>

lemma trimSpace_idem [simp]: "trimSpace (trimSpace s) = trimSpace s"
proof -
  let ?l = "strip space_runes s" and ?ws = "map rev space_runes"
  let ?r = "strip ?ws (rev ?l)"
  obtain u where u: "rev ?l = u @ ?r" using strip_suffix [of ?ws "rev ?l"] by (auto simp: suffix_def)
  then have "?l = rev ?r @ rev u" by (metis rev_append rev_rev_ident)
  then have l: "prefix (rev ?r) ?l" by (metis prefixI)
  have "strip space_runes (rev ?r) = rev ?r"
  proof (rule strip_stop)
    fix w assume w: "w \<in> set space_runes" "w \<noteq> []"
    then show "\<not> hasPrefix (rev ?r) w"
      using strip_no_prefix [OF w, of s] prefix_order.trans [OF _ l] by (auto simp: hasPrefix_iff)
  qed
  moreover have "strip ?ws ?r = ?r"
    using strip_no_prefix [of _ ?ws "rev ?l"] by (intro strip_stop) auto
  ultimately show ?thesis by (simp add: trimSpace_def)
qed

text \<open>The rows a complete pass over the models adds.\<close>

fun price_rows :: "(nat \<Rightarrow> time) \<Rightarrow> (nat \<Rightarrow> bytes) \<Rightarrow> nat \<Rightarrow> Model list \<Rightarrow> ModelPrice list" where
  "price_rows nows ids k [] = []"
| "price_rows nows ids k (m # ms) =
     (case Pricing m of
        None \<Rightarrow> price_rows nows ids (Suc k) ms
      | Some p \<Rightarrow>
          \<lparr>price_ID = ids k, price_Model = trimSpace (Name m),
           price_InputRateMicroPerMillion = sint (InputRateMicroPerMillion p),
           price_OutputRateMicroPerMillion = sint (OutputRateMicroPerMillion p), price_CreatedAt = nows k\<rparr>
            # price_rows nows ids (Suc k) ms)"

lemma SetPrice_Inr:
  "SetPrice now i ft model x y db = (Inr i', db') \<Longrightarrow>
     db' = db\<lparr>db_prices := db_prices db @ [\<lparr>price_ID = i, price_Model = trimSpace model,
       price_InputRateMicroPerMillion = sint x, price_OutputRateMicroPerMillion = sint y, price_CreatedAt = now\<rparr>]\<rparr>"
  by (auto simp: SetPrice_def SetModelPrice_def exec_unit_def exec_def Let_def split: if_splits fault.splits)

lemma configured_rows:
  "configure_prices nows ids fts k ms db = (None, db') \<Longrightarrow> db_prices db' = db_prices db @ price_rows nows ids k ms"
proof (induction ms arbitrary: k db)
  case (Cons m ms)
  then show ?case
    by (auto split: option.splits prod.splits sum.splits dest!: SetPrice_Inr)
qed simp

lemma latest_price_append:
  "list_all (\<lambda>q. price_Model q \<noteq> n) qs \<Longrightarrow> latest_price n (ps @ qs) = latest_price n ps"
proof (induction ps)
  case Nil
  then show ?case by (induction qs) auto
qed simp

text \<open>A row newer than every other of its model is the price of the model.\<close>

lemma latest_price_newest:
  assumes "q \<in> set ps" and "price_Model q = n"
    and "\<And>r. r \<in> set ps \<Longrightarrow> price_Model r = n \<Longrightarrow> r = q \<or> price_CreatedAt r < price_CreatedAt q"
  shows "latest_price n ps = Some q"
  by (rule latest_price_is) (use assms in blast)+

lemma price_rows_mem:
  "q \<in> set (price_rows nows ids k ms) \<Longrightarrow> \<exists>m p j. m \<in> set ms \<and> Pricing m = Some p \<and> k \<le> j \<and>
     price_Model q = trimSpace (Name m) \<and> price_CreatedAt q = nows j \<and>
     price_InputRateMicroPerMillion q = sint (InputRateMicroPerMillion p) \<and>
     price_OutputRateMicroPerMillion q = sint (OutputRateMicroPerMillion p)"
proof (induction ms arbitrary: k)
  case (Cons m ms)
  show ?case
  proof (cases "Pricing m")
    case None
    with Cons.prems obtain m' p j where "m' \<in> set ms \<and> Pricing m' = Some p \<and> Suc k \<le> j \<and>
        price_Model q = trimSpace (Name m') \<and> price_CreatedAt q = nows j \<and>
        price_InputRateMicroPerMillion q = sint (InputRateMicroPerMillion p) \<and>
        price_OutputRateMicroPerMillion q = sint (OutputRateMicroPerMillion p)"
      using Cons.IH [of "Suc k"] by auto
    then show ?thesis by (intro exI [of _ m'] exI [of _ p] exI [of _ j]) simp
  next
    case (Some p)
    show ?thesis
    proof (cases "q \<in> set (price_rows nows ids (Suc k) ms)")
      case True
      then obtain m' p j where "m' \<in> set ms \<and> Pricing m' = Some p \<and> Suc k \<le> j \<and>
          price_Model q = trimSpace (Name m') \<and> price_CreatedAt q = nows j \<and>
          price_InputRateMicroPerMillion q = sint (InputRateMicroPerMillion p) \<and>
          price_OutputRateMicroPerMillion q = sint (OutputRateMicroPerMillion p)"
        using Cons.IH [of "Suc k"] by blast
      then show ?thesis by (intro exI [of _ m'] exI [of _ p] exI [of _ j]) simp
    next
      case False
      with Cons.prems Some show ?thesis by (intro exI [of _ m] exI [of _ p] exI [of _ k]) simp
    qed
  qed
qed simp

lemma price_rows_get:
  "m \<in> set ms \<Longrightarrow> Pricing m = Some p \<Longrightarrow> \<exists>q\<in>set (price_rows nows ids k ms).
     price_Model q = trimSpace (Name m) \<and> (\<exists>j\<ge>k. price_CreatedAt q = nows j) \<and>
     price_InputRateMicroPerMillion q = sint (InputRateMicroPerMillion p) \<and>
     price_OutputRateMicroPerMillion q = sint (OutputRateMicroPerMillion p)"
proof (induction ms arbitrary: k)
  case (Cons m' ms)
  show ?case
  proof (cases "m = m'")
    case True
    with Cons.prems show ?thesis by auto
  next
    case False
    with Cons.prems(1) have "m \<in> set ms" by simp
    from Cons.IH [OF this Cons.prems(2), of "Suc k"] show ?thesis
      by (auto split: option.split) (meson Suc_leD)+
  qed
qed simp

text \<open>Rows for one name in models with distinct names.\<close>

lemma price_rows_distinct:
  "distinct (map (\<lambda>m. trimSpace (Name m)) ms) \<Longrightarrow> distinct (map price_Model (price_rows nows ids k ms))"
proof (induction ms arbitrary: k)
  case (Cons m ms)
  have "trimSpace (Name m) \<notin> price_Model ` set (price_rows nows ids (Suc k) ms)"
    using Cons.prems price_rows_mem [of _ nows ids "Suc k" ms] by fastforce
  with Cons show ?case by (auto split: option.split)
qed simp

subsection \<open>Properties\<close>

text \<open>
  C31: When a pass over the configured prices ended without an error, the trimmed names of the priced models
  are distinct and every price the database held before is older than the pass, each priced model
  whose name has no surrounding white space is charged from then on at exactly the rates of the
  registry.
\<close>
theorem configured_prices_apply:
  assumes "configure_prices nows ids fts 0 (PricedModels models) db = (None, db')"
    and "m \<in> set (PricedModels models)" and "Pricing m = Some p"
    and "distinct (map (\<lambda>m. trimSpace (Name m)) (PricedModels models))" and "trimSpace (Name m) = Name m"
    and "\<And>q k. q \<in> set (db_prices db) \<Longrightarrow> price_CreatedAt q < nows k"
  shows "\<exists>q. latest_price (Name m) (db_prices db') = Some q \<and>
    price_InputRateMicroPerMillion q = sint (InputRateMicroPerMillion p) \<and>
    price_OutputRateMicroPerMillion q = sint (OutputRateMicroPerMillion p)"
proof -
  let ?rows = "price_rows nows ids 0 (PricedModels models)"
  note rows = configured_rows [OF assms(1)]
  obtain q j where q: "q \<in> set ?rows" "price_Model q = trimSpace (Name m)" "price_CreatedAt q = nows j"
      "price_InputRateMicroPerMillion q = sint (InputRateMicroPerMillion p)"
      "price_OutputRateMicroPerMillion q = sint (OutputRateMicroPerMillion p)"
    using price_rows_get [OF assms(2,3), of nows ids 0] by blast
  have "latest_price (Name m) (db_prices db') = Some q"
  proof (rule latest_price_newest)
    show "q \<in> set (db_prices db')" using q(1) rows by simp
    show "price_Model q = Name m" using q(2) assms(5) by simp
    fix r assume r: "r \<in> set (db_prices db')" "price_Model r = Name m"
    show "r = q \<or> price_CreatedAt r < price_CreatedAt q"
    proof (cases "r \<in> set ?rows")
      case True
      have "r = q"
        by (rule distinct_map_eq [OF price_rows_distinct [OF assms(4)] True q(1)]) (simp add: r(2) q(2) assms(5))
      then show ?thesis ..
    next
      case False
      with r rows have "r \<in> set (db_prices db)" by auto
      from assms(6) [OF this, of j] q(3) show ?thesis by simp
    qed
  qed
  with q(4,5) show ?thesis by blast
qed

definition priced_model :: "bytes \<Rightarrow> Model" where
  "priced_model n = \<lparr>Name = n, URL = ''http://a'', DisplayName = [],
     Pricing = Some \<lparr>InputRateMicroPerMillion = 3, OutputRateMicroPerMillion = 5, Example = False\<rparr>\<rparr>"

lemma priced_names: "trimSpace ''q'' = ''q''" "trimSpace '' q'' = ''q''" "text_ok ''q''" "text_ok ''p''"
  by code_simp+

lemma demo_configured:
  "configure_prices (\<lambda>_. 1) (\<lambda>_. ''p'') (\<lambda>_. Fine) 0 (PricedModels [priced_model n]) empty_db =
     (case SetPrice 1 ''p'' Fine n 3 5 empty_db of (Inl e, db') \<Rightarrow> (Some (n, e), db') | (Inr i, db') \<Rightarrow> (None, db'))"
  by (simp add: PricedModels_def priced_model_def split: prod.split sum.split)

lemma demo_set_price:
  "trimSpace n = ''q'' \<Longrightarrow> SetPrice 1 ''p'' Fine n 3 5 empty_db = (Inr ''p'', empty_db\<lparr>db_prices :=
     [\<lparr>price_ID = ''p'', price_Model = ''q'', price_InputRateMicroPerMillion = 3, price_OutputRateMicroPerMillion = 5,
       price_CreatedAt = 1\<rparr>]\<rparr>)"
  by (simp add: SetPrice_def SetModelPrice_def exec_unit_def exec_def empty_db_def priced_names)

theorem configured_prices_apply_witness:
  "\<exists>db' q. configure_prices (\<lambda>_. 1) (\<lambda>_. ''p'') (\<lambda>_. Fine) 0 (PricedModels [priced_model ''q'']) empty_db = (None, db') \<and>
     latest_price ''q'' (db_prices db') = Some q \<and> price_InputRateMicroPerMillion q = 3"
proof -
  obtain db' where c: "configure_prices (\<lambda>_. 1) (\<lambda>_. ''p'') (\<lambda>_. Fine) 0 (PricedModels [priced_model ''q'']) empty_db = (None, db')"
    unfolding demo_configured by (simp add: demo_set_price priced_names)
  have m: "priced_model ''q'' \<in> set (PricedModels [priced_model ''q''])"
    "Pricing (priced_model ''q'') = Some \<lparr>InputRateMicroPerMillion = 3, OutputRateMicroPerMillion = 5, Example = False\<rparr>"
    "distinct (map (\<lambda>m. trimSpace (Name m)) (PricedModels [priced_model ''q'']))"
    "trimSpace (Name (priced_model ''q'')) = Name (priced_model ''q'')"
    by (simp_all add: PricedModels_def priced_model_def priced_names)
  have "\<And>q k. q \<in> set (db_prices empty_db) \<Longrightarrow> price_CreatedAt q < (1 :: time)" by (simp add: empty_db_def)
  from configured_prices_apply [OF c m this] c show ?thesis by (auto simp: priced_model_def)
qed

text \<open>
  C40: A price never reaches a model whose name has surrounding white space, although the registry
  accepts such a name: the row is written under the trimmed name, so writing the configured
  prices leaves the price that requests for the model are charged at as it was.
\<close>
theorem padded_name_never_priced:
  assumes "configure_prices nows ids fts 0 models db = (None, db')" and "trimSpace n \<noteq> n"
  shows "latest_price n (db_prices db') = latest_price n (db_prices db)"
proof -
  have "price_Model q \<noteq> n" if "q \<in> set (price_rows nows ids 0 models)" for q
    using price_rows_mem [OF that] assms(2) trimSpace_idem by metis
  then show ?thesis
    unfolding configured_rows [OF assms(1)] by (intro latest_price_append) (simp add: list_all_iff)
qed

theorem padded_name_never_priced_witness:
  "valid_registry demo_parse [priced_model '' q''] \<and>
   (\<exists>db'. configure_prices (\<lambda>_. 1) (\<lambda>_. ''p'') (\<lambda>_. Fine) 0 (PricedModels [priced_model '' q'']) empty_db = (None, db') \<and>
     latest_price '' q'' (db_prices db') = None)"
proof
  show "valid_registry demo_parse [priced_model '' q'']"
    by (simp add: valid_registry_def priced_model_def model_ok_def dest_def model_origin_def origin_def
        absolute_http_def origin_only_def shared_metadata_def demo_parse_simps trimSuffix_def hasSuffix_def priced_names)
  obtain db' where c: "configure_prices (\<lambda>_. 1) (\<lambda>_. ''p'') (\<lambda>_. Fine) 0 (PricedModels [priced_model '' q'']) empty_db = (None, db')"
    unfolding demo_configured by (simp add: demo_set_price priced_names)
  have "latest_price '' q'' (db_prices empty_db) = None" by (simp add: empty_db_def)
  with padded_name_never_priced [OF c, of "'' q''"] c
  show "\<exists>db'. configure_prices (\<lambda>_. 1) (\<lambda>_. ''p'') (\<lambda>_. Fine) 0 (PricedModels [priced_model '' q'']) empty_db = (None, db') \<and>
     latest_price '' q'' (db_prices db') = None"
    by (simp add: priced_names)
qed

text \<open>
  A gateway that starts serving is in exactly one of two modes: with a database it demands keys,
  hides the internal model list and limits concurrency to a positive number, as configured; without one
  it was told to be insecure. Cookies without Secure are only set on a loopback address, and
  an extra portal origin is an http origin without credentials or path.
\<close>
theorem serving_modes:
  assumes "run libs wd cfg db = Some (res, db')" and "\<not> (\<exists>e. res = Some (ConfigError e))"
  shows "(if cfg_insecureDev cfg then
       \<not> ge_authenticated (gateway_env libs (server_options cfg)) \<and> inflight_limit (server_options cfg) = None
     else ge_authenticated (gateway_env libs (server_options cfg)) \<and> 0 < cfg_maxInflight cfg \<and>
       inflight_limit (server_options cfg) = Some (nat (cfg_maxInflight cfg)) \<and>
       map_of (registered (server_options cfg)) ''GET /models'' = None) \<and>
    (cfg_databaseURL cfg = [] \<longleftrightarrow> cfg_insecureDev cfg) \<and>
    (\<not> cfg_insecureCookies cfg \<or> list_ex (hasPrefix (cfg_addr cfg)) [''127.0.0.1:'', ''localhost:'', ''[::1]:'']) \<and>
    (cfg_portalOrigin cfg = [] \<or> (\<exists>u. sl_parse libs (cfg_portalOrigin cfg) = Some u \<and>
       Scheme u \<in> {''http'', ''https''} \<and> Host u \<noteq> [] \<and> \<not> HasUser u \<and> Path u = []))"
proof -
  have v: "validate (sl_parse libs) cfg = None"
    using assms by (auto simp: run_def split: option.splits)
  have m: "0 < cfg_maxInflight cfg" "cfg_databaseURL cfg = [] \<longleftrightarrow> cfg_insecureDev cfg"
    "\<not> cfg_insecureCookies cfg \<or> list_ex (hasPrefix (cfg_addr cfg)) [''127.0.0.1:'', ''localhost:'', ''[::1]:'']"
    using v by (auto simp: validate_def split: if_splits)
  have o: "cfg_portalOrigin cfg = [] \<or> (\<exists>u. sl_parse libs (cfg_portalOrigin cfg) = Some u \<and>
       Scheme u \<in> {''http'', ''https''} \<and> Host u \<noteq> [] \<and> \<not> HasUser u \<and> Path u = [])"
    using v by (auto simp: validate_def split: if_splits option.splits)
  show ?thesis
    using m o by (auto simp: gateway_env_def server_options_def inflight_limit_def registered_def)
qed

text \<open>A gateway with a fresh database, one model and no portal origin.\<close>

definition demo_config :: config where
  "demo_config = \<lparr>cfg_addr = ''127.0.0.1:8080'', cfg_registry = ''models.json'', cfg_metricsAddr = ''127.0.0.1:9091'',
     cfg_databaseURL = ''postgres'', cfg_insecureDev = False, cfg_backendAPIKey = ''k'', cfg_maxInflight = 4,
     cfg_webDir = [], cfg_insecureCookies = False, cfg_portalOrigin = []\<rparr>"

definition demo_libs :: serverLibs where
  "demo_libs = \<lparr>sl_parse = demo_parse, sl_decode = (\<lambda>_. Some (Some [demo_model ''q'' ''HTTP://a''], True)), sl_sha256 = rev\<rparr>"

definition demo_world :: world where
  "demo_world = \<lparr>wd_open = True, wd_script = (\<lambda>_. Inr), wd_schemas = \<lparr>sch_v1 = ''a'', sch_v2 = ''b'', sch_v3 = ''c''\<rparr>,
     wd_migrate = (\<lambda>_. Fine, Fine), wd_file = Some [], wd_prices = (\<lambda>_. 1, \<lambda>_. ''p'', \<lambda>_. Fine), wd_run = demo_run\<rparr>"

lemma demo_opens:
  "\<exists>db. openAccountStore demo_world \<lparr>vs_versions = None, vs_data = empty_db\<rparr> = (None, db)"
proof -
  let ?open = "openAccountStore demo_world \<lparr>vs_versions = None, vs_data = empty_db\<rparr>"
  have "fst ?open = None" by code_simp
  then have "?open = (None, snd ?open)" by (metis prod.collapse)
  then show ?thesis by blast
qed

lemma NewServer_models:
  "NewServer env file = Some (Inr g) \<Longrightarrow> loadModels (ge_parse env) (ge_decode env) file = Inr (gw_models g)"
  by (auto simp: NewServer_def buildRouting_def empty_gateway_def split: sum.splits option.splits)

lemma demo_starts:
  "\<exists>g. NewServerWithOptions demo_libs (server_options demo_config) (wd_file demo_world) = Some (Inr g) \<and>
     gw_models g = [demo_model ''q'' ''HTTP://a'']"
proof -
  let ?env = "gateway_env demo_libs (server_options demo_config)"
  have valid: "valid_registry demo_parse [demo_model ''q'' ''HTTP://a'']"
    using demo_registries_valid(1) by (simp add: demo_one_def)
  have load: "loadModels (ge_parse ?env) (ge_decode ?env) (Some []) = Inr [demo_model ''q'' ''HTTP://a'']"
    using valid by (intro loads_valid) (simp_all add: gateway_env_def demo_libs_def)
  have "parser_law (ge_parse ?env)" by (simp add: gateway_env_def demo_libs_def demo_parser_law)
  from NewServer_ok [OF this load] obtain g where "NewServer ?env (Some []) = Some (Inr g)" .
  with NewServer_models [OF this] load show ?thesis
    by (simp add: NewServerWithOptions_def demo_world_def)
qed

theorem serving_modes_witness:
  "\<exists>db. run demo_libs demo_world demo_config \<lparr>vs_versions = None, vs_data = empty_db\<rparr> = Some (None, db) \<and>
     inflight_limit (server_options demo_config) = Some 4 \<and>
     map_of (registered (server_options demo_config)) ''GET /models'' = None"
proof -
  have v: "validate (sl_parse demo_libs) demo_config = None" "cfg_databaseURL demo_config \<noteq> []"
    "op_AccountStore (server_options demo_config)" "\<not> cfg_insecureDev demo_config" "cfg_maxInflight demo_config = 4"
    by (simp_all add: validate_def demo_config_def server_options_def)
  obtain db where opened: "openAccountStore demo_world \<lparr>vs_versions = None, vs_data = empty_db\<rparr> = (None, db)"
    using demo_opens by blast
  obtain g where g: "NewServerWithOptions demo_libs (server_options demo_config) (wd_file demo_world) = Some (Inr g)"
    "gw_models g = [demo_model ''q'' ''HTTP://a'']"
    using demo_starts by blast
  have "PricedModels (gw_models g) = []" by (simp add: g(2) PricedModels_def demo_model_def)
  moreover have "map_option fst (Run demo_run) = Some None" by code_simp
  then obtain as where "Run demo_run = Some (None, as)" by auto
  ultimately have "serve_gateway demo_libs demo_world (server_options demo_config) db = Some (None, db)"
    using g(1) v(3) by (simp add: serve_gateway_def demo_world_def)
  with v opened have "run demo_libs demo_world demo_config \<lparr>vs_versions = None, vs_data = empty_db\<rparr> = Some (None, db)"
    by (simp add: run_def)
  from serving_modes [OF this] this v show ?thesis by simp
qed

end
