(* ===== verification/Fake_VLLM.thy ===== *)
theory Fake_VLLM
  imports Http Usage_Capture Lifecycle
begin

text \<open>
  The deterministic inference server the gateway is tested against (\<open>cmd/fake-vllm/main.go\<close>): its
  configuration, the health and completion handlers, the event stream it writes, and its life.
  The JSON decoder and encoder are parameters; the client's presence and the outcome of each
  write are the environment. Its stream is then read by the gateway's usage capture.
\<close>

subsection \<open>Configuration\<close>

text \<open>Delays in nanoseconds.\<close>

record fakeConfig =
  fc_addr :: bytes
  fc_model :: bytes
  fc_startupDelay :: int
  fc_responseDelay :: int
  fc_chunkDelay :: int
  fc_errorStatus :: int

datatype fake_config_error =
    FlagError bool
  | PositionalArguments
  | EmptyModelName
  | NegativeDelay
  | BadErrorStatus

text \<open>
  What \<open>flags.Parse\<close> yields (\<open>fake_parsed\<close> of \<open>Startup\<close>) is an argument: an error, which may be the request for help, or the
  values and the number of arguments that are left.
\<close>

definition parseConfig :: "bool + fakeConfig \<times> nat \<Rightarrow> fake_config_error + fakeConfig" where
  "parseConfig parsed =
     (case parsed of
        Inl help \<Rightarrow> Inl (FlagError help)
      | Inr (cfg, nargs) \<Rightarrow>
          if nargs \<noteq> 0 then Inl PositionalArguments
          else if trimSpace (fc_model cfg) = [] then Inl EmptyModelName
          else if fc_startupDelay cfg < 0 \<or> fc_responseDelay cfg < 0 \<or> fc_chunkDelay cfg < 0 then Inl NegativeDelay
          else if fc_errorStatus cfg \<noteq> 0 \<and> (fc_errorStatus cfg < 400 \<or> fc_errorStatus cfg > 599) then Inl BadErrorStatus
          else Inr cfg)"

subsection \<open>Requests and answers\<close>

definition fakeMaxRequestBytes :: nat where
  "fakeMaxRequestBytes = 2 ^ 20"

text \<open>How the bytes of a body end for its reader.\<close>

datatype body_end = AtEOF | BodyTooLarge | ReadError

text \<open>A message is its role and content, a usage its three counts.\<close>

record choice =
  ch_Message :: "(bytes \<times> bytes) option"
  ch_Delta :: "(bytes \<times> bytes) option"
  ch_FinishReason :: "bytes option"

record fakeCompletion =
  fk_ID :: bytes
  fk_Object :: bytes
  fk_Created :: int
  fk_Model :: bytes
  fk_Choices :: "choice list"
  fk_Usage :: "(int \<times> int \<times> int) option"

text \<open>
  \<open>fx_fields\<close>: the first \<open>Decode\<close>, the raw fields and the bytes it left, or whether its error is the one
  of the size limit; \<open>fx_extra\<close>: whether the error of the second is; \<open>fx_string\<close> and \<open>fx_messages\<close>:
  \<open>json.Unmarshal\<close> into a string, and whether it succeeds into the list of messages.
\<close>

record fakeLibs =
  fx_fields :: "bytes \<Rightarrow> body_end \<Rightarrow> bool + (bytes \<Rightarrow> bytes option) \<times> bytes"
  fx_extra :: "bytes \<Rightarrow> body_end \<Rightarrow> bool"
  fx_string :: "bytes \<Rightarrow> bytes option"
  fx_messages :: "bytes \<Rightarrow> bool"
  fx_marshal :: "fakeCompletion \<Rightarrow> bytes"

text \<open>
  \<open>fq_gone k\<close>: whether the \<open>k\<close>-th look at the request's context finds it ended; \<open>fq_cut j\<close>: after
  how many bytes the \<open>j\<close>-th event breaks off with an error, if it does.
\<close>

record fakeRequest =
  fq_body :: "bytes \<times> bool"
  fq_gone :: "nat \<Rightarrow> bool"
  fq_cut :: "nat \<Rightarrow> nat option"

datatype fake_body = HealthStatus bytes | Completion fakeCompletion | Events bytes

definition writeError :: "'b reply \<Rightarrow> int \<Rightarrow> bytes \<Rightarrow> 'b reply" where
  "writeError w status message =
     (set_reply_header ''Content-Type'' ''application/json'' w)
       \<lparr>rp_status := status,
        rp_body := ErrorBody message (if status \<ge> 500 then ''server_error'' else ''invalid_request_error'')\<rparr>"

definition writeDecodeError :: "'b reply \<Rightarrow> bool \<Rightarrow> 'b reply" where
  "writeDecodeError w too_large =
     (if too_large then writeError w 413 ''request body exceeds 1 MiB''
      else writeError w 400 ''body must contain one valid JSON request'')"

text \<open>The readiness of the server, at the time of a request.\<close>

definition readyAt :: "fakeConfig \<Rightarrow> int \<Rightarrow> int" where
  "readyAt cfg started = started + fc_startupDelay cfg"

definition fake_health :: "fakeConfig \<Rightarrow> int \<Rightarrow> int \<Rightarrow> fake_body reply \<Rightarrow> fake_body reply" where
  "fake_health cfg started now w =
     (if now < readyAt cfg started then writeError w 503 ''fake vLLM is starting''
      else write_json w 200 (HealthStatus ''ok''))"

subsection \<open>Reading a request\<close>

definition limited :: "bytes \<times> bool \<Rightarrow> bytes \<times> body_end" where
  "limited b =
     (case b of (data, failed) \<Rightarrow>
        if length data > fakeMaxRequestBytes then (take fakeMaxRequestBytes data, BodyTooLarge)
        else (data, if failed then ReadError else AtEOF))"

definition decode_fields :: "fakeLibs \<Rightarrow> bytes \<times> bool \<Rightarrow> bool + (bytes \<Rightarrow> bytes option)" where
  "decode_fields libs b =
     (case limited b of (data, e) \<Rightarrow>
        (case fx_fields libs data e of
           Inl too_large \<Rightarrow> Inl too_large
         | Inr (fs, rest) \<Rightarrow>
             if list_all json_space rest \<and> e = AtEOF then Inr fs else Inl (fx_extra libs rest e)))"

text \<open>The model and the raw \<open>stream\<close> field, empty when it is missing.\<close>

definition parse_request :: "fakeLibs \<Rightarrow> bytes \<times> bool \<Rightarrow> bool + bytes \<times> bytes" where
  "parse_request libs b =
     (case decode_fields libs b of
        Inl too_large \<Rightarrow> Inl too_large
      | Inr fs \<Rightarrow>
          (case Option.bind (fs ''model'') (fx_string libs) of
             None \<Rightarrow> Inl False
           | Some model \<Rightarrow>
               if pred_option (fx_messages libs) (fs ''messages'')
               then Inr (model, case fs ''stream'' of None \<Rightarrow> [] | Some raw \<Rightarrow> raw)
               else Inl False))"

subsection \<open>The event stream\<close>

text \<open>
  A step writes bytes and goes on with the next look at the context and the next event, or ends
  the handler.
\<close>

type_synonym step = "nat \<times> nat \<Rightarrow> bytes \<times> (nat \<times> nat) option"

definition seq :: "step \<Rightarrow> step \<Rightarrow> step" where
  "seq f g s =
     (case f s of
        (out, None) \<Rightarrow> (out, None)
      | (out, Some s') \<Rightarrow> (case g s' of (out', r) \<Rightarrow> (out @ out', r)))"

text \<open>\<open>wait\<close>: whether the context has ended, and the next look.\<close>

definition wait :: "(nat \<Rightarrow> bool) \<Rightarrow> int \<Rightarrow> nat \<Rightarrow> bool \<times> nat" where
  "wait gone delay k =
     (if gone k then (True, Suc k) else if delay = 0 then (False, Suc k) else (gone (Suc k), Suc (Suc k)))"

definition pause :: "fakeRequest \<Rightarrow> int \<Rightarrow> step" where
  "pause q delay s =
     (case s of (k, j) \<Rightarrow> (case wait (fq_gone q) delay k of (ended, k') \<Rightarrow> ([], if ended then None else Some (k', j))))"

definition event :: "bytes \<Rightarrow> bytes" where
  "event data = ''data: '' @ data @ [CHR 0x0A, CHR 0x0A]"

definition writeEvent :: "fakeRequest \<Rightarrow> bytes \<Rightarrow> step" where
  "writeEvent q data s =
     (case s of (k, j) \<Rightarrow>
        (case fq_cut q j of
           None \<Rightarrow> (event data, Some (k, Suc j))
         | Some n \<Rightarrow> (take n (event data), None)))"

definition send :: "fakeRequest \<Rightarrow> bytes \<Rightarrow> step" where
  "send q data s = (case s of (k, j) \<Rightarrow> if fq_gone q k then ([], None) else writeEvent q data (Suc k, j))"

definition syntheticText :: bytes where
  "syntheticText = ''Hello from fake vLLM.''"

definition parts :: "bytes list" where
  "parts = [''Hello'', '' from'', '' fake'', '' vLLM'', ''.'']"

definition full_response :: "fakeConfig \<Rightarrow> fakeCompletion" where
  "full_response cfg =
     \<lparr>fk_ID = ''chatcmpl-fake-vllm'', fk_Object = ''chat.completion'', fk_Created = 1700000000, fk_Model = fc_model cfg,
      fk_Choices = [\<lparr>ch_Message = Some (''assistant'', syntheticText), ch_Delta = None, ch_FinishReason = Some ''stop''\<rparr>],
      fk_Usage = Some (0, 5, 5)\<rparr>"

text \<open>A chunk of the stream: its delta, and on the last one the end and the usage.\<close>

definition chunk :: "fakeConfig \<Rightarrow> bytes \<times> bytes \<Rightarrow> bool \<Rightarrow> fakeCompletion" where
  "chunk cfg delta final =
     (full_response cfg)
       \<lparr>fk_Object := ''chat.completion.chunk'',
        fk_Choices := [\<lparr>ch_Message = None, ch_Delta = Some delta, ch_FinishReason = (if final then Some ''stop'' else None)\<rparr>],
        fk_Usage := (if final then Some (0, 5, 5) else None)\<rparr>"

fun send_parts :: "fakeLibs \<Rightarrow> fakeConfig \<Rightarrow> fakeRequest \<Rightarrow> bytes list \<Rightarrow> step" where
  "send_parts libs cfg q [] s = ([], Some s)"
| "send_parts libs cfg q (p # ps) s =
     seq (seq (pause q (fc_chunkDelay cfg)) (send q (fx_marshal libs (chunk cfg ([], p) False))))
       (send_parts libs cfg q ps) s"

definition stream_rest :: "fakeLibs \<Rightarrow> fakeConfig \<Rightarrow> fakeRequest \<Rightarrow> step" where
  "stream_rest libs cfg q =
     seq (send_parts libs cfg q parts)
       (seq (pause q (fc_chunkDelay cfg))
         (seq (send q (fx_marshal libs (chunk cfg ([], []) True)))
           (seq (pause q (fc_chunkDelay cfg)) (writeEvent q ''[DONE]''))))"

text \<open>The reply of a stream has a status once something was written.\<close>

definition stream_reply :: "fakeLibs \<Rightarrow> fakeConfig \<Rightarrow> fakeRequest \<Rightarrow> nat \<Rightarrow> fake_body reply \<Rightarrow> fake_body reply" where
  "stream_reply libs cfg q k w0 =
     (let w = set_reply_header ''Cache-Control'' ''no-cache'' (set_reply_header ''Content-Type'' ''text/event-stream'' w0)
      in if fq_gone q k then w
         else w\<lparr>rp_status := 200, rp_body := Content (Events (fst
            (seq (send q (fx_marshal libs (chunk cfg (''assistant'', []) False))) (stream_rest libs cfg q) (k, 0))))\<rparr>)"

subsection \<open>The completion handler\<close>

definition fake_completions ::
    "fakeLibs \<Rightarrow> fakeConfig \<Rightarrow> int \<Rightarrow> int \<Rightarrow> fakeRequest \<Rightarrow> fake_body reply \<Rightarrow> fake_body reply" where
  "fake_completions libs cfg started now q w =
     (if now < readyAt cfg started then writeError w 503 ''fake vLLM is starting''
      else
        (case parse_request libs (fq_body q) of
           Inl too_large \<Rightarrow> writeDecodeError w too_large
         | Inr (model, stream) \<Rightarrow>
             (case wait (fq_gone q) (fc_responseDelay cfg) 0 of (ended, k) \<Rightarrow>
                if ended then w
                else if model = [] \<or> model \<noteq> fc_model cfg
                then writeError w 400 ''model must be nonempty and exactly match the configured model''
                else if stream \<notin> {[], ''false'', ''true''} then writeError w 400 ''stream must be a boolean''
                else if fq_gone q k then w
                else if fc_errorStatus cfg \<noteq> 0 then writeError w (fc_errorStatus cfg) ''synthetic fake vLLM error''
                else if stream \<noteq> ''true'' then write_json w 200 (Completion (full_response cfg))
                else stream_reply libs cfg q (Suc k) w)))"

subsection \<open>Serving\<close>

record fakeServeEnv =
  fs_listen :: bool
  fs_serve :: serve_end
  fs_woken :: bool
  fs_shutdown :: bool

definition fake_serve :: "fakeServeEnv \<Rightarrow> run_error option \<times> action list" where
  "fake_serve env =
     (if \<not> fs_listen env then (Some (ListenError API), [])
      else if fs_woken env then
        (case fs_serve env of ServerClosed \<Rightarrow> None | ServeFailed \<Rightarrow> Some (ServeError API),
         [Bind API, Serve API, Receive API, CloseServer API])
      else
        (if fs_shutdown env then None else Some (ShutdownError API),
         [Bind API, Serve API, Shutdown API, CloseServer API]))"

text \<open>The exit status of the command.\<close>

definition fake_main :: "bool + fakeConfig \<times> nat \<Rightarrow> fakeServeEnv \<Rightarrow> nat" where
  "fake_main parsed env =
     (case parseConfig parsed of
        Inl e \<Rightarrow> if e = FlagError True then 0 else 1
      | Inr cfg \<Rightarrow> if fst (fake_serve env) = None then 0 else 1)"

subsection \<open>What a stream writes\<close>

definition chunks :: "fakeConfig \<Rightarrow> fakeCompletion list" where
  "chunks cfg = chunk cfg (''assistant'', []) False # map (\<lambda>p. chunk cfg ([], p) False) parts @ [chunk cfg ([], []) True]"

definition complete_stream :: "fakeLibs \<Rightarrow> fakeConfig \<Rightarrow> bytes" where
  "complete_stream libs cfg = concat (map event (map (fx_marshal libs) (chunks cfg) @ [''[DONE]'']))"

text \<open>A step writes all of some bytes and goes on, or writes the beginning of them and ends.\<close>

definition writes :: "step \<Rightarrow> bytes \<Rightarrow> bool" where
  "writes f a \<longleftrightarrow> (\<forall>s. case f s of (out, None) \<Rightarrow> prefix out a | (out, Some s') \<Rightarrow> out = a)"

text \<open>Without a client that leaves or a write that fails it goes on.\<close>

definition goes_on :: "step \<Rightarrow> bool" where
  "goes_on f \<longleftrightarrow> (\<forall>s. snd (f s) \<noteq> None)"

definition undisturbed :: "fakeRequest \<Rightarrow> bool" where
  "undisturbed q \<longleftrightarrow> (\<forall>k. \<not> fq_gone q k) \<and> (\<forall>j. fq_cut q j = None)"

lemma writes_seq:
  assumes "writes f a" and "writes g b"
  shows "writes (seq f g) (a @ b)"
  unfolding writes_def
proof
  fix s
  obtain out r where f: "f s = (out, r)" by (cases "f s")
  have a: "case (out, r) of (out, None) \<Rightarrow> prefix out a | (out, Some s') \<Rightarrow> out = a"
    using assms(1) f unfolding writes_def by metis
  show "case seq f g s of (out, None) \<Rightarrow> prefix out (a @ b) | (out, Some s') \<Rightarrow> out = a @ b"
  proof (cases r)
    case None
    with a f show ?thesis by (simp add: seq_def)
  next
    case (Some s')
    obtain out' r' where g: "g s' = (out', r')" by (cases "g s'")
    have "case (out', r') of (out, None) \<Rightarrow> prefix out b | (out, Some s') \<Rightarrow> out = b"
      using assms(2) g unfolding writes_def by metis
    with a f g Some show ?thesis by (cases r') (simp_all add: seq_def)
  qed
qed

lemma goes_on_seq:
  assumes "goes_on f" and "goes_on g"
  shows "goes_on (seq f g)"
  unfolding goes_on_def
proof
  fix s
  obtain out s' where "f s = (out, Some s')" using assms(1) unfolding goes_on_def by (metis not_Some_eq prod.collapse)
  then show "snd (seq f g s) \<noteq> None"
    using assms(2) unfolding goes_on_def seq_def by (metis (no_types, lifting) case_prod_unfold option.simps(5) prod.case snd_conv)
qed

lemma writes_steps:
  "writes (pause q d) []" "writes (writeEvent q data) (event data)" "writes (send q data) (event data)"
  by (auto simp: writes_def pause_def writeEvent_def send_def take_is_prefix split: prod.split option.split)

lemma goes_on_steps:
  "undisturbed q \<Longrightarrow> goes_on (pause q d)" "undisturbed q \<Longrightarrow> goes_on (writeEvent q data)"
  "undisturbed q \<Longrightarrow> goes_on (send q data)"
  by (auto simp: undisturbed_def goes_on_def pause_def wait_def writeEvent_def send_def split: prod.split)

lemma writes_parts: "writes (send_parts libs cfg q ps) (concat (map (\<lambda>p. event (fx_marshal libs (chunk cfg ([], p) False))) ps))"
proof (induction ps)
  case Nil
  then show ?case by (simp add: writes_def)
next
  case (Cons p ps)
  from writes_seq [OF writes_seq [OF writes_steps(1,3)] Cons] show ?case
    by (simp add: writes_def)
qed

lemma goes_on_parts: "undisturbed q \<Longrightarrow> goes_on (send_parts libs cfg q ps)"
proof (induction ps)
  case Nil
  then show ?case by (simp add: goes_on_def)
next
  case (Cons p ps)
  then have "goes_on (seq (seq (pause q (fc_chunkDelay cfg)) (send q (fx_marshal libs (chunk cfg ([], p) False))))
      (send_parts libs cfg q ps))"
    by (intro goes_on_seq goes_on_steps) auto
  then show ?case by (simp add: goes_on_def)
qed

lemma stream_writes:
  "writes (seq (send q (fx_marshal libs (chunk cfg (''assistant'', []) False))) (stream_rest libs cfg q)) (complete_stream libs cfg)"
proof -
  let ?f = "seq (send q (fx_marshal libs (chunk cfg (''assistant'', []) False))) (stream_rest libs cfg q)"
  let ?first = "event (fx_marshal libs (chunk cfg (''assistant'', []) False))"
  let ?parts = "concat (map (\<lambda>p. event (fx_marshal libs (chunk cfg ([], p) False))) parts)"
  let ?final = "event (fx_marshal libs (chunk cfg ([], []) True))"
  have "writes ?f (?first @ ?parts @ [] @ ?final @ [] @ event ''[DONE]'')"
    unfolding stream_rest_def by (intro writes_seq writes_steps writes_parts)
  then show ?thesis by (simp add: complete_stream_def chunks_def comp_def)
qed

lemma stream_goes_on:
  "undisturbed q \<Longrightarrow> goes_on (seq (send q (fx_marshal libs (chunk cfg (''assistant'', []) False))) (stream_rest libs cfg q))"
  unfolding stream_rest_def by (intro goes_on_seq goes_on_steps goes_on_parts)

lemma stream_reply_body:
  "rp_body (stream_reply libs cfg q k fresh_reply) = Content (Events b) \<Longrightarrow> prefix b (complete_stream libs cfg)"
  "undisturbed q \<Longrightarrow> rp_body (stream_reply libs cfg q k fresh_reply) = Content (Events (complete_stream libs cfg))"
  using stream_writes [of q libs cfg, unfolded writes_def, rule_format, of "(k, 0)"]
    stream_goes_on [of q libs cfg, unfolded goes_on_def, rule_format, of "(k, 0)"]
  by (auto simp: stream_reply_def Let_def undisturbed_def split: if_splits prod.splits option.splits)

subsection \<open>Reading the stream\<close>

text \<open>
  What \<open>encoding/json\<close> promises of an encoded completion: a JSON object on one line, and decoding it
  into the gateway's usage yields the counts it was encoded with.
\<close>

definition marshal_law :: "fakeLibs \<Rightarrow> usage_decoder \<Rightarrow> bool" where
  "marshal_law libs decode \<longleftrightarrow>
     (\<forall>c. pred_option (\<lambda>(p, q, t). 0 \<le> p \<and> 0 \<le> q) (fk_Usage c) \<longrightarrow>
       (let d = fx_marshal libs c in
        d \<noteq> [] \<and> hd d = CHR ''{'' \<and> last d = CHR ''}'' \<and> CHR 0x0A \<notin> set d \<and>
        decode d = Some (map_option (\<lambda>(p, q, t). \<lparr>PromptTokens = Some (word_of_int p), CompletionTokens = Some (word_of_int q)\<rparr>)
          (fk_Usage c))))"

text \<open>The data of an event: on one line, without white space around it.\<close>

definition plain_data :: "bytes \<Rightarrow> bool" where
  "plain_data d \<longleftrightarrow> d \<noteq> [] \<and> hd d \<in> set ''{['' \<and> last d \<in> set ''}]'' \<and> CHR 0x0A \<notin> set d"

lemma strip_other:
  assumes "s \<noteq> []" and "list_all (\<lambda>w. w \<noteq> [] \<and> hd w \<noteq> hd s) ws"
  shows "strip ws s = s"
proof (rule strip_stop)
  fix w assume "w \<in> set ws"
  with assms(2) have "w \<noteq> []" "hd w \<noteq> hd s" by (auto simp: list_all_iff)
  with assms(1) show "\<not> hasPrefix s w" by (cases w; cases s) (auto simp: hasPrefix_iff)
qed

lemma brackets_not_space:
  "list_all (\<lambda>w. w \<noteq> [] \<and> hd w \<notin> set ''{['') space_runes"
  "list_all (\<lambda>w. w \<noteq> [] \<and> hd w \<notin> set ''}]'') (map rev space_runes)"
  "find (\<lambda>w. w \<noteq> [] \<and> hasPrefix (CHR '' '' # d) w) space_runes = Some '' ''"
  by (simp_all add: space_runes_def hasPrefix_def)

lemma plain_not_space:
  assumes "plain_data d"
  shows "trimSpace (CHR '' '' # d) = d"
proof -
  have "list_all (\<lambda>w. w \<noteq> [] \<and> hd w \<noteq> hd d) space_runes"
    using brackets_not_space(1) assms unfolding plain_data_def list_all_iff by metis
  then have "strip space_runes d = d" by (rule strip_other [rotated]) (use assms in \<open>simp add: plain_data_def\<close>)
  then have l: "strip space_runes (CHR '' '' # d) = d"
    by (subst strip.simps) (simp add: brackets_not_space(3))
  have "list_all (\<lambda>w. w \<noteq> [] \<and> hd w \<noteq> hd (rev d)) (map rev space_runes)"
    using brackets_not_space(2) assms unfolding plain_data_def list_all_iff hd_rev by metis
  then have "strip (map rev space_runes) (rev d) = rev d"
    by (rule strip_other [rotated]) (use assms in \<open>simp add: plain_data_def\<close>)
  then show ?thesis by (simp add: trimSpace_def l)
qed

text \<open>The first line of an event; the second is blank.\<close>

definition data_line :: "bytes \<Rightarrow> bytes" where
  "data_line d = ''data: '' @ d"

lemma event_line: "event d = data_line d @ CHR 0x0A # CHR 0x0A # []"
  by (simp add: event_def data_line_def)

lemma line_data_line: "plain_data d \<Longrightarrow> line_data (data_line d) = Some d"
proof -
  assume d: "plain_data d"
  then obtain w c where w: "d = w @ [c]" "c \<in> set ''}]''" by (cases d rule: rev_cases) (auto simp: plain_data_def)
  then have "\<not> hasSuffix (data_line d) [CHR 0x0D]" by (auto simp: data_line_def hasSuffix_iff suffix_def)
  then have "trimSuffix (data_line d) [CHR 0x0D] = data_line d" by (simp add: trimSuffix_def)
  then show "line_data (data_line d) = Some d"
    using plain_not_space [OF d] by (simp add: line_data_def data_line_def hasPrefix_iff Let_def)
qed

lemma line_data_Nil: "line_data [] = None"
  by (simp add: line_data_def trimSuffix_def hasSuffix_def hasPrefix_def)

lemma data_line_one: "plain_data d \<Longrightarrow> CHR 0x0A \<notin> set (data_line d)"
  by (simp add: plain_data_def data_line_def)

lemma split_events:
  assumes "list_all plain_data ds"
  shows "split_on (CHR 0x0A) (concat (map event ds) @ p) = concat (map (\<lambda>d. [data_line d, []]) ds) @ split_on (CHR 0x0A) p"
  using assms
proof (induction ds)
  case (Cons d ds)
  then have "split_on (CHR 0x0A) (data_line d) = [data_line d]" by (intro split_on_none data_line_one) simp
  moreover have "split_on (CHR 0x0A) (CHR 0x0A # xs) = [] # split_on (CHR 0x0A) xs" for xs
    using split_on_append_sep [of "CHR 0x0A" "[]" xs] by simp
  ultimately show ?case
    using Cons by (simp add: event_line split_on_append_sep del: split_on.simps(2))
qed simp

lemma data_lines_events:
  "list_all plain_data ds \<Longrightarrow> data_lines (concat (map (\<lambda>d. [data_line d, []]) ds)) = ds"
  by (induction ds) (auto simp: data_lines_def map_filter_def line_data_line line_data_Nil)

text \<open>A beginning of a stream breaks off between two events or within one.\<close>

lemma prefix_events:
  "prefix b (concat (map event ds)) \<Longrightarrow> b = concat (map event ds) \<or>
     (\<exists>es d p rest. ds = es @ d # rest \<and> b = concat (map event es) @ p \<and> prefix p (event d) \<and> p \<noteq> event d)"
proof (induction ds arbitrary: b)
  case (Cons d ds)
  then consider "prefix b (event d)" "b \<noteq> event d" | b' where "b = event d @ b'" "prefix b' (concat (map event ds))"
    using prefix_append [of b "event d" "concat (map event ds)"] by (cases "b = event d") auto
  then show ?case
  proof cases
    case 1
    then show ?thesis by (intro disjI2 exI [of _ "[]"] exI [of _ d] exI [of _ b] exI [of _ ds]) simp
  next
    case 2
    from Cons.IH [OF 2(2)] show ?thesis
    proof (elim disjE exE conjE)
      assume "b' = concat (map event ds)"
      with 2(1) show ?thesis by simp
    next
      fix es d' p rest
      assume "ds = es @ d' # rest" "b' = concat (map event es) @ p" "prefix p (event d')" "p \<noteq> event d'"
      with 2(1) show ?thesis
        by (intro disjI2 exI [of _ "d # es"] exI [of _ d'] exI [of _ p] exI [of _ rest]) simp
    qed
  qed
qed simp

text \<open>Within an event the stream does not end with a blank line.\<close>

lemma blank_line_before: "blank_line_end (v @ [c, CHR 0x0A]) \<Longrightarrow> c \<in> {CHR 0x0A, CHR 0x0D}"
proof -
  have "last (butlast (v @ [c, CHR 0x0A])) = c" by (simp add: butlast_append)
  moreover assume "blank_line_end (v @ [c, CHR 0x0A])"
  then obtain zs a where "v @ [c, CHR 0x0A] = zs @ [a, CHR 0x0A]" "a \<in> {CHR 0x0A, CHR 0x0D}"
    unfolding blank_line_end_def hasSuffix_iff suffix_def by (metis append.assoc append_Cons append_Nil insertCI)
  then have "last (butlast (v @ [c, CHR 0x0A])) = a" by (simp only:) (simp add: butlast_append)
  ultimately show ?thesis using \<open>a \<in> {CHR 0x0A, CHR 0x0D}\<close> by simp
qed

lemma cut_event_not_blank:
  assumes "plain_data d" and "prefix p (event d)" and "p \<noteq> event d" and "p \<noteq> []"
  shows "\<not> blank_line_end (x @ p)"
proof -
  consider "prefix p (data_line d)" | "p = data_line d @ [CHR 0x0A]"
    using assms(2,3) by (auto simp: event_line prefix_append prefix_Cons)
  then show ?thesis
  proof cases
    case 1
    then have "set p \<subseteq> set (data_line d)" by (auto simp: prefix_def)
    then have "last p \<noteq> CHR 0x0A" using data_line_one [OF assms(1)] last_in_set [OF assms(4)] by auto
    then have "\<not> suffix [CHR 0x0A] (x @ p)" using assms(4) by (auto simp: suffix_def) (metis last_appendR last_snoc)
    then show ?thesis using blank_line_end_newline by blast
  next
    case 2
    obtain w c where "d = w @ [c]" "c \<in> set ''}]''" using assms(1) by (cases d rule: rev_cases) (auto simp: plain_data_def)
    then show ?thesis using blank_line_before [of "x @ ''data: '' @ w" c] 2 by (auto simp: data_line_def)
  qed
qed

lemma cut_stream_unread:
  assumes plain: "list_all plain_data (ds @ [''[DONE]''])" and "''[DONE]'' \<notin> set ds"
    and "prefix b (concat (map event (ds @ [''[DONE]''])))" and "b \<noteq> concat (map event (ds @ [''[DONE]'']))"
  shows "stream_usage_spec decode b = None"
proof -
  obtain es d p rest where ds: "ds @ [''[DONE]''] = es @ d # rest" and b: "b = concat (map event es) @ p"
    and p: "prefix p (event d)" "p \<noteq> event d"
    using prefix_events [OF assms(3)] assms(4) by blast
  have es: "list_all plain_data es" and d: "plain_data d" using plain unfolding ds by simp_all
  have "''[DONE]'' \<notin> set es"
  proof (cases rest rule: rev_cases)
    case Nil
    with ds assms(2) show ?thesis by auto
  next
    case (snoc r x)
    then have "ds = es @ d # r" using ds by (metis append_Cons append_assoc butlast_snoc)
    with assms(2) show ?thesis by auto
  qed
  show ?thesis
  proof (cases "p = []")
    case True
    have "butlast (split_on (CHR 0x0A) b) = concat (map (\<lambda>d. [data_line d, []]) es)"
      using split_events [OF es, of "[]"] by (simp add: b True)
    then have "lines_usage decode (butlast (split_on (CHR 0x0A) b)) = None"
      using \<open>''[DONE]'' \<notin> set es\<close> last_in_set [of es]
      unfolding lines_usage_def Let_def by (metis data_lines_events [OF es])
    then show ?thesis by (simp add: stream_usage_spec_def)
  next
    case False
    then show ?thesis using cut_event_not_blank [OF d p] by (simp add: stream_usage_spec_def b)
  qed
qed

lemma whole_stream_read:
  assumes "list_all plain_data (ds @ [''[DONE]''])" and "valid_usages decode ds \<noteq> []"
  shows "stream_usage_spec decode (concat (map event (ds @ [''[DONE]'']))) = Some (last (valid_usages decode ds))"
proof -
  let ?ds = "ds @ [''[DONE]'']"
  have "butlast (split_on (CHR 0x0A) (concat (map event ?ds))) = concat (map (\<lambda>d. [data_line d, []]) ?ds)"
    using split_events [OF assms(1), of "[]"] by (simp add: butlast_append)
  moreover have "valid_usages decode [''[DONE]''] = []" by (simp add: valid_usages_single event_usage_def)
  moreover have "blank_line_end (concat (map event ?ds))" by (simp add: blank_line_end_def event_def hasSuffix_iff suffix_def)
  ultimately show ?thesis
    using assms(2) unfolding stream_usage_spec_def lines_usage_def Let_def
    by (simp only: data_lines_events [OF assms(1)]) simp
qed

text \<open>The data of the fake server's stream.\<close>

lemma fake_chunks:
  assumes "marshal_law libs decode"
  shows "list_all plain_data (map (fx_marshal libs) (chunks cfg) @ [''[DONE]''])"
    and "''[DONE]'' \<notin> set (map (fx_marshal libs) (chunks cfg))"
    and "valid_usages decode (map (fx_marshal libs) (chunks cfg)) = [\<lparr>PromptTokens = Some 0, CompletionTokens = Some 5\<rparr>]"
proof -
  have law: "fx_marshal libs (chunk cfg d f) \<noteq> []" "hd (fx_marshal libs (chunk cfg d f)) = CHR ''{''"
    "last (fx_marshal libs (chunk cfg d f)) = CHR ''}''" "CHR 0x0A \<notin> set (fx_marshal libs (chunk cfg d f))"
    "decode (fx_marshal libs (chunk cfg d f)) = Some (if f then Some \<lparr>PromptTokens = Some 0, CompletionTokens = Some 5\<rparr> else None)"
    for d f
    using assms [unfolded marshal_law_def, rule_format, of "chunk cfg d f"] by (simp_all add: chunk_def Let_def)
  have plain: "plain_data (fx_marshal libs (chunk cfg d f))" for d f using law by (simp add: plain_data_def)
  then show "list_all plain_data (map (fx_marshal libs) (chunks cfg) @ [''[DONE]''])"
    by (simp add: chunks_def parts_def) (simp add: plain_data_def)
  have not_done: "fx_marshal libs (chunk cfg d f) \<noteq> ''[DONE]''" for d f using law(2) [of d f] by auto
  then show "''[DONE]'' \<notin> set (map (fx_marshal libs) (chunks cfg))"
    by (simp add: chunks_def parts_def not_sym)
  have ev: "event_usage decode (fx_marshal libs (chunk cfg d f)) =
      (if f then Some \<lparr>PromptTokens = Some 0, CompletionTokens = Some 5\<rparr> else None)" for d f
    by (simp add: event_usage_def law(5) not_done validUsage_def)
  show "valid_usages decode (map (fx_marshal libs) (chunks cfg)) = [\<lparr>PromptTokens = Some 0, CompletionTokens = Some 5\<rparr>]"
    by (simp add: valid_usages_def map_filter_def chunks_def parts_def ev)
qed

text \<open>The answer to a client that stays, for a configuration that was accepted.\<close>

lemma fake_answers:
  assumes "parseConfig parsed = Inr cfg" and "undisturbed q" and "w = fake_completions libs cfg started now q fresh_reply"
  shows "if now < started + fc_startupDelay cfg then rp_status w = 503
    else (case parse_request libs (fq_body q) of
        Inl too_large \<Rightarrow> rp_status w = (if too_large then 413 else 400)
      | Inr (model, stream) \<Rightarrow>
          if model \<noteq> fc_model cfg \<or> stream \<notin> {[], ''false'', ''true''} then rp_status w = 400
          else if fc_errorStatus cfg \<noteq> 0 then rp_status w = fc_errorStatus cfg \<and> 400 \<le> rp_status w \<and> rp_status w < 600
          else rp_status w = 200 \<and> rp_body w = Content
            (if stream = ''true'' then Events (complete_stream libs cfg) else Completion (full_response cfg)))"
proof -
  have cfg: "fc_model cfg \<noteq> []" "fc_errorStatus cfg \<noteq> 0 \<Longrightarrow> 400 \<le> fc_errorStatus cfg \<and> fc_errorStatus cfg < 600"
    using assms(1) strip_suffix [of _ "[]"]
    by (auto simp: parseConfig_def trimSpace_def split: sum.splits prod.splits if_splits)
  have here: "\<not> fq_gone q k" for k using assms(2) by (simp add: undisturbed_def)
  have s: "rp_status (stream_reply libs cfg q k fresh_reply) = 200" for k using here by (simp add: stream_reply_def Let_def)
  show ?thesis
    using cfg here s stream_reply_body(2) [OF assms(2), of libs cfg] unfolding assms(3)
    by (auto simp: fake_completions_def readyAt_def writeDecodeError_def writeError_def wait_def write_json_def
        split: sum.split prod.split)
qed

text \<open>Whatever \<open>serve\<close> opened it closes.\<close>

lemma fake_serve_closes: "Bind API \<in> set (snd (fake_serve env)) \<Longrightarrow> last (snd (fake_serve env)) = CloseServer API"
  by (simp add: fake_serve_def split: if_splits)

subsection \<open>Properties\<close>

text \<open>
  C34: The gateway meters the fake server's stream exactly: whatever the client, the writes and the
  chunking of the reads do, the bytes that reach the gateway are a beginning of the complete stream,
  and they are recorded as complete, with 0 and 5 tokens, when they are all of it, and otherwise as
  incomplete and without counts.
\<close>
theorem fake_stream_metered:
  assumes "marshal_law libs decode" and "length (complete_stream libs cfg) \<le> maxSSEUsageTail"
    and "rp_body (fake_completions libs cfg started now q fresh_reply) = Content (Events b)"
    and "read_bytes rs = b" and "list_ex snd rs"
  shows "prefix b (complete_stream libs cfg) \<and>
    result decode (body_reads rs (start_capture 200 True)) False =
      (if b = complete_stream libs cfg then (200, ''complete'', Some 0, Some 5) else (200, ''incomplete'', None, None))"
proof -
  obtain k where "rp_body (stream_reply libs cfg q k fresh_reply) = Content (Events b)"
    using assms(3) by (auto simp: fake_completions_def writeDecodeError_def writeError_def Let_def
        split: if_splits sum.splits prod.splits)
  then have p: "prefix b (complete_stream libs cfg)" by (rule stream_reply_body(1))
  then have "\<not> maxSSEUsageTail < length b" using assms(2) by (meson le_trans not_le prefix_length_le)
  then have s: "streamUsage decode (body_reads rs (start_capture 200 True)) = stream_usage_spec decode b"
    by (simp add: streamUsage_reads assms(4) stream_usage_spec_def Let_def)
  have e: "cap_eof (body_reads rs (start_capture 200 True))" using assms(5) by (auto simp: list_ex_iff)
  note ch = fake_chunks [OF assms(1), of cfg]
  show ?thesis
  proof (cases "b = complete_stream libs cfg")
    case True
    then have "stream_usage_spec decode b = Some \<lparr>PromptTokens = Some 0, CompletionTokens = Some 5\<rparr>"
      using whole_stream_read [OF ch(1)] ch(3) by (simp add: complete_stream_def)
    with s e p True show ?thesis
      by (simp add: result_def overflow_reads captured_usage_def validUsage_def)
  next
    case False
    then have "stream_usage_spec decode b = None"
      using cut_stream_unread [OF ch(1,2)] p by (simp add: complete_stream_def)
    with s e p False show ?thesis
      by (simp add: result_def overflow_reads captured_usage_def)
  qed
qed

text \<open>A codec that writes the counts in unary, and a client that stays.\<close>

definition demo_marshal :: "fakeCompletion \<Rightarrow> bytes" where
  "demo_marshal c =
     (case fk_Usage c of None \<Rightarrow> ''{n}'' | Some (p, q, t) \<Rightarrow> ''{'' @ replicate (nat p) (CHR ''p'') @ replicate (nat q) (CHR ''q'') @ ''}'')"

definition demo_unmarshal :: usage_decoder where
  "demo_unmarshal d =
     (if d = ''{n}'' then Some None
      else Some (Some \<lparr>PromptTokens = Some (of_nat (length (filter (\<lambda>c. c = CHR ''p'') d))),
                       CompletionTokens = Some (of_nat (length (filter (\<lambda>c. c = CHR ''q'') d)))\<rparr>))"

definition demo_fake_libs :: fakeLibs where
  "demo_fake_libs =
     \<lparr>fx_fields = (\<lambda>d e. Inr (map_of [(''model'', ''m''), (''stream'', ''true'')], [])), fx_extra = (\<lambda>d e. False),
      fx_string = Some, fx_messages = (\<lambda>_. True), fx_marshal = demo_marshal\<rparr>"

definition demo_fake_config :: fakeConfig where
  "demo_fake_config = \<lparr>fc_addr = ''a'', fc_model = ''m'', fc_startupDelay = 0, fc_responseDelay = 0, fc_chunkDelay = 1,
     fc_errorStatus = 0\<rparr>"

definition demo_fake_request :: fakeRequest where
  "demo_fake_request = \<lparr>fq_body = (''x'', False), fq_gone = (\<lambda>_. False), fq_cut = (\<lambda>_. None)\<rparr>"

lemma demo_marshal_law: "marshal_law demo_fake_libs demo_unmarshal"
proof -
  have "replicate k x = [CHR ''n''] \<Longrightarrow> x = CHR ''n''" for k x by (cases k) auto
  from this [of _ "CHR ''p''"] this [of _ "CHR ''q''"] show ?thesis
    by (auto simp: marshal_law_def demo_fake_libs_def demo_marshal_def demo_unmarshal_def Let_def append_eq_Cons_conv
        split: option.split)
qed

lemma demo_fake_stream:
  "rp_body (fake_completions demo_fake_libs demo_fake_config 0 0 demo_fake_request fresh_reply) =
     Content (Events (complete_stream demo_fake_libs demo_fake_config))"
proof -
  have "undisturbed demo_fake_request" by (simp add: undisturbed_def demo_fake_request_def)
  from stream_reply_body(2) [OF this] show ?thesis
    by (simp add: fake_completions_def readyAt_def parse_request_def decode_fields_def limited_def demo_fake_libs_def
        demo_fake_config_def demo_fake_request_def wait_def fakeMaxRequestBytes_def)
qed

theorem fake_stream_metered_witness:
  "\<exists>b. rp_body (fake_completions demo_fake_libs demo_fake_config 0 0 demo_fake_request fresh_reply) = Content (Events b) \<and>
     result demo_unmarshal (body_reads [(b, True)] (start_capture 200 True)) False = (200, ''complete'', Some 0, Some 5)"
proof -
  let ?b = "complete_stream demo_fake_libs demo_fake_config"
  have len: "length ?b \<le> maxSSEUsageTail"
    by (simp add: complete_stream_def chunks_def parts_def chunk_def event_def demo_fake_libs_def demo_marshal_def
        full_response_def maxSSEUsageTail_def)
  have r: "read_bytes [(?b, True)] = ?b" "list_ex snd [(?b, True)]" by simp_all
  from fake_stream_metered [OF demo_marshal_law len demo_fake_stream r] demo_fake_stream show ?thesis by auto
qed

end
