(* ===== verification/Inflight_Gauge.thy ===== *)
theory Inflight_Gauge
  imports Membership
begin

text \<open>
  The gauge \<open>vire_backend_requests_in_flight\<close>, which \<open>modelRoute.ServeHTTP\<close> (\<open>gateway/proxy.go\<close>) moves
  and \<open>buildRouting\<close> (\<open>gateway/membership.go\<close>) sets to 0 for each backend it creates, over a server
  that reloads its registry while requests are in flight.
\<close>

subsection \<open>Requests and reloads\<close>

text \<open>
  A request that got a backend of a route enters; the \<open>i\<close>th of those in flight leaves, at whatever
  time; a reload may come in between.
\<close>

datatype flight_event =
    Enters modelRoute bref bytes bool requestObservation
  | Leaves nat requestObservation
  | Reloads "bytes option" "bref \<Rightarrow> probe_reply"

text \<open>
  \<open>fl_active\<close> are the model and the origin of each request in flight; \<open>fl_lost\<close> is, for such a label,
  the number of its requests that were in flight when its latest backend was created.
\<close>

record flight =
  fl_gateway :: gateway
  fl_active :: "(bytes \<times> bytes) list"
  fl_lost :: "bytes \<times> bytes \<Rightarrow> nat"

definition start_flight :: "gateway \<Rightarrow> flight" where
  "start_flight g = \<lparr>fl_gateway = g, fl_active = [], fl_lost = (\<lambda>_. 0)\<rparr>"

definition backend_label :: "routeBackend \<Rightarrow> bytes \<times> bytes" where
  "backend_label b = (rb_model b, rb_origin b)"

definition created :: "gateway \<Rightarrow> gateway \<Rightarrow> (bytes \<times> bytes) list" where
  "created g g' = map backend_label (drop (length (gw_heap g)) (gw_heap g'))"

fun flight_step :: "gatewayEnv \<Rightarrow> flight_event \<Rightarrow> flight \<Rightarrow> flight option" where
  "flight_step env (Enters route b key failover st) fl =
     (let g = fl_gateway fl; org = rb_origin (gw_heap g ! b) in
      Some (fl\<lparr>fl_gateway := g\<lparr>gw_metrics := snd (route_enter route org key failover (Some st) (gw_metrics g))\<rparr>,
               fl_active := fl_active fl @ [(mr_model route, org)]\<rparr>))"
| "flight_step env (Leaves i st) fl =
     (if i < length (fl_active fl)
      then (case fl_active fl ! i of (model, org) \<Rightarrow>
        let g = fl_gateway fl in
        Some (fl\<lparr>fl_gateway := g\<lparr>gw_metrics := route_exit (Some st) model org (gw_metrics g)\<rparr>,
                 fl_active := take i (fl_active fl) @ drop (Suc i) (fl_active fl)\<rparr>))
      else Some fl)"
| "flight_step env (Reloads data replies) fl =
     (case ReloadRegistry env data replies (fl_gateway fl) of
        None \<Rightarrow> None
      | Some (res, g) \<Rightarrow>
          Some (fl\<lparr>fl_gateway := g,
            fl_lost := (\<lambda>l. if l \<in> set (created (fl_gateway fl) g) then count_list (fl_active fl) l else fl_lost fl l)\<rparr>))"

fun flight_run :: "gatewayEnv \<Rightarrow> flight_event list \<Rightarrow> flight \<Rightarrow> flight option" where
  "flight_run env [] fl = Some fl"
| "flight_run env (ev # evs) fl = Option.bind (flight_step env ev fl) (flight_run env evs)"

definition inflight_gauge :: "metrics \<Rightarrow> bytes \<times> bytes \<Rightarrow> int" where
  "inflight_gauge mx l = (case mx_inflight mx l of None \<Rightarrow> 0 | Some v \<Rightarrow> v)"

subsection \<open>What a reload does to the gauges\<close>

lemma created_self [simp]: "created g g = []"
  by (simp add: created_def)

lemma backend_label_new [simp]: "backend_label (new_backend env m u) = (Name m, origin u)"
  by (simp add: backend_label_def)

lemma add_member_inflight:
  assumes "add_member env m st = Some st'"
  shows "\<exists>new. bd_heap st' = bd_heap st @ new \<and>
    mx_inflight (bd_metrics st') = (\<lambda>l. if l \<in> backend_label ` set new then Some 0 else mx_inflight (bd_metrics st) l)"
  using assms
  by (auto simp: add_member_def get_backend_def Let_def new_series_def fun_eq_iff split: option.splits)

lemma add_members_inflight:
  "add_members env ms st = Some st' \<Longrightarrow> \<exists>new. bd_heap st' = bd_heap st @ new \<and>
    mx_inflight (bd_metrics st') = (\<lambda>l. if l \<in> backend_label ` set new then Some 0 else mx_inflight (bd_metrics st) l)"
proof (induction ms arbitrary: st)
  case (Cons m ms)
  then obtain st1 where st1: "add_member env m st = Some st1" "add_members env ms st1 = Some st'"
    by (auto split: bind_splits)
  from add_member_inflight [OF st1(1)] Cons.IH [OF st1(2)] show ?case
    by (force simp: fun_eq_iff)
qed simp

lemma buildRouting_inflight:
  assumes "buildRouting env ms g = Some (snap, added, g')"
  shows "length (gw_heap g) \<le> length (gw_heap g')"
    and "mx_inflight (gw_metrics g') = (\<lambda>l. if l \<in> set (created g g') then Some 0 else mx_inflight (gw_metrics g) l)"
  using assms
  by (auto simp: buildRouting_def created_def dest!: add_members_inflight split: option.splits)

lemma map_label_identity: "same_identity h h' \<Longrightarrow> length h' = length h \<Longrightarrow> map backend_label (drop n h') = map backend_label (drop n h)"
  by (rule nth_equalityI) (auto simp: same_identity_def backend_label_def)

lemma probeBackend_inflight [simp]:
  "mx_inflight (gw_metrics (snd (probeBackend reply b g))) = mx_inflight (gw_metrics g)"
  by (simp add: probeBackend_def Let_def)

lemma probe_added_inflight:
  "probe_added replies bs g = (r, g') \<Longrightarrow> mx_inflight (gw_metrics g') = mx_inflight (gw_metrics g)"
proof (induction bs arbitrary: g)
  case (Cons b bs)
  obtain ok g1 where "probeBackend (replies b) b g = (ok, g1)" by fastforce
  with Cons probeBackend_inflight [of "replies b" b g] show ?case by (cases ok) auto
qed simp

lemma drop_health_series_inflight [simp]:
  "mx_inflight (gw_metrics (drop_health_series b g)) = mx_inflight (gw_metrics g)"
  by (simp add: drop_health_series_def)

lemma forget_inflight [simp]:
  "mx_inflight (gw_metrics (forget_added bs g)) = mx_inflight (gw_metrics g)"
  "mx_inflight (gw_metrics (forget_inactive active t g)) = mx_inflight (gw_metrics g)"
  "mx_inflight (gw_metrics (reload_rejected g)) = mx_inflight (gw_metrics g)"
  "mx_inflight (gw_metrics (publish snap g)) = mx_inflight (gw_metrics g)"
proof -
  show "mx_inflight (gw_metrics (forget_added bs g)) = mx_inflight (gw_metrics g)"
    by (induction bs arbitrary: g) simp_all
  show "mx_inflight (gw_metrics (forget_inactive active t g)) = mx_inflight (gw_metrics g)"
    by (induction active t g rule: forget_inactive.induct) simp_all
qed (simp_all add: reload_rejected_def publish_def Let_def)

text \<open>A reload, accepted or not, zeroes the gauges of the backends it created and no others.\<close>

lemma reload_inflight:
  assumes "ReloadRegistry env data replies g = Some (res, g')"
  shows "mx_inflight (gw_metrics g') = (\<lambda>l. if l \<in> set (created g g') then Some 0 else mx_inflight (gw_metrics g) l)"
proof -
  have built: "mx_inflight (gw_metrics h) = (\<lambda>l. if l \<in> set (created g h) then Some 0 else mx_inflight (gw_metrics g) l)"
    if b: "buildRouting env ms g = Some (snap, added, g1)" and p: "probe_added replies added g1 = (r, g2)"
      and h: "gw_heap h = gw_heap g2" "mx_inflight (gw_metrics h) = mx_inflight (gw_metrics g2)" for ms snap added g1 r g2 h
  proof -
    have "created g h = created g g1"
      using map_label_identity [of "gw_heap g1" "gw_heap g2"] probe_added_frame [OF p]
        probe_added_length [of replies added g1] p h(1) by (simp add: created_def)
    then show ?thesis using buildRouting_inflight(2) [OF b] probe_added_inflight [OF p] h(2) by simp
  qed
  have refl: "created g h = []" if "gw_heap h = gw_heap g" for h using that by (simp add: created_def)
  from assms show ?thesis
    unfolding ReloadRegistry_def Let_def
    by (auto simp: refl reload_rejected_def [of g] intro: built split: sum.splits if_splits option.splits prod.splits)
qed

lemma empty_gateway_inflight [simp]: "mx_inflight (gw_metrics (empty_gateway ms)) l = None"
  by (simp add: empty_gateway_def no_metrics_def)

lemma new_server_inflight: "NewServer env data = Some (Inr g) \<Longrightarrow> inflight_gauge (gw_metrics g) l = 0"
  by (auto simp: NewServer_def inflight_gauge_def dest!: buildRouting_inflight(2) split: sum.splits option.splits prod.splits if_splits)

subsection \<open>The gauge through a run\<close>

definition gauge_ok :: "flight \<Rightarrow> bool" where
  "gauge_ok fl \<longleftrightarrow>
     (\<forall>l. inflight_gauge (gw_metrics (fl_gateway fl)) l = int (count_list (fl_active fl) l) - int (fl_lost fl l))"

lemma count_list_remove:
  assumes "i < length xs"
  shows "count_list xs l = count_list (take i xs @ drop (Suc i) xs) l + (if xs ! i = l then 1 else 0)"
proof -
  have "count_list xs l = count_list (take i xs @ xs ! i # drop (Suc i) xs) l"
    using id_take_nth_drop [OF assms] by simp
  then show ?thesis by simp
qed

lemma enter_gauge:
  "inflight_gauge (snd (route_enter route org key failover (Some st) mx)) l =
     inflight_gauge mx l + (if l = (mr_model route, org) then 1 else 0)"
  by (simp add: route_enter_def inflight_gauge_def Let_def split: option.split)

lemma exit_gauge:
  "inflight_gauge (route_exit (Some st) model org mx) l = inflight_gauge mx l - (if l = (model, org) then 1 else 0)"
  by (simp add: route_exit_def inflight_gauge_def split: option.split)

lemma gauge_ok_step:
  assumes "gauge_ok fl" and "flight_step env ev fl = Some fl'"
  shows "gauge_ok fl'"
proof (cases ev)
  case (Enters route b key failover st)
  with assms show ?thesis by (auto simp: gauge_ok_def enter_gauge Let_def)
next
  case (Leaves i st)
  show ?thesis
  proof (cases "i < length (fl_active fl)")
    case True
    obtain model org where l: "fl_active fl ! i = (model, org)" by fastforce
    with assms Leaves True count_list_remove [OF True] show ?thesis
      by (auto simp: gauge_ok_def exit_gauge Let_def simp del: count_list_append)
  qed (use assms Leaves in simp)
next
  case (Reloads data replies)
  with assms(2) obtain res g where r: "ReloadRegistry env data replies (fl_gateway fl) = Some (res, g)"
    and fl': "fl' = fl\<lparr>fl_gateway := g, fl_lost := (\<lambda>l. if l \<in> set (created (fl_gateway fl) g)
      then count_list (fl_active fl) l else fl_lost fl l)\<rparr>"
    by (auto split: option.splits)
  from assms(1) reload_inflight [OF r] show ?thesis
    by (simp add: fl' gauge_ok_def inflight_gauge_def)
qed

lemma gauge_ok_run: "gauge_ok fl \<Longrightarrow> flight_run env evs fl = Some fl' \<Longrightarrow> gauge_ok fl'"
proof (induction evs arbitrary: fl)
  case (Cons ev evs)
  then obtain fl1 where "flight_step env ev fl = Some fl1" "flight_run env evs fl1 = Some fl'"
    by (auto split: bind_splits)
  with Cons gauge_ok_step show ?case by blast
qed simp

subsection \<open>Properties\<close>

definition demo_flight :: "flight_event list" where
  "demo_flight =
     [Enters (new_route ''q'') 0 [] False (new_observation ''r''), Reloads (Some ''x'') (\<lambda>_. Reply 200),
      Reloads (Some []) (\<lambda>_. Reply 200), Leaves 0 (new_observation ''r'')]"

text \<open>
  C27: The gauge of requests in flight to a backend is the number of them, less those that were in
  flight when a reload last created a backend for the same model and origin: it is exact as long as
  that happens only to idle ones. In the instance a reload drops the backend of a member that stays
  registered, the next reload creates it again while a request is in flight, and the gauge ends
  at -1 with no request left.
\<close>
theorem gauge_counts_flights:
  assumes "NewServer env data = Some (Inr g)" and "flight_run env evs (start_flight g) = Some fl"
  shows "inflight_gauge (gw_metrics (fl_gateway fl)) l = int (count_list (fl_active fl) l) - int (fl_lost fl l)"
proof -
  have "gauge_ok (start_flight g)"
    by (simp add: gauge_ok_def start_flight_def new_server_inflight [OF assms(1)])
  from gauge_ok_run [OF this assms(2)] show ?thesis unfolding gauge_ok_def by blast
qed

theorem gauge_counts_flights_witness:
  "\<exists>g fl. NewServer (demo_env demo_one demo_two) (Some []) = Some (Inr g) \<and>
     flight_run (demo_env demo_one demo_two) demo_flight (start_flight g) = Some fl \<and>
     fl_active fl = [] \<and> inflight_gauge (gw_metrics (fl_gateway fl)) (''q'', ''http://a'') = - 1"
proof -
  let ?env = "demo_env demo_one demo_two"
  have "(case NewServer ?env (Some []) of
      Some (Inr g) \<Rightarrow> (case flight_run ?env demo_flight (start_flight g) of
        Some fl \<Rightarrow> fl_active fl = [] \<and> fl_lost fl (''q'', ''http://a'') = 1 | None \<Rightarrow> False)
    | _ \<Rightarrow> False)" by code_simp
  then obtain g fl where run: "NewServer ?env (Some []) = Some (Inr g)" "flight_run ?env demo_flight (start_flight g) = Some fl"
    and fl: "fl_active fl = []" "fl_lost fl (''q'', ''http://a'') = 1"
    by (auto split: option.splits sum.splits)
  have "inflight_gauge (gw_metrics (fl_gateway fl)) (''q'', ''http://a'') = - 1"
    unfolding gauge_counts_flights [OF run] fl by simp
  with run fl(1) show ?thesis by blast
qed

end
