(* ===== verification/Telemetry.thy ===== *)
theory Telemetry
  imports Endpoint Inflight_Gauge
begin

text \<open>
  A completion request inside \<open>wrap\<close> (\<open>gateway/observability.go\<close>): the observation that is created for
  it, the handler, and the deferred function that counts it, and how what is counted agrees with
  what the ledger records.
\<close>

subsection \<open>The wrapped handler\<close>

text \<open>
  \<open>ops\<close> are the calls the handler and the reverse proxy make on the response writer; \<open>panicked\<close> and
  \<open>cancelled\<close> are what the deferred function finds.
\<close>

definition wrap ::
    "(requestObservation option \<Rightarrow> 'd server \<Rightarrow> (requestObservation option \<times> 'w \<times> 'd server) option) \<Rightarrow>
     bytes \<Rightarrow> bytes \<Rightarrow> writer_op list \<Rightarrow> panic_value \<Rightarrow> bool \<Rightarrow> 'd server \<Rightarrow> (panic_value \<times> 'w \<times> 'd server) option" where
  "wrap next pat rid ops panicked cancelled sv =
     (case next (Some (new_observation rid)) sv of
        Some (Some st, w, sv') \<Rightarrow>
          (case finish_request cancelled panicked pat st (writer_run ops (new_writer rid)) (gw_metrics (sv_gateway sv')) of
             (mx, p) \<Rightarrow> Some (p, w, set_metrics mx sv'))
      | _ \<Rightarrow> None)"

definition wrap_completion ::
    "'d serverEnv \<Rightarrow> completion \<Rightarrow> bytes \<Rightarrow> writer_op list \<Rightarrow> panic_value \<Rightarrow> bool \<Rightarrow> 'd server \<Rightarrow>
     (panic_value \<times> bytes reply \<times> 'd server) option" where
  "wrap_completion env q =
     wrap (\<lambda>st sv. handleCompletions env q st sv fresh_reply) ''POST /v1/chat/completions''"

text \<open>
  How the calls on the writer belong to a request: they commit the status of its reply, the failure
  flag is what the usage record was finished with, and the proxy aborts the handler only when it
  could not copy the body to its end.
\<close>

definition delivered :: "completion \<Rightarrow> bytes \<Rightarrow> writer_op list \<Rightarrow> panic_value \<Rightarrow> exchange option \<Rightarrow> bytes reply \<Rightarrow> bool" where
  "delivered q rid ops panicked ex w \<longleftrightarrow>
     (let ow = writer_run ops (new_writer rid) in
      ow_status ow = rp_status w \<and> ow_writeFailed ow = cq_writeFailed q \<and>
      (panicked = NoPanic \<or> cq_writeFailed q \<or>
       (\<exists>status ct reads. ex = Some (Answer status ct reads) \<and> \<not> list_ex snd reads)))"

subsection \<open>What the handler leaves to be counted\<close>

lemma proxy_outcome:
  assumes "proxy_ServeHTTP ex cancelled (Some st) w = (state', w')"
  shows "\<exists>st'. state' = Some st' \<and> ob_model st' = ob_model st \<and> ob_backend st' = ob_backend st \<and>
    ob_outcome st' = (case ex of
        TransportError timed_out \<Rightarrow>
          if cancelled then ob_outcome st else if timed_out then ''upstream_timeout'' else ''upstream_unavailable''
      | Answer status ct reads \<Rightarrow> ob_outcome st)"
  using assms
  by (auto simp: proxy_ServeHTTP_def ErrorHandler_def ModifyResponse_def read_body_def copy_response_def
      split: exchange.splits if_splits option.splits)

text \<open>The outcome the exchange with the backend leaves in the observation.\<close>

definition upstream_outcome :: "completion \<Rightarrow> bref option \<Rightarrow> bytes \<Rightarrow> bytes" where
  "upstream_outcome q chosen oc =
     (case chosen of
        None \<Rightarrow> ''upstream_unavailable''
      | Some b \<Rightarrow>
          (case cq_exchange q b of
             TransportError timed_out \<Rightarrow>
               if fst (cq_cancelled q) then oc else if timed_out then ''upstream_timeout'' else ''upstream_unavailable''
           | Answer status ct reads \<Rightarrow> oc))"

text \<open>
  A handler counts no finished request, and moves a gauge of requests in flight up and down again;
  the headers of an upstream answer are observed once.
\<close>

definition handler_series :: "metrics \<Rightarrow>
    (bytes \<times> bytes \<times> bytes \<times> int \<times> bytes \<Rightarrow> nat option) \<times> (bytes \<times> bytes \<times> bytes \<Rightarrow> nat option) \<times> (bytes \<times> bytes \<Rightarrow> int)" where
  "handler_series mx = (mx_requests mx, mx_duration mx, inflight_gauge mx)"

abbreviation server_series where
  "server_series sv \<equiv> handler_series (gw_metrics (sv_gateway sv))"

abbreviation server_headers where
  "server_headers sv \<equiv> mx_headers (gw_metrics (sv_gateway sv))"

definition answered :: "completion \<Rightarrow> bref option \<Rightarrow> bool" where
  "answered q b = (case b of None \<Rightarrow> False | Some b \<Rightarrow> (case cq_exchange q b of Answer status ct reads \<Rightarrow> True | _ \<Rightarrow> False))"

definition header_series ::
    "completion \<Rightarrow> bref option \<Rightarrow> heap \<Rightarrow> bytes \<Rightarrow> (bytes \<times> bytes \<Rightarrow> nat option) \<Rightarrow> (bytes \<times> bytes \<Rightarrow> nat option)" where
  "header_series q b h model s = (if answered q b then add_label s (model, rb_origin (h ! the b)) 1 else s)"

lemma inflight_gauge_update [simp]:
  "inflight_gauge (mx\<lparr>mx_requests := a\<rparr>) = inflight_gauge mx"
  "inflight_gauge (mx\<lparr>mx_duration := b\<rparr>) = inflight_gauge mx"
  by (simp_all add: inflight_gauge_def fun_eq_iff)

lemma inflight_gauge_RoundTrip: "inflight_gauge (RoundTrip state ex mx) = inflight_gauge mx"
  by (simp add: inflight_gauge_def fun_eq_iff)

lemma call_route_observed:
  assumes "call_route env q account model route (Some st) sv w = Some (state', w', sv')"
  obtains st' where "state' = Some st'" "ob_model st' = mr_model route"
    "ob_backend st' = (case chosen_backend env q account route of None \<Rightarrow> ob_backend st
       | Some b \<Rightarrow> rb_origin (gw_heap (sv_gateway sv) ! b))"
    "ob_outcome st' = upstream_outcome q (chosen_backend env q account route) (ob_outcome st)"
    "server_series sv' = server_series sv"
    "server_headers sv' = header_series q (chosen_backend env q account route) (gw_heap (sv_gateway sv)) (mr_model route) (server_headers sv)"
proof -
  let ?key = "affinity_key account (hGet (cq_header q) ''X-Conversation-Id'')"
  obtain sel route' where s: "selectHealthyBackend (sx_lib env) (cq_health q) route ?key = (sel, route')" by fastforce
  show thesis
  proof (cases sel)
    case Panic
    with assms s show ?thesis by (simp add: call_route_def route_ServeHTTP_def Let_def)
  next
    case Unavailable
    with assms s show ?thesis
      by (intro that [of "st\<lparr>ob_model := mr_model route, ob_outcome := ''upstream_unavailable''\<rparr>"])
        (auto simp: call_route_def route_ServeHTTP_def Let_def route_refuse_def chosen_backend_def set_metrics_def set_route_def
          header_series_def answered_def upstream_outcome_def)
  next
    case (Selected b failover)
    let ?org = "rb_origin (gw_heap (sv_gateway sv) ! b)"
    obtain st1 mx1 where e: "route_enter route ?org ?key failover (Some st) (gw_metrics (sv_gateway sv)) = (Some st1, mx1)"
      and st1: "ob_model st1 = mr_model route" "ob_backend st1 = ?org" "ob_outcome st1 = ob_outcome st"
      and mx1: "mx_requests mx1 = mx_requests (gw_metrics (sv_gateway sv))" "mx_duration mx1 = mx_duration (gw_metrics (sv_gateway sv))"
        "mx_headers mx1 = server_headers sv"
      by (simp add: route_enter_def Let_def)
    have up: "inflight_gauge mx1 l = inflight_gauge (gw_metrics (sv_gateway sv)) l + (if l = (mr_model route, ?org) then 1 else 0)" for l
      using enter_gauge [of route ?org ?key failover st "gw_metrics (sv_gateway sv)" l] e by simp
    obtain state2 w2 where p: "proxy_ServeHTTP (cq_exchange q b) (fst (cq_cancelled q)) (Some st1) w = (state2, w2)"
      by fastforce
    from proxy_outcome [OF p] obtain st2 where st2: "state2 = Some st2" "ob_model st2 = ob_model st1"
        "ob_backend st2 = ob_backend st1" "ob_outcome st2 = upstream_outcome q (Some b) (ob_outcome st1)"
      by (auto simp: upstream_outcome_def)
    have c: "chosen_backend env q account route = Some b" using s Selected by (simp add: chosen_backend_def)
    from assms s Selected e p st2(1) have r: "state' = Some st2" "w' = w2"
        "gw_metrics (sv_gateway sv') = route_exit (Some st1) (mr_model route) ?org (RoundTrip (Some st1) (cq_exchange q b) mx1)"
      by (auto simp: call_route_def route_ServeHTTP_def Let_def backend_call_def set_metrics_def set_route_def)
    let ?mx = "route_exit (Some st1) (mr_model route) ?org (RoundTrip (Some st1) (cq_exchange q b) mx1)"
    have "inflight_gauge ?mx = inflight_gauge (gw_metrics (sv_gateway sv))"
      by (rule ext) (simp add: exit_gauge up inflight_gauge_RoundTrip)
    then have series: "server_series sv' = server_series sv"
      using r(3) mx1 by (simp add: handler_series_def route_exit_def)
    have headers: "server_headers sv' = header_series q (Some b) (gw_heap (sv_gateway sv)) (mr_model route) (server_headers sv)"
      using r(3) mx1(3) st1 by (simp add: header_series_def answered_def RoundTrip_def route_exit_def split: exchange.split)
    show ?thesis by (rule that [of st2]) (use r(1,2) st1 st2 c series headers in simp_all)
  qed
qed

lemma series_frame [simp]:
  "server_series (count_metering_error op sv) = server_series sv"
  "server_series (count_metered oc sv) = server_series sv"
  "server_series (release env sv) = server_series sv"
  "server_series (finish_metering env store q st sv) = server_series sv"
  "server_headers (count_metering_error op sv) = server_headers sv"
  "server_headers (count_metered oc sv) = server_headers sv"
  "server_headers (release env sv) = server_headers sv"
  "server_headers (finish_metering env store q st sv) = server_headers sv"
  by (simp_all add: count_metering_error_def count_metered_def set_metrics_def release_def finish_metering_def Let_def
      handler_series_def inflight_gauge_def fun_eq_iff split: option.split prod.split sum.split)

lemma authenticate_series:
  "authenticate store d h mx w = (who, mx', w') \<Longrightarrow> handler_series mx' = handler_series mx \<and> mx_headers mx' = mx_headers mx"
  by (auto simp: authenticate_def handler_series_def inflight_gauge_def fun_eq_iff split: option.splits sum.splits if_splits)

lemma call_route_series:
  "call_route env q account model route (Some st) sv w = Some (state', w', sv') \<Longrightarrow> server_series sv' = server_series sv"
  by (erule call_route_observed)

lemma serve_admitted_series:
  assumes "serve_admitted env \<iota> q (Some st) sv w = Some (state', w', sv')"
  shows "server_series sv' = server_series sv"
  using assms
  by (auto simp: serve_admitted_def serve_metered_def dest!: call_route_series
      split: sum.splits option.splits prod.splits)

text \<open>A handler never counts a request itself.\<close>

lemma handler_keeps_series:
  assumes "handleCompletions env q (Some st) sv w = Some (state', w', sv')"
  shows "server_series sv' = server_series sv"
proof -
  obtain who mx w1 where a: "authenticate (sx_store env) (sv_store sv) (cq_header q) (gw_metrics (sv_gateway sv)) w = (who, mx, w1)"
    by (metis prod_cases3)
  note mx = authenticate_series [OF a]
  have ad: "server_series sv1 = handler_series mx" if "admit env (set_metrics mx sv) = Some sv1" for sv1
    using that by (auto simp: admit_def set_metrics_def split: option.splits if_splits)
  show ?thesis
  proof (cases who)
    case None
    with assms a mx show ?thesis by (auto simp: handleCompletions_def)
  next
    case (Some \<iota>)
    with assms a show ?thesis
      by (auto simp: handleCompletions_def serveCompletions_def ad mx dest!: serve_admitted_series split: option.splits)
  qed
qed

text \<open>The outcome a handler leaves, on every path.\<close>

lemma upstream_outcome_cases: "upstream_outcome q b oc \<in> {oc, ''upstream_unavailable'', ''upstream_timeout''}"
  by (simp add: upstream_outcome_def split: option.split exchange.split)

lemma call_route_outcome:
  "call_route env q account model route (Some st) sv w = Some (Some st', w', sv') \<Longrightarrow>
     ob_outcome st' \<in> {ob_outcome st, ''upstream_unavailable'', ''upstream_timeout''}"
  by (erule call_route_observed) (metis option.inject upstream_outcome_cases)

lemma handler_outcome:
  assumes "handleCompletions env q (Some st) sv w = Some (Some st', w', sv')"
  shows "ob_outcome st' \<in> {ob_outcome st, ''upstream_unavailable'', ''upstream_timeout''}"
  using assms
  by (auto simp: handleCompletions_def serveCompletions_def serve_admitted_def serve_metered_def
      split: prod.splits option.splits sum.splits dest!: call_route_outcome)

text \<open>A request whose usage record is begun: its identity, model, mode and route.\<close>

definition metered_request ::
    "'d serverEnv \<Rightarrow> completion \<Rightarrow> bytes \<Rightarrow> 'd server \<Rightarrow> (KeyIdentity \<times> bytes \<times> bool \<times> modelRoute) option" where
  "metered_request env q rid sv =
     (case (sx_store env, routed_request env q sv) of
        (Some store, Some (\<iota>, model, streaming, route)) \<Rightarrow>
          if isl (fst (as_BeginUsage store (usage_start \<iota> rid model) (sv_store sv))) then None
          else Some (\<iota>, model, streaming, route)
      | _ \<Rightarrow> None)"

text \<open>The observation of a request whose usage record was begun.\<close>

lemma metered_observed:
  assumes "handleCompletions env q (Some (new_observation rid)) sv (fresh_reply :: bytes reply) = Some (Some st, w', sv')"
    and "sx_store env = Some store" and "routed_request env q sv = Some (\<iota>, model, streaming, route)"
    and "\<not> isl (fst (as_BeginUsage store (usage_start \<iota> rid model) (sv_store sv)))"
  shows "ob_model st = mr_model route"
    and "ob_backend st = (case chosen_backend env q (ki_AccountID \<iota>) route of None \<Rightarrow> []
       | Some b \<Rightarrow> rb_origin (gw_heap (sv_gateway sv) ! b))"
    and "ob_outcome st = upstream_outcome q (chosen_backend env q (ki_AccountID \<iota>) route) []"
    and "chosen_backend env q (ki_AccountID \<iota>) route = Some b \<Longrightarrow> cq_exchange q b = Answer status ct reads \<Longrightarrow>
       rp_status w' = status"
    and "server_headers sv' =
      header_series q (chosen_backend env q (ki_AccountID \<iota>) route) (gw_heap (sv_gateway sv)) (mr_model route) (server_headers sv)"
proof -
  obtain who mx w1 where a: "authenticate (sx_store env) (sv_store sv) (cq_header q) (gw_metrics (sv_gateway sv))
      (fresh_reply :: bytes reply) = (who, mx, w1)" by (metis prod_cases3)
  have who: "fst (authenticate (sx_store env) (sv_store sv) (cq_header q) (gw_metrics (sv_gateway sv)) (fresh_reply :: unit reply)) = who"
    using a by (auto simp: authenticate_def split: option.splits sum.splits if_splits)
  obtain sv1 where \<iota>: "who = Some \<iota>" and ad: "admit env (set_metrics mx sv) = Some sv1"
    and f: "find_route env (cq_body q) (sv_gateway sv1) = Inr (model, streaming, route)"
    using assms(3) who unfolding routed_request_def
    by (auto simp: admit_def find_route_set_metrics split: option.splits sum.splits if_splits)
  have sv1: "sv_store sv1 = sv_store sv" "gw_heap (sv_gateway sv1) = gw_heap (sv_gateway sv)" "server_headers sv1 = server_headers sv"
    using ad authenticate_series [OF a] by (auto simp: admit_def set_metrics_def split: option.splits if_splits)
  have o: "ob_id (new_observation rid) = rid" "ob_outcome (new_observation rid) = []" "ob_backend (new_observation rid) = []"
    by (simp_all add: new_observation_def)
  obtain u d where b: "as_BeginUsage store (usage_start \<iota> rid model) (sv_store sv) = (Inr u, d)"
    using assms(4) by (metis (full_types) isl_def old.unit.exhaust prod.collapse sum.collapse(2))
  let ?st = "(new_observation rid)\<lparr>ob_usage := Some (new_capture streaming)\<rparr>"
  obtain st1' w2 sv2 where c: "call_route env q (ki_AccountID \<iota>) model route (Some ?st) (sv1\<lparr>sv_store := d\<rparr>) w1 = Some (st1', w2, sv2)"
    and res: "st1' \<noteq> None \<Longrightarrow> Some st = st1' \<and> w' = w2 \<and> server_headers sv' = server_headers sv2"
    using assms(1,2) a \<iota> ad f b o(1) sv1(1)
    by (auto simp: handleCompletions_def serveCompletions_def serve_admitted_def serve_metered_def
        split: option.splits)
  from call_route_observed [OF c] obtain st1 where st1: "st1' = Some st1" "ob_model st1 = mr_model route"
      "ob_backend st1 = (case chosen_backend env q (ki_AccountID \<iota>) route of None \<Rightarrow> ob_backend ?st
         | Some b \<Rightarrow> rb_origin (gw_heap (sv_gateway (sv1\<lparr>sv_store := d\<rparr>)) ! b))"
      "ob_outcome st1 = upstream_outcome q (chosen_backend env q (ki_AccountID \<iota>) route) (ob_outcome ?st)"
      "server_headers sv2 = header_series q (chosen_backend env q (ki_AccountID \<iota>) route) (gw_heap (sv_gateway (sv1\<lparr>sv_store := d\<rparr>)))
         (mr_model route) (server_headers (sv1\<lparr>sv_store := d\<rparr>))" by metis
  with res have res: "st = st1" "w' = w2" "server_headers sv' = server_headers sv2" by auto
  show "server_headers sv' =
      header_series q (chosen_backend env q (ki_AccountID \<iota>) route) (gw_heap (sv_gateway sv)) (mr_model route) (server_headers sv)"
    using res(3) st1(5) sv1 by simp
  note res(1,2)
  with st1 o sv1 call_route_status [OF c] show "ob_model st = mr_model route"
    and "ob_backend st = (case chosen_backend env q (ki_AccountID \<iota>) route of None \<Rightarrow> []
       | Some b \<Rightarrow> rb_origin (gw_heap (sv_gateway sv) ! b))"
    and "ob_outcome st = upstream_outcome q (chosen_backend env q (ki_AccountID \<iota>) route) []"
    and "chosen_backend env q (ki_AccountID \<iota>) route = Some b \<Longrightarrow> cq_exchange q b = Answer status ct reads \<Longrightarrow>
       rp_status w' = status"
    by (cases "chosen_backend env q (ki_AccountID \<iota>) route"; simp)+
qed

text \<open>What must have happened for a request to be recorded as complete.\<close>

lemma recorded_complete:
  assumes "uf_Outcome (request_finish env q st account route h streaming) = ''complete''"
  obtains b status ct reads where "chosen_backend env q account route = Some b" and "cq_exchange q b = Answer status ct reads"
    and "200 \<le> status" and "status < 300" and "list_ex snd reads" and "\<not> snd (cq_cancelled q)" and "\<not> cq_writeFailed q"
    and "uf_Status (request_finish env q st account route h streaming) = status"
    and "uf_Backend (request_finish env q st account route h streaming) = rb_origin (h ! b)"
proof -
  let ?gone = "snd (cq_cancelled q) \<or> cq_writeFailed q"
  let ?ex = "map_option (cq_exchange q) (chosen_backend env q account route)"
  let ?c = "final_capture ?ex (fst (cq_cancelled q)) streaming"
  have f: "uf_Outcome (request_finish env q st account route h streaming) = fst (snd (result (sx_usage env) ?c ?gone))"
    "uf_Status (request_finish env q st account route h streaming) = fst (result (sx_usage env) ?c ?gone)"
    by (simp_all add: request_finish_def usage_finish_def Let_def split: prod.split)
  have r: "\<not> ?gone" "200 \<le> cap_status ?c" "cap_status ?c < 300" "cap_eof ?c" "fst (result (sx_usage env) ?c ?gone) = cap_status ?c"
    using assms unfolding f(1) by (auto simp: result_def split: if_splits option.splits)
  then obtain b status ct reads where b: "chosen_backend env q account route = Some b" "cq_exchange q b = Answer status ct reads"
    by (auto simp: final_capture_def error_status_def split: option.splits exchange.splits if_splits)
  with r have "cap_status ?c = status" "list_ex snd reads"
    by (auto simp: final_capture_def Let_def list_ex_iff split: if_splits)
  with b r f(2) that [OF b] show thesis
    by (simp add: request_finish_def usage_finish_def Let_def split: prod.split)
qed

subsection \<open>Properties\<close>

text \<open>
  C25: Every completion request that comes back is counted and timed exactly once, a panic goes on, and
  the gauge of requests in flight is where it was. The outcome it is counted under is the first that
  applies of: the client is gone, an aborted stream, another panic, a failed write, what the exchange
  with the backend left, an error status; the status is the one its writer sent. For a request whose usage
  record was begun the labels are the model and the backend of the record, the time to the headers is
  observed exactly if the chosen backend answered, and when its writer was given what the reply and the record
  were made from (\<open>delivered\<close>), a request recorded as complete is counted as completed with the status of
  the record. Records that are not complete may disagree: a request without a healthy replica is counted
  under 503 and recorded with status 0.
\<close>
theorem counted_as_recorded:
  assumes "\<And>n r. map_of (rs_proxies (gw_routing (sv_gateway sv))) n = Some r \<Longrightarrow> mr_model r = n"
    and "wrap_completion env q rid ops panicked (snd (cq_cancelled q)) sv = Some (p, w', sv')"
  shows "p = panicked \<and> inflight_gauge (gw_metrics (sv_gateway sv')) = inflight_gauge (gw_metrics (sv_gateway sv)) \<and>
    (\<exists>model backend status outcome upstream.
       mx_requests (gw_metrics (sv_gateway sv')) =
         add_label (mx_requests (gw_metrics (sv_gateway sv))) (''POST /v1/chat/completions'', model, backend, status, outcome) 1 \<and>
       mx_duration (gw_metrics (sv_gateway sv')) =
         add_label (mx_duration (gw_metrics (sv_gateway sv))) (''POST /v1/chat/completions'', model, backend) 1 \<and>
       (let ow = writer_run ops (new_writer rid) in
          outcome = (if snd (cq_cancelled q) then ''canceled'' else if panicked = AbortHandler then ''stream_aborted''
            else if panicked \<noteq> NoPanic then ''panic'' else if ow_writeFailed ow then ''write_error''
            else if upstream \<noteq> [] then upstream else if 400 \<le> ow_status ow then ''http_error'' else ''completed'') \<and>
          status = (if ow_status ow = 0 \<and> outcome = ''completed'' then 200 else ow_status ow)) \<and>
       (case metered_request env q rid sv of
          None \<Rightarrow> upstream \<in> {[], ''upstream_unavailable'', ''upstream_timeout''}
        | Some (\<iota>, m, streaming, route) \<Rightarrow>
            let chosen = chosen_backend env q (ki_AccountID \<iota>) route;
                f = request_finish env q (new_observation rid) (ki_AccountID \<iota>) route (gw_heap (sv_gateway sv)) streaming
            in model = m \<and> backend = uf_Backend f \<and> upstream = upstream_outcome q chosen [] \<and>
               mx_headers (gw_metrics (sv_gateway sv')) =
                 header_series q chosen (gw_heap (sv_gateway sv)) m (mx_headers (gw_metrics (sv_gateway sv))) \<and>
               (\<not> delivered q rid ops panicked (map_option (cq_exchange q) chosen) w' \<or> uf_Outcome f \<noteq> ''complete'' \<or>
                outcome = ''completed'' \<and> status = uf_Status f)))"
proof -
  obtain st sv1 where h: "handleCompletions env q (Some (new_observation rid)) sv (fresh_reply :: bytes reply) = Some (Some st, w', sv1)"
    and fin: "finish_request (snd (cq_cancelled q)) panicked ''POST /v1/chat/completions'' st (writer_run ops (new_writer rid))
      (gw_metrics (sv_gateway sv1)) = (gw_metrics (sv_gateway sv'), p)"
    using assms(2) by (auto simp: wrap_completion_def wrap_def split: option.splits prod.splits)
  let ?ow = "writer_run ops (new_writer rid)"
  let ?outcome = "request_outcome (snd (cq_cancelled q)) panicked (ow_writeFailed ?ow) (ob_outcome st) (ow_status ?ow)"
  let ?status = "reported_status (ow_status ?ow) ?outcome"
  have count: "p = panicked" "mx_requests (gw_metrics (sv_gateway sv')) =
      add_label (mx_requests (gw_metrics (sv_gateway sv))) (''POST /v1/chat/completions'', ob_model st, ob_backend st, ?status, ?outcome) 1"
    "mx_duration (gw_metrics (sv_gateway sv')) =
      add_label (mx_duration (gw_metrics (sv_gateway sv))) (''POST /v1/chat/completions'', ob_model st, ob_backend st) 1"
    "inflight_gauge (gw_metrics (sv_gateway sv')) = inflight_gauge (gw_metrics (sv_gateway sv))"
    "mx_headers (gw_metrics (sv_gateway sv')) = server_headers sv1"
    using arg_cong [OF fin, of fst, symmetric] arg_cong [OF fin, of snd, symmetric] handler_keeps_series [OF h]
    by (simp_all add: finish_request_def ow_snapshot_def Let_def route_label_def handler_series_def)
  have labels1: "?outcome = (if snd (cq_cancelled q) then ''canceled'' else if panicked = AbortHandler then ''stream_aborted''
        else if panicked \<noteq> NoPanic then ''panic'' else if ow_writeFailed ?ow then ''write_error''
        else if ob_outcome st \<noteq> [] then ob_outcome st else if 400 \<le> ow_status ?ow then ''http_error'' else ''completed'')"
    by (cases "ob_outcome st = []") (simp_all only: request_outcome_def simp_thms if_True if_False)
  have labels2: "?status = (if ow_status ?ow = 0 \<and> ?outcome = ''completed'' then 200 else ow_status ?ow)"
    by (simp only: reported_status_def)
  have rest: "case metered_request env q rid sv of
      None \<Rightarrow> ob_outcome st \<in> {[], ''upstream_unavailable'', ''upstream_timeout''}
    | Some (\<iota>, m, streaming, route) \<Rightarrow>
        let chosen = chosen_backend env q (ki_AccountID \<iota>) route;
            f = request_finish env q (new_observation rid) (ki_AccountID \<iota>) route (gw_heap (sv_gateway sv)) streaming
        in ob_model st = m \<and> ob_backend st = uf_Backend f \<and> ob_outcome st = upstream_outcome q chosen [] \<and>
           mx_headers (gw_metrics (sv_gateway sv')) =
             header_series q chosen (gw_heap (sv_gateway sv)) m (mx_headers (gw_metrics (sv_gateway sv))) \<and>
           (\<not> delivered q rid ops panicked (map_option (cq_exchange q) chosen) w' \<or> uf_Outcome f \<noteq> ''complete'' \<or>
            ?outcome = ''completed'' \<and> ?status = uf_Status f)"
  proof (cases "metered_request env q rid sv")
    case None
    have "ob_outcome (new_observation rid) = []" by (simp add: new_observation_def)
    with None handler_outcome [OF h] show ?thesis by simp
  next
    case (Some r)
    obtain \<iota> m streaming route store where r: "r = (\<iota>, m, streaming, route)" and store: "sx_store env = Some store"
      and rt: "routed_request env q sv = Some (\<iota>, m, streaming, route)"
      and b: "\<not> isl (fst (as_BeginUsage store (usage_start \<iota> rid m) (sv_store sv)))"
      using Some by (auto simp: metered_request_def split: option.splits if_splits)
    note st = metered_observed [OF h store rt b]
    let ?chosen = "chosen_backend env q (ki_AccountID \<iota>) route"
    let ?f = "request_finish env q (new_observation rid) (ki_AccountID \<iota>) route (gw_heap (sv_gateway sv)) streaming"
    have "map_of (rs_proxies (gw_routing (sv_gateway sv))) m = Some route"
      using rt by (auto simp: routed_request_def dest!: routed_lookup split: option.splits sum.splits if_splits)
    then have name: "mr_model route = m" by (rule assms(1))
    have backend: "ob_backend st = uf_Backend ?f"
      using st(2) by (cases ?chosen) (simp_all add: request_finish_def usage_finish_def new_observation_def Let_def split: prod.split)
    have model: "ob_model st = m" and headers: "mx_headers (gw_metrics (sv_gateway sv')) =
        header_series q ?chosen (gw_heap (sv_gateway sv)) m (mx_headers (gw_metrics (sv_gateway sv)))"
      using st(1,5) name count(5) by simp_all
    have completed: "?outcome = ''completed'' \<and> ?status = uf_Status ?f"
      if d: "delivered q rid ops panicked (map_option (cq_exchange q) ?chosen) w'" and complete: "uf_Outcome ?f = ''complete''"
    proof -
      obtain b status ct reads where b: "?chosen = Some b" "cq_exchange q b = Answer status ct reads"
        and r: "200 \<le> status" "status < 300" "list_ex snd reads" "\<not> snd (cq_cancelled q)" "\<not> cq_writeFailed q" "uf_Status ?f = status"
        using recorded_complete [OF complete] by metis
      have "ob_outcome st = []" "rp_status w' = status" using st(3) st(4) [OF b] b by (simp_all add: upstream_outcome_def)
      with d b r show ?thesis
        by (auto simp: delivered_def Let_def request_outcome_def reported_status_def)
    qed
    show ?thesis
      unfolding Some r option.case prod.case Let_def
      using completed by (intro conjI model backend st(3) headers) argo
  qed
  show ?thesis
    unfolding Let_def [of ?ow]
    by (intro conjI count(1,4) exI [of _ "ob_model st"] exI [of _ "ob_backend st"] exI [of _ ?status] exI [of _ ?outcome]
        exI [of _ "ob_outcome st"] count(2,3) labels1 labels2 rest)
qed

theorem counted_as_recorded_witness:
  "\<exists>w' sv' backend. wrap_completion (demo_server_env (Some (database_store Account_Keys.demo_env 5 6 (\<lambda>_. Fine)))) demo_completion ''r''
       [OpWriteHeader 200, OpWrite ''{}'' 2 False] NoPanic (snd (cq_cancelled demo_completion)) (demo_server demo_db) =
       Some (NoPanic, w', sv') \<and>
     (\<exists>status outcome. mx_requests (gw_metrics (sv_gateway sv'))
       (''POST /v1/chat/completions'', ''m'', backend, status, outcome) = Some 1)"
proof -
  let ?env = "demo_server_env (Some (database_store Account_Keys.demo_env 5 6 (\<lambda>_. Fine)))"
  let ?ops = "[OpWriteHeader 200, OpWrite ''{}'' 2 False]" and ?route = "(new_route ''m'')\<lparr>mr_backends := [0]\<rparr>"
  obtain st w' sv1 where h: "handleCompletions ?env demo_completion (Some (new_observation ''r'')) (demo_server demo_db)
      (fresh_reply :: bytes reply) = Some (Some st, w', sv1)" and w': "rp_status w' = 200"
    by (rule demo_handled)
  obtain mx p where f: "finish_request (snd (cq_cancelled demo_completion)) NoPanic ''POST /v1/chat/completions'' st
      (writer_run ?ops (new_writer ''r'')) (gw_metrics (sv_gateway sv1)) = (mx, p)" by fastforce
  have wrapped: "wrap_completion ?env demo_completion ''r'' ?ops NoPanic (snd (cq_cancelled demo_completion))
      (demo_server demo_db) = Some (p, w', set_metrics mx sv1)"
    unfolding wrap_completion_def wrap_def h option.case prod.case f ..
  have filed: "mr_model r = n" if "map_of (rs_proxies (gw_routing (sv_gateway (demo_server demo_db)))) n = Some r" for n r
    using that by (auto simp: demo_gateway_def new_route_def split: if_splits)
  have m: "metered_request ?env demo_completion ''r'' (demo_server demo_db) =
      Some (\<lparr>ki_AccountID = replicate 26 CHR ''A'', ki_KeyID = replicate 26 CHR ''K''\<rparr>, ''m'', False, ?route)"
    by (simp add: metered_request_def demo_routed demo_begins del: replicate.simps)
  obtain backend status outcome where "p = NoPanic" "mx_requests (gw_metrics (sv_gateway (set_metrics mx sv1))) =
      add_label (mx_requests (gw_metrics (sv_gateway (demo_server demo_db)))) (''POST /v1/chat/completions'', ''m'', backend, status, outcome) 1"
    using counted_as_recorded [OF filed wrapped] unfolding m option.case prod.case Let_def by blast
  with wrapped show ?thesis by (auto simp: demo_gateway_def no_metrics_def intro!: exI [of _ backend] exI [of _ status] exI [of _ outcome])
qed

end
