(* ===== verification/Watchers.thy ===== *)
theory Watchers
  imports Membership
begin

text \<open>
  The two background loops of the server (\<open>watchRegistry\<close> and \<open>watchBackends\<close> of
  \<open>gateway/membership.go\<close>), interleaved with each other and with the requests. \<open>reloadMu\<close> makes a
  reload and a round of probes one step each. A tick carries what the environment answers: the
  file, the probes, and whether the context had ended when the reload returned; a \<open>Done\<close> is the
  receive from \<open>ctx.Done()\<close>.
\<close>

subsection \<open>The loops\<close>

datatype watch_event =
    RegistryTick "bytes option" "bref \<Rightarrow> probe_reply" bool
  | RegistryDone
  | BackendTick "bref \<Rightarrow> probe_reply" "bref list"
  | BackendDone
  | Served bytes "nat \<Rightarrow> bref \<Rightarrow> bool" bytes

text \<open>
  \<open>wt_lastError\<close> is the local variable of \<open>watchRegistry\<close>, \<open>wt_warnings\<close> the warnings it logged,
  oldest first; the flags say which of the loops still runs.
\<close>

record watchers =
  wt_lastError :: bytes
  wt_warnings :: "bytes list"
  wt_reloading :: bool
  wt_probing :: bool
  wt_gateway :: gateway

definition start_watchers :: "gateway \<Rightarrow> watchers" where
  "start_watchers g =
     \<lparr>wt_lastError = [], wt_warnings = [], wt_reloading = True, wt_probing = True, wt_gateway = g\<rparr>"

text \<open>\<open>err.Error()\<close>; the text of a loading error (\<open>load_text\<close>) is made by the libraries as well.\<close>

fun reload_message :: "(registry_error \<Rightarrow> bytes) \<Rightarrow> reload_error \<Rightarrow> bytes" where
  "reload_message load_text (LoadError e) = load_text e"
| "reload_message load_text CatalogChanged =
     ''model names and metadata must remain unchanged during membership reload''"
| "reload_message load_text (NotHealthy org) = ''new backend '' @ org @ '' is not healthy''"

text \<open>One turn of each loop; \<open>None\<close> is a panic.\<close>

fun watchRegistry ::
    "gatewayEnv \<Rightarrow> (registry_error \<Rightarrow> bytes) \<Rightarrow> watch_event \<Rightarrow> watchers \<Rightarrow> watchers option" where
  "watchRegistry env load_text (RegistryTick file replies ended) wt =
     (case ReloadRegistry env file replies (wt_gateway wt) of
        None \<Rightarrow> None
      | Some (res, g) \<Rightarrow>
          (case res of
             Some e \<Rightarrow>
               if \<not> ended
               then let err = reload_message load_text e
                    in Some (wt\<lparr>wt_gateway := g,
                         wt_warnings := (if err \<noteq> wt_lastError wt then wt_warnings wt @ [err] else wt_warnings wt),
                         wt_lastError := err\<rparr>)
               else Some (wt\<lparr>wt_gateway := g, wt_lastError := []\<rparr>)
           | None \<Rightarrow> Some (wt\<lparr>wt_gateway := g, wt_lastError := []\<rparr>)))"
| "watchRegistry env load_text RegistryDone wt = Some (wt\<lparr>wt_reloading := False\<rparr>)"
| "watchRegistry env load_text _ wt = Some wt"

fun watchBackends :: "watch_event \<Rightarrow> watchers \<Rightarrow> watchers" where
  "watchBackends (BackendTick replies order) wt = wt\<lparr>wt_gateway := probe_all replies order (wt_gateway wt)\<rparr>"
| "watchBackends BackendDone wt = wt\<lparr>wt_probing := False\<rparr>"
| "watchBackends _ wt = wt"

text \<open>A request moves the round-robin counter of its route.\<close>

definition serve_event :: "ringLib \<Rightarrow> bytes \<Rightarrow> (nat \<Rightarrow> bref \<Rightarrow> bool) \<Rightarrow> bytes \<Rightarrow> gateway \<Rightarrow> gateway" where
  "serve_event lib n health key g =
     (case map_of (rs_proxies (gw_routing g)) n of
        None \<Rightarrow> g
      | Some r \<Rightarrow> set_route n (snd (selectHealthyBackend lib health r key)) g)"

definition watch_step ::
    "gatewayEnv \<Rightarrow> (registry_error \<Rightarrow> bytes) \<Rightarrow> ringLib \<Rightarrow> watch_event \<Rightarrow> watchers \<Rightarrow> watchers option" where
  "watch_step env load_text lib ev wt =
     (case ev of
        Served n health key \<Rightarrow> Some (wt\<lparr>wt_gateway := serve_event lib n health key (wt_gateway wt)\<rparr>)
      | _ \<Rightarrow>
          Option.bind (if wt_reloading wt then watchRegistry env load_text ev wt else Some wt)
            (\<lambda>wt. Some (if wt_probing wt then watchBackends ev wt else wt)))"

fun watch_run ::
    "gatewayEnv \<Rightarrow> (registry_error \<Rightarrow> bytes) \<Rightarrow> ringLib \<Rightarrow> watch_event list \<Rightarrow> watchers \<Rightarrow> watchers option" where
  "watch_run env load_text lib [] wt = Some wt"
| "watch_run env load_text lib (ev # evs) wt =
     Option.bind (watch_step env load_text lib ev wt) (watch_run env load_text lib evs)"

text \<open>The rounds of probes an event may ask for: some of the backends of the snapshot at that time.\<close>

fun probes_snapshot :: "watch_event \<Rightarrow> gateway \<Rightarrow> bool" where
  "probes_snapshot (BackendTick replies order) g \<longleftrightarrow> set order \<subseteq> set (snapshot_backends (gw_routing g))"
| "probes_snapshot _ g \<longleftrightarrow> True"

subsection \<open>What the reloads said\<close>

text \<open>
  The outcome of an event for the log: nothing for an event that is no reload, otherwise the message
  of the rejection, if any, that the loop regards (\<open>err != nil && ctx.Err() == nil\<close>).
\<close>

fun reload_outcome ::
    "gatewayEnv \<Rightarrow> (registry_error \<Rightarrow> bytes) \<Rightarrow> watch_event \<Rightarrow> watchers \<Rightarrow> bytes option list" where
  "reload_outcome env load_text (RegistryTick file replies ended) wt =
     (if wt_reloading wt
      then [case ReloadRegistry env file replies (wt_gateway wt) of
              Some (Some e, g) \<Rightarrow> if ended then None else Some (reload_message load_text e)
            | _ \<Rightarrow> None]
      else [])"
| "reload_outcome env load_text _ wt = []"

fun reload_outcomes ::
    "gatewayEnv \<Rightarrow> (registry_error \<Rightarrow> bytes) \<Rightarrow> ringLib \<Rightarrow> watch_event list \<Rightarrow> watchers \<Rightarrow> bytes option list" where
  "reload_outcomes env load_text lib [] wt = []"
| "reload_outcomes env load_text lib (ev # evs) wt =
     reload_outcome env load_text ev wt @
     (case watch_step env load_text lib ev wt of
        None \<Rightarrow> [] | Some wt' \<Rightarrow> reload_outcomes env load_text lib evs wt')"

text \<open>The rejections that differ from the outcome just before them.\<close>

definition news :: "bytes option list \<Rightarrow> bytes list" where
  "news rs = map (\<lambda>i. the (rs ! i))
     (filter (\<lambda>i. rs ! i \<noteq> None \<and> (i = 0 \<or> rs ! (i - 1) \<noteq> rs ! i)) [0..<length rs])"

fun run_probes ::
    "gatewayEnv \<Rightarrow> (registry_error \<Rightarrow> bytes) \<Rightarrow> ringLib \<Rightarrow> watch_event list \<Rightarrow> watchers \<Rightarrow> bool" where
  "run_probes env load_text lib [] wt \<longleftrightarrow> True"
| "run_probes env load_text lib (ev # evs) wt \<longleftrightarrow>
     probes_snapshot ev (wt_gateway wt) \<and>
     (case watch_step env load_text lib ev wt of
        None \<Rightarrow> True | Some wt' \<Rightarrow> run_probes env load_text lib evs wt')"

lemma news_Nil [simp]: "news [] = []"
  by (simp add: news_def)

lemma news_snoc:
  "news (rs @ [r]) = news rs @
     (case r of None \<Rightarrow> [] | Some m \<Rightarrow> if rs \<noteq> [] \<and> last rs = Some m then [] else [m])"
proof -
  have "filter (\<lambda>i. (rs @ [r]) ! i \<noteq> None \<and> (i = 0 \<or> (rs @ [r]) ! (i - 1) \<noteq> (rs @ [r]) ! i)) [0..<length rs] =
      filter (\<lambda>i. rs ! i \<noteq> None \<and> (i = 0 \<or> rs ! (i - 1) \<noteq> rs ! i)) [0..<length rs]"
    by (rule filter_cong) (auto simp: nth_append)
  moreover have "map (\<lambda>i. the ((rs @ [r]) ! i)) (filter P [0..<length rs]) = map (\<lambda>i. the (rs ! i)) (filter P [0..<length rs])" for P
    by (simp add: nth_append)
  moreover have "(rs @ [r]) ! length rs = r" and "rs \<noteq> [] \<Longrightarrow> (rs @ [r]) ! (length rs - 1) = last rs"
    by (simp_all add: nth_append last_conv_nth)
  ultimately show ?thesis
    by (cases r; cases "rs = []") (simp_all add: news_def upt_Suc_append)
qed

text \<open>The loop remembers the message of the last outcome, and has logged the news so far.\<close>

definition logged :: "bytes option list \<Rightarrow> watchers \<Rightarrow> bool" where
  "logged rs wt \<longleftrightarrow> wt_warnings wt = news rs \<and>
     wt_lastError wt = (if rs = [] then [] else case last rs of None \<Rightarrow> [] | Some m \<Rightarrow> m) \<and> Some [] \<notin> set rs"

lemma logged_gateway [simp]:
  "logged rs (wt\<lparr>wt_gateway := g\<rparr>) = logged rs wt" "logged rs (wt\<lparr>wt_reloading := b\<rparr>) = logged rs wt"
  "logged rs (wt\<lparr>wt_probing := b\<rparr>) = logged rs wt"
  by (simp_all add: logged_def)

lemma logged_rejected:
  assumes "logged rs wt" and "m \<noteq> []"
  shows "logged (rs @ [Some m]) (wt\<lparr>wt_gateway := g,
     wt_warnings := (if m \<noteq> wt_lastError wt then wt_warnings wt @ [m] else wt_warnings wt), wt_lastError := m\<rparr>)"
proof (cases "rs = []")
  case False
  with assms show ?thesis by (cases "last rs") (auto simp: logged_def news_snoc dest!: last_in_set)
qed (use assms news_snoc [of rs "Some m"] in \<open>simp add: logged_def\<close>)

lemma logged_none: "logged rs wt \<Longrightarrow> logged (rs @ [None]) (wt\<lparr>wt_gateway := g, wt_lastError := []\<rparr>)"
  by (simp add: logged_def news_snoc)

lemma reload_message_not_Nil: "(\<And>e. load_text e \<noteq> []) \<Longrightarrow> reload_message load_text e \<noteq> []"
  by (cases e) simp_all

subsection \<open>The loops keep the server\<close>

lemma probe_all_errors [simp]:
  "mx_reloadErrors (gw_metrics (probe_all replies bs g)) = mx_reloadErrors (gw_metrics g)"
  by (induction bs arbitrary: g) (simp_all add: probeBackend_def Let_def)

lemma forget_inactive_errors [simp]:
  "mx_reloadErrors (gw_metrics (forget_inactive active bs g)) = mx_reloadErrors (gw_metrics g)"
  by (induction active bs g rule: forget_inactive.induct) simp_all

lemma reload_errors_kept:
  assumes "ReloadRegistry env data replies g = Some (None, g')"
  shows "mx_reloadErrors (gw_metrics g') = mx_reloadErrors (gw_metrics g)"
proof -
  have p: "mx_reloadErrors (gw_metrics g2) = mx_reloadErrors (gw_metrics g1)"
    if "probe_added replies bs g1 = (r, g2)" for bs g1 r g2
    using probe_added_errors [of replies bs g1] that by simp
  from assms show ?thesis
    by (auto simp: ReloadRegistry_def publish_def Let_def dest!: p buildRouting_errors
        split: sum.splits if_splits option.splits prod.splits)
qed

lemma serve_event_reachable: "reachable env lib g \<Longrightarrow> reachable env lib (serve_event lib n health key g)"
  by (auto simp: serve_event_def simp del: snd_selectHealthyBackend split: option.split
      intro: reachable.request [OF _ _ prod.collapse [symmetric]])

lemma serve_event_errors [simp]:
  "mx_reloadErrors (gw_metrics (serve_event lib n health key g)) = mx_reloadErrors (gw_metrics g)"
  by (simp add: serve_event_def set_route_def split: option.split)

abbreviation rejected :: "bytes option list \<Rightarrow> nat" where
  "rejected rs \<equiv> length (filter (\<lambda>r. r \<noteq> None) rs)"

lemma watchRegistry_step:
  assumes "reachable env lib (wt_gateway wt)" and "parser_law (ge_parse env)" and "\<And>e. load_text e \<noteq> []"
    and "wt_reloading wt" and "logged rs wt"
  obtains wt' where "watchRegistry env load_text ev wt = Some wt'" and "reachable env lib (wt_gateway wt')"
    and "logged (rs @ reload_outcome env load_text ev wt) wt'"
    and "mx_reloadErrors (gw_metrics (wt_gateway wt)) + rejected (reload_outcome env load_text ev wt) \<le>
      mx_reloadErrors (gw_metrics (wt_gateway wt'))"
proof (cases ev)
  case (RegistryTick data replies ended)
  have keeps: "mx_reloadErrors (gw_metrics g1) = mx_reloadErrors (gw_metrics (wt_gateway wt))"
    if "ReloadRegistry env data replies (wt_gateway wt) = Some (None, g1)" for g1
    using that by (rule reload_errors_kept)
  obtain res g' where r: "ReloadRegistry env data replies (wt_gateway wt) = Some (res, g')"
    and e: "res \<noteq> None \<Longrightarrow> mx_reloadErrors (gw_metrics g') = mx_reloadErrors (gw_metrics (wt_gateway wt)) + 1"
    using ReloadRegistry_ok [OF reachable_gw_ok [OF assms(1,2)] assms(2), of data replies]
    by (force split: option.splits)
  note g' = reachable.reload [OF assms(1) r]
  show thesis
  proof (cases "ended \<or> res = None")
    case True
    with RegistryTick r g' e keeps assms(4) logged_none [OF assms(5)] show thesis
      by (intro that [of "wt\<lparr>wt_gateway := g', wt_lastError := []\<rparr>"]) (auto split: option.splits)
  next
    case False
    then obtain x where x: "res = Some x" "\<not> ended" by auto
    let ?m = "reload_message load_text x"
    have "?m \<noteq> []" using assms(3) by (rule reload_message_not_Nil)
    from logged_rejected [OF assms(5) this, of g'] RegistryTick x r g' e assms(4) show thesis
      by (intro that [of "wt\<lparr>wt_gateway := g',
          wt_warnings := (if ?m \<noteq> wt_lastError wt then wt_warnings wt @ [?m] else wt_warnings wt),
          wt_lastError := ?m\<rparr>"]) (simp_all only: watchRegistry.simps reload_outcome.simps option.case prod.case Let_def, simp_all)
  qed
qed (use assms that in auto)

lemma watch_step_ok:
  assumes r: "reachable env lib (wt_gateway wt)" and law: "parser_law (ge_parse env)" and texts: "\<And>e. load_text e \<noteq> []"
    and l: "logged rs wt" and "probes_snapshot ev (wt_gateway wt)"
  obtains wt' where "watch_step env load_text lib ev wt = Some wt'" and "reachable env lib (wt_gateway wt')"
    and "logged (rs @ reload_outcome env load_text ev wt) wt'"
    and "mx_reloadErrors (gw_metrics (wt_gateway wt)) + rejected (reload_outcome env load_text ev wt) \<le>
      mx_reloadErrors (gw_metrics (wt_gateway wt'))"
proof (cases ev)
  case (Served n health key)
  then show thesis
    using that r l by (auto simp: watch_step_def serve_event_reachable)
next
  case (RegistryTick data replies ended)
  show thesis
  proof (cases "wt_reloading wt")
    case True
    obtain wt' where w: "watchRegistry env load_text ev wt = Some wt'"
        "reachable env lib (wt_gateway wt')" "logged (rs @ reload_outcome env load_text ev wt) wt'"
        "mx_reloadErrors (gw_metrics (wt_gateway wt)) + rejected (reload_outcome env load_text ev wt) \<le>
          mx_reloadErrors (gw_metrics (wt_gateway wt'))"
      by (rule watchRegistry_step [OF r law texts True l])
    then have step: "watch_step env load_text lib ev wt = Some wt'"
      using RegistryTick True by (simp add: watch_step_def)
    show thesis by (rule that [OF step w(2-4)])
  qed (use RegistryTick r l that in \<open>auto simp: watch_step_def\<close>)
next
  case (BackendTick replies order)
  with assms(5) r l show thesis
    by (intro that [of "if wt_probing wt then wt\<lparr>wt_gateway := probe_all replies order (wt_gateway wt)\<rparr> else wt"])
      (auto simp: watch_step_def intro: reachable.probe)
next
  case RegistryDone
  with r l show thesis
    by (intro that [of "if wt_reloading wt then wt\<lparr>wt_reloading := False\<rparr> else wt"]) (auto simp: watch_step_def)
next
  case BackendDone
  with r l show thesis
    by (intro that [of "if wt_probing wt then wt\<lparr>wt_probing := False\<rparr> else wt"]) (auto simp: watch_step_def)
qed

lemma watch_run_ok:
  assumes "reachable env lib (wt_gateway wt)" and "parser_law (ge_parse env)" and "\<And>e. load_text e \<noteq> []"
    and "logged rs wt" and "run_probes env load_text lib evs wt"
  shows "\<exists>wt'. watch_run env load_text lib evs wt = Some wt' \<and> reachable env lib (wt_gateway wt') \<and>
    logged (rs @ reload_outcomes env load_text lib evs wt) wt' \<and>
    mx_reloadErrors (gw_metrics (wt_gateway wt)) + rejected (reload_outcomes env load_text lib evs wt) \<le>
      mx_reloadErrors (gw_metrics (wt_gateway wt'))"
  using assms(1,4,5)
proof (induction evs arbitrary: wt rs)
  case (Cons ev evs)
  from Cons.prems(3) have "probes_snapshot ev (wt_gateway wt)" by simp
  then obtain wt1 where w: "watch_step env load_text lib ev wt = Some wt1" "reachable env lib (wt_gateway wt1)"
      "logged (rs @ reload_outcome env load_text ev wt) wt1"
      "mx_reloadErrors (gw_metrics (wt_gateway wt)) + rejected (reload_outcome env load_text ev wt) \<le>
        mx_reloadErrors (gw_metrics (wt_gateway wt1))"
    by (rule watch_step_ok [OF Cons.prems(1) assms(2,3) Cons.prems(2)])
  with Cons.prems(3) Cons.IH [OF w(2,3)] show ?case by force
qed simp

subsection \<open>Properties\<close>

text \<open>
  C26: However the two loops, the requests and the end of the context interleave, the loops never
  panic and the server stays well-formed. Exactly the rejected reloads whose message differs from
  the outcome of the reload just before are logged, and every rejection is counted.
\<close>
theorem watchers_keep_server:
  assumes "reachable env lib g" and "parser_law (ge_parse env)" and "\<And>e. load_text e \<noteq> []"
    and "run_probes env load_text lib evs (start_watchers g)"
  shows "\<exists>wt. watch_run env load_text lib evs (start_watchers g) = Some wt \<and> gw_ok env (wt_gateway wt) \<and>
    wt_warnings wt = news (reload_outcomes env load_text lib evs (start_watchers g)) \<and>
    mx_reloadErrors (gw_metrics g) + rejected (reload_outcomes env load_text lib evs (start_watchers g)) \<le>
      mx_reloadErrors (gw_metrics (wt_gateway wt))"
proof -
  have start: "reachable env lib (wt_gateway (start_watchers g))" "logged [] (start_watchers g)"
    using assms(1) by (simp_all add: start_watchers_def logged_def)
  from watch_run_ok [OF start(1) assms(2,3) start(2) assms(4)] reachable_gw_ok [OF _ assms(2)]
  show ?thesis by (force simp: logged_def start_watchers_def)
qed

theorem watchers_keep_server_witness:
  "\<exists>g wt. watch_run (demo_env demo_one demo_two) (\<lambda>_. ''load'') demo_ring
      [RegistryTick None (\<lambda>_. NoReply) False, RegistryTick None (\<lambda>_. NoReply) False, BackendTick (\<lambda>_. Reply 200) [],
       RegistryDone, RegistryTick None (\<lambda>_. NoReply) False] (start_watchers g) = Some wt \<and>
    wt_warnings wt = [''load''] \<and> mx_reloadErrors (gw_metrics g) + 2 \<le> mx_reloadErrors (gw_metrics (wt_gateway wt))"
proof -
  let ?env = "demo_env demo_one demo_two" and ?load = "\<lambda>_. ''load''"
  let ?evs = "[RegistryTick None (\<lambda>_. NoReply) False, RegistryTick None (\<lambda>_. NoReply) False, BackendTick (\<lambda>_. Reply 200) [],
    RegistryDone, RegistryTick None (\<lambda>_. NoReply) False]"
  obtain g where g: "reachable ?env demo_ring g" using demo_reachable [OF demo_registries_valid(1)] by metis
  have law: "parser_law (ge_parse ?env)" by (simp add: demo_parser_law)
  have r: "ReloadRegistry ?env None replies h = Some (Some (LoadError ReadFailed), reload_rejected h)" for replies h
    by (simp add: ReloadRegistry_def loadModels_def)
  have evs: "run_probes ?env ?load demo_ring ?evs (start_watchers g)"
    "reload_outcomes ?env ?load demo_ring ?evs (start_watchers g) = [Some ''load'', Some ''load'']"
    by (simp_all add: watch_step_def r start_watchers_def Let_def)
  have "news [Some ''load'', Some ''load''] = [''load'']" by (simp add: news_def)
  with watchers_keep_server [OF g law _ evs(1)] show ?thesis unfolding evs(2) by force
qed

end
