(* ===== verification/Flags.thy ===== *)
theory Flags
  imports Go_Strings "HOL-Library.AList"
begin

text \<open>
  What the two commands use of Go's \<open>flag\<close> package: a set of defined flags with their values, and
  \<open>FlagSet.Parse\<close> over the arguments of the process. The texts of integers and durations are read by
  the library (\<open>flag_lib\<close>).
\<close>

subsection \<open>Flag sets\<close>

datatype flag_value = StringFlag bytes | BoolFlag bool | IntFlag int | DurationFlag int

text \<open>A defined flag has its default until it is set; its constructor is its type.\<close>

type_synonym flag_set = "(bytes \<times> flag_value) list"

record flag_lib =
  fl_int :: "bytes \<Rightarrow> int option"
  fl_duration :: "bytes \<Rightarrow> int option"

datatype flag_error =
    BadSyntax bytes
  | HelpWanted
  | NotDefined bytes
  | InvalidValue bytes bytes
  | NeedsArgument bytes

definition parse_bool :: "bytes \<Rightarrow> bool option" where
  "parse_bool s =
     (if s \<in> {''1'', ''t'', ''T'', ''TRUE'', ''true'', ''True''} then Some True
      else if s \<in> {''0'', ''f'', ''F'', ''FALSE'', ''false'', ''False''} then Some False else None)"

fun set_flag :: "flag_lib \<Rightarrow> flag_value \<Rightarrow> bytes \<Rightarrow> flag_value option" where
  "set_flag lib (StringFlag _) s = Some (StringFlag s)"
| "set_flag lib (BoolFlag _) s = map_option BoolFlag (parse_bool s)"
| "set_flag lib (IntFlag _) s = map_option IntFlag (fl_int lib s)"
| "set_flag lib (DurationFlag _) s = map_option DurationFlag (fl_duration lib s)"

fun is_bool_flag :: "flag_value \<Rightarrow> bool" where
  "is_bool_flag (BoolFlag _) = True"
| "is_bool_flag _ = False"

subsection \<open>Parsing\<close>

datatype flag_arg = NotAFlag | Terminator | BadFlag | FlagArg bytes "bytes option"

text \<open>How an argument reads: after one or two dashes the name and, after \<open>=\<close>, a value.\<close>

definition read_flag :: "bytes \<Rightarrow> flag_arg" where
  "read_flag s =
     (if length s < 2 \<or> hd s \<noteq> CHR ''-'' then NotAFlag
      else if s = ''--'' then Terminator
      else
        let name = (if s ! 1 = CHR ''-'' then drop 2 s else drop 1 s) in
        if name = [] \<or> hd name = CHR ''-'' \<or> hd name = CHR ''='' then BadFlag
        else (case cut name (CHR ''='') of (n, v, found) \<Rightarrow> FlagArg n (if found then Some v else None)))"

definition assign :: "flag_lib \<Rightarrow> flag_set \<Rightarrow> bytes \<Rightarrow> flag_value \<Rightarrow> bytes \<Rightarrow> flag_error + flag_set" where
  "assign lib fs n fv s =
     (case set_flag lib fv s of
        None \<Rightarrow> Inl (InvalidValue n s)
      | Some fv' \<Rightarrow> Inr (AList.update n fv' fs))"

text \<open>The values, and the arguments that are left.\<close>

fun parse_flags :: "flag_lib \<Rightarrow> flag_set \<Rightarrow> bytes list \<Rightarrow> flag_error + flag_set \<times> bytes list" where
  "parse_flags lib fs [] = Inr (fs, [])"
| "parse_flags lib fs (s # args) =
     (case read_flag s of
        NotAFlag \<Rightarrow> Inr (fs, s # args)
      | Terminator \<Rightarrow> Inr (fs, args)
      | BadFlag \<Rightarrow> Inl (BadSyntax s)
      | FlagArg n v \<Rightarrow>
          (case map_of fs n of
             None \<Rightarrow> Inl (if n = ''help'' \<or> n = ''h'' then HelpWanted else NotDefined n)
           | Some fv \<Rightarrow>
               if is_bool_flag fv
               then (case assign lib fs n fv (case v of None \<Rightarrow> ''true'' | Some x \<Rightarrow> x) of
                   Inl e \<Rightarrow> Inl e | Inr fs' \<Rightarrow> parse_flags lib fs' args)
               else (case v of
                   Some x \<Rightarrow> (case assign lib fs n fv x of Inl e \<Rightarrow> Inl e | Inr fs' \<Rightarrow> parse_flags lib fs' args)
                 | None \<Rightarrow> (case args of
                       [] \<Rightarrow> Inl (NeedsArgument n)
                     | x # rest \<Rightarrow> (case assign lib fs n fv x of
                           Inl e \<Rightarrow> Inl e | Inr fs' \<Rightarrow> parse_flags lib fs' rest)))))"

text \<open>Reading a value of the type it was defined with.\<close>

definition string_flag :: "flag_set \<Rightarrow> bytes \<Rightarrow> bytes" where
  "string_flag fs n = (case map_of fs n of Some (StringFlag s) \<Rightarrow> s | _ \<Rightarrow> [])"

definition bool_flag :: "flag_set \<Rightarrow> bytes \<Rightarrow> bool" where
  "bool_flag fs n = (case map_of fs n of Some (BoolFlag b) \<Rightarrow> b | _ \<Rightarrow> False)"

definition int_flag :: "flag_set \<Rightarrow> bytes \<Rightarrow> int" where
  "int_flag fs n = (case map_of fs n of Some (IntFlag i) \<Rightarrow> i | _ \<Rightarrow> 0)"

definition duration_flag :: "flag_set \<Rightarrow> bytes \<Rightarrow> int" where
  "duration_flag fs n = (case map_of fs n of Some (DurationFlag d) \<Rightarrow> d | _ \<Rightarrow> 0)"

lemmas flag_getters = string_flag_def bool_flag_def int_flag_def duration_flag_def

subsection \<open>What parsing does\<close>

text \<open>An argument that switches a boolean flag on: the bare name, or the name with a true value.\<close>

definition switches_on :: "bytes \<Rightarrow> bytes \<Rightarrow> bool" where
  "switches_on n s \<longleftrightarrow>
     (case read_flag s of
        FlagArg k v \<Rightarrow> k = n \<and> parse_bool (case v of None \<Rightarrow> ''true'' | Some x \<Rightarrow> x) = Some True
      | _ \<Rightarrow> False)"

lemma assign_other: "assign lib fs n fv s = Inr fs' \<Longrightarrow> k \<noteq> n \<Longrightarrow> map_of fs' k = map_of fs k"
  by (auto simp: assign_def update_conv' split: option.splits)

lemma assign_bool:
  "assign lib fs n (BoolFlag b) s = Inr fs' \<Longrightarrow> \<exists>b'. parse_bool s = Some b' \<and> map_of fs' n = Some (BoolFlag b')"
  by (auto simp: assign_def update_conv' split: option.splits)

text \<open>A boolean flag that is off by default is on only if some argument switches it on.\<close>

lemma parse_flags_switched:
  assumes "parse_flags lib fs args = Inr (fs', rest)"
    and "map_of fs k = Some (BoolFlag False)" and "map_of fs' k = Some (BoolFlag True)"
  shows "\<exists>a \<in> set args. switches_on k a"
  using assms
proof (induction lib fs args rule: parse_flags.induct)
  case (2 lib fs s args)
  show ?case
  proof (cases "read_flag s")
    case (FlagArg n v)
    obtain fv where fv: "map_of fs n = Some fv" using 2(4) FlagArg by (auto split: option.splits)
    show ?thesis
    proof (cases "is_bool_flag fv")
      case True
      let ?x = "case v of None \<Rightarrow> ''true'' | Some x \<Rightarrow> x"
      from True obtain b where b: "fv = BoolFlag b" by (cases fv) auto
      from 2(4) FlagArg fv True obtain fs1 where s1: "assign lib fs n fv ?x = Inr fs1" "parse_flags lib fs1 args = Inr (fs', rest)"
        by (simp split: sum.splits)
      show ?thesis
      proof (cases "k = n \<and> parse_bool ?x = Some True")
        case on: True
        with FlagArg have "switches_on k s" by (simp add: switches_on_def)
        then show ?thesis by simp
      next
        case False
        have "map_of fs1 k = Some (BoolFlag False)"
        proof (cases "k = n")
          case eq: True
          from assign_bool [OF s1(1) [unfolded b]] obtain b' where "parse_bool ?x = Some b'" "map_of fs1 n = Some (BoolFlag b')"
            by blast
          with False eq show ?thesis by (cases b') auto
        next
          case False
          with assign_other [OF s1(1) False] 2(5) show ?thesis by simp
        qed
        then have "\<exists>a \<in> set args. switches_on k a"
          using 2(1) [OF FlagArg fv True s1 _ 2(6)] by blast
        then show ?thesis by simp
      qed
    next
      case other: False
      then have kn: "k \<noteq> n" using fv 2(5) by auto
      show ?thesis
      proof (cases v)
        case (Some x)
        with 2(4) FlagArg fv other obtain fs1 where s1: "assign lib fs n fv x = Inr fs1"
          "parse_flags lib fs1 args = Inr (fs', rest)" by (simp split: sum.splits)
        have "\<exists>a \<in> set args. switches_on k a"
          using 2(3) [OF FlagArg fv other Some s1 _ 2(6)] assign_other [OF s1(1) kn] 2(5) by simp
        then show ?thesis by simp
      next
        case None
        with 2(4) FlagArg fv other obtain x as fs1 where s1: "args = x # as" "assign lib fs n fv x = Inr fs1"
          "parse_flags lib fs1 as = Inr (fs', rest)" by (auto split: list.splits sum.splits)
        have "\<exists>a \<in> set as. switches_on k a"
          using 2(2) [OF FlagArg fv other None s1 _ 2(6)] assign_other [OF s1(2) kn] 2(5) by simp
        then show ?thesis using s1(1) by simp
      qed
    qed
  qed (use 2(4-6) in auto)
qed simp

text \<open>Arguments \<open>-name=value\<close> are assignments, in order.\<close>

definition plain_name :: "bytes \<Rightarrow> bool" where
  "plain_name n \<longleftrightarrow> n \<noteq> [] \<and> hd n \<noteq> CHR ''-'' \<and> CHR ''='' \<notin> set n"

definition flag_text :: "bytes \<times> bytes \<Rightarrow> bytes" where
  "flag_text a = CHR ''-'' # fst a @ CHR ''='' # snd a"

lemma read_flag_text: "plain_name n \<Longrightarrow> read_flag (flag_text (n, v)) = FlagArg n (Some v)"
  by (cases n) (auto simp: read_flag_def flag_text_def plain_name_def cut_append)

fun assign_all :: "flag_lib \<Rightarrow> flag_set \<Rightarrow> (bytes \<times> bytes) list \<Rightarrow> flag_set option" where
  "assign_all lib fs [] = Some fs"
| "assign_all lib fs ((n, v) # as) =
     (case map_of fs n of
        None \<Rightarrow> None
      | Some fv \<Rightarrow> Option.bind (set_flag lib fv v) (\<lambda>fv'. assign_all lib (AList.update n fv' fs) as))"

lemma parse_flags_texts:
  "\<lbrakk>assign_all lib fs as = Some fs'; list_all (plain_name \<circ> fst) as\<rbrakk> \<Longrightarrow>
     parse_flags lib fs (map flag_text as @ args) = parse_flags lib fs' args"
  by (induction lib fs as rule: assign_all.induct)
    (auto simp: read_flag_text assign_def split: option.splits bind_splits)

end
