(* ===== verification/Startup.thy ===== *)
theory Startup
  imports Flags Gateway_Main Fake_VLLM
begin

text \<open>
  The processes of the two commands, from their arguments to their exit status: the flags of
  \<open>cmd/gateway/main.go\<close> and \<open>cmd/fake-vllm/main.go\<close>, and the connection pool that \<open>Open\<close> of
  \<open>internal/accountdb/store.go\<close> makes and the command closes.
\<close>

subsection \<open>The gateway's flags\<close>

definition gateway_flags :: "(bytes \<Rightarrow> bytes) \<Rightarrow> flag_set" where
  "gateway_flags getenv =
     [(''addr'', StringFlag '':8080''),
      (''registry'', StringFlag ''models.json''),
      (''metrics-addr'', StringFlag ''127.0.0.1:9091''),
      (''database-url'', StringFlag (getenv ''VIRE_DATABASE_URL'')),
      (''insecure-dev'', BoolFlag False),
      (''backend-api-key'', StringFlag (getenv ''VIRE_BACKEND_API_KEY'')),
      (''max-inflight'', IntFlag 32),
      (''web-dir'', StringFlag []),
      (''insecure-cookies'', BoolFlag False),
      (''portal-origin'', StringFlag [])]"

definition config_of_flags :: "flag_set \<Rightarrow> config" where
  "config_of_flags fs =
     \<lparr>cfg_addr = string_flag fs ''addr'', cfg_registry = string_flag fs ''registry'',
      cfg_metricsAddr = string_flag fs ''metrics-addr'', cfg_databaseURL = string_flag fs ''database-url'',
      cfg_insecureDev = bool_flag fs ''insecure-dev'', cfg_backendAPIKey = string_flag fs ''backend-api-key'',
      cfg_maxInflight = int_flag fs ''max-inflight'', cfg_webDir = string_flag fs ''web-dir'',
      cfg_insecureCookies = bool_flag fs ''insecure-cookies'', cfg_portalOrigin = string_flag fs ''portal-origin''\<rparr>"

text \<open>The arguments after the flags are not looked at.\<close>

definition parseConfig_gateway :: "flag_lib \<Rightarrow> (bytes \<Rightarrow> bytes) \<Rightarrow> bytes list \<Rightarrow> flag_error + config" where
  "parseConfig_gateway lib getenv args =
     map_sum id (\<lambda>(fs, rest). config_of_flags fs) (parse_flags lib (gateway_flags getenv) args)"

subsection \<open>The fake backend's flags\<close>

definition fake_flags :: flag_set where
  "fake_flags =
     [(''addr'', StringFlag ''127.0.0.1:8000''),
      (''model'', StringFlag ''example''),
      (''startup-delay'', DurationFlag 0),
      (''response-delay'', DurationFlag 0),
      (''chunk-delay'', DurationFlag 100000000),
      (''error-status'', IntFlag 0)]"

definition fake_config_of_flags :: "flag_set \<Rightarrow> fakeConfig" where
  "fake_config_of_flags fs =
     \<lparr>fc_addr = string_flag fs ''addr'', fc_model = string_flag fs ''model'',
      fc_startupDelay = duration_flag fs ''startup-delay'', fc_responseDelay = duration_flag fs ''response-delay'',
      fc_chunkDelay = duration_flag fs ''chunk-delay'', fc_errorStatus = int_flag fs ''error-status''\<rparr>"

definition fake_parsed :: "flag_lib \<Rightarrow> bytes list \<Rightarrow> bool + fakeConfig \<times> nat" where
  "fake_parsed lib args =
     (case parse_flags lib fake_flags args of
        Inl e \<Rightarrow> Inl (e = HelpWanted)
      | Inr (fs, rest) \<Rightarrow> Inr (fake_config_of_flags fs, length rest))"

subsection \<open>The pool\<close>

text \<open>Whether the URL parses, the pool can be made, and the database answers.\<close>

record poolEnv =
  po_parse :: bool
  po_new :: bool
  po_ping :: bool

datatype pool_action = NewPool | ClosePool

text \<open>\<open>Open\<close>: whether it returned a store, and what it did to pools.\<close>

definition Open :: "poolEnv \<Rightarrow> bool \<times> pool_action list" where
  "Open env =
     (if \<not> po_parse env then (False, [])
      else if \<not> po_new env then (False, [])
      else if \<not> po_ping env then (False, [NewPool, ClosePool])
      else (True, [NewPool]))"

definition open_actions :: "poolEnv \<Rightarrow> world \<Rightarrow> database versioned \<Rightarrow> pool_action list" where
  "open_actions env wd db =
     (case Open env of
        (False, as) \<Rightarrow> as
      | (True, as) \<Rightarrow>
          as @ (if isl (fst (Migrate (wd_script wd) (wd_schemas wd) (fst (wd_migrate wd)) (snd (wd_migrate wd)) db))
                then [ClosePool] else []))"

text \<open>\<open>run\<close> opens no store with a configuration it refuses, and closes the store it got when it returns.\<close>

definition store_actions :: "world \<Rightarrow> poolEnv \<Rightarrow> database versioned \<Rightarrow> pool_action list" where
  "store_actions wd env db =
     open_actions env wd db @
       (if fst (openAccountStore (wd\<lparr>wd_open := fst (Open env)\<rparr>) db) = None then [ClosePool] else [])"

definition run_actions :: "serverLibs \<Rightarrow> world \<Rightarrow> poolEnv \<Rightarrow> config \<Rightarrow> database versioned \<Rightarrow> pool_action list" where
  "run_actions libs wd env cfg db =
     (case run libs (wd\<lparr>wd_open := fst (Open env)\<rparr>) cfg db of
        Some (Some (ConfigError e), db') \<Rightarrow> []
      | _ \<Rightarrow> if cfg_databaseURL cfg = [] then [] else store_actions wd env db)"

subsection \<open>The process\<close>

text \<open>
  The exit status. \<open>flag.Parse\<close> ends the process itself: with 0 when help is asked for, otherwise
  with 2; \<open>None\<close> is a panic or a wait for ever.
\<close>

definition gateway_process ::
    "flag_lib \<Rightarrow> (bytes \<Rightarrow> bytes) \<Rightarrow> serverLibs \<Rightarrow> world \<Rightarrow> poolEnv \<Rightarrow> bytes list \<Rightarrow> database versioned \<Rightarrow>
     (nat \<times> pool_action list \<times> database versioned) option" where
  "gateway_process lib getenv libs wd env args db =
     (case parseConfig_gateway lib getenv args of
        Inl e \<Rightarrow> Some (if e = HelpWanted then 0 else 2, [], db)
      | Inr cfg \<Rightarrow>
          map_option (\<lambda>(err, db'). (if err = None then 0 else 1, run_actions libs wd env cfg db, db'))
            (run libs (wd\<lparr>wd_open := fst (Open env)\<rparr>) cfg db))"

subsection \<open>What the flags decide\<close>

lemma gateway_flag_values:
  "map_of (gateway_flags getenv) ''insecure-dev'' = Some (BoolFlag False)"
  "map_of (gateway_flags getenv) ''insecure-cookies'' = Some (BoolFlag False)"
  "map_of (gateway_flags getenv) ''database-url'' = Some (StringFlag (getenv ''VIRE_DATABASE_URL''))"
  by (simp_all add: gateway_flags_def)

lemma bool_flag_switched:
  assumes "parse_flags lib fs args = Inr (fs', rest)" and "map_of fs n = Some (BoolFlag False)" and "bool_flag fs' n"
  shows "\<exists>a \<in> set args. switches_on n a"
  using parse_flags_switched [OF assms(1,2)] assms(3)
  by (auto simp: bool_flag_def split: option.splits flag_value.splits)

lemma parseConfig_gateway_Inr:
  assumes "parseConfig_gateway lib getenv args = Inr cfg"
  obtains fs rest where "parse_flags lib (gateway_flags getenv) args = Inr (fs, rest)" and "cfg = config_of_flags fs"
  using assms by (cases "parse_flags lib (gateway_flags getenv) args") (auto simp: parseConfig_gateway_def)

lemma insecure_switched:
  assumes "parseConfig_gateway lib getenv args = Inr cfg"
  shows "cfg_insecureDev cfg \<Longrightarrow> \<exists>a \<in> set args. switches_on ''insecure-dev'' a"
    and "cfg_insecureCookies cfg \<Longrightarrow> \<exists>a \<in> set args. switches_on ''insecure-cookies'' a"
proof -
  obtain fs rest where fs: "parse_flags lib (gateway_flags getenv) args = Inr (fs, rest)" and cfg: "cfg = config_of_flags fs"
    using parseConfig_gateway_Inr [OF assms] .
  show "cfg_insecureDev cfg \<Longrightarrow> \<exists>a \<in> set args. switches_on ''insecure-dev'' a"
    by (rule bool_flag_switched [OF fs gateway_flag_values(1)]) (simp only: cfg config_of_flags_def config.simps)
  show "cfg_insecureCookies cfg \<Longrightarrow> \<exists>a \<in> set args. switches_on ''insecure-cookies'' a"
    by (rule bool_flag_switched [OF fs gateway_flag_values(2)]) (simp only: cfg config_of_flags_def config.simps)
qed

text \<open>Every configuration can be given by arguments, and is read back as it was given.\<close>

definition bool_text :: "bool \<Rightarrow> bytes" where
  "bool_text b = (if b then ''true'' else ''false'')"

definition gateway_args :: "(int \<Rightarrow> bytes) \<Rightarrow> config \<Rightarrow> bytes list" where
  "gateway_args decimal cfg = map flag_text
     [(''addr'', cfg_addr cfg), (''registry'', cfg_registry cfg), (''metrics-addr'', cfg_metricsAddr cfg),
      (''database-url'', cfg_databaseURL cfg), (''insecure-dev'', bool_text (cfg_insecureDev cfg)),
      (''backend-api-key'', cfg_backendAPIKey cfg), (''max-inflight'', decimal (cfg_maxInflight cfg)),
      (''web-dir'', cfg_webDir cfg), (''insecure-cookies'', bool_text (cfg_insecureCookies cfg)),
      (''portal-origin'', cfg_portalOrigin cfg)]"

lemma parse_bool_text [simp]: "parse_bool (bool_text b) = Some b"
  by (simp add: parse_bool_def bool_text_def)

lemma config_read_back:
  assumes "fl_int lib (decimal (cfg_maxInflight cfg)) = Some (cfg_maxInflight cfg)"
  shows "parseConfig_gateway lib getenv (gateway_args decimal cfg) = Inr cfg"
proof -
  let ?fs = "[(''addr'', StringFlag (cfg_addr cfg)), (''registry'', StringFlag (cfg_registry cfg)),
    (''metrics-addr'', StringFlag (cfg_metricsAddr cfg)), (''database-url'', StringFlag (cfg_databaseURL cfg)),
    (''insecure-dev'', BoolFlag (cfg_insecureDev cfg)), (''backend-api-key'', StringFlag (cfg_backendAPIKey cfg)),
    (''max-inflight'', IntFlag (cfg_maxInflight cfg)), (''web-dir'', StringFlag (cfg_webDir cfg)),
    (''insecure-cookies'', BoolFlag (cfg_insecureCookies cfg)), (''portal-origin'', StringFlag (cfg_portalOrigin cfg))]"
  have "parse_flags lib (gateway_flags getenv) (gateway_args decimal cfg @ []) = parse_flags lib ?fs []"
    unfolding gateway_args_def
    by (rule parse_flags_texts) (simp_all add: gateway_flags_def assms plain_name_def)
  moreover have "config_of_flags ?fs = cfg"
    by (simp add: config_of_flags_def flag_getters)
  ultimately show ?thesis by (simp add: parseConfig_gateway_def)
qed

text \<open>Every pool that was made is closed when the process has ended, and only then is another one.\<close>

lemma run_actions_closed: "run_actions libs wd env cfg db \<in> {[], [NewPool, ClosePool]}"
proof -
  have "store_actions wd env db \<in> {[], [NewPool, ClosePool]}"
    by (auto simp: store_actions_def open_actions_def Open_def openAccountStore_def split: sum.splits prod.splits)
  then show ?thesis
    unfolding run_actions_def by (auto split: option.split prod.split main_error.split)
qed

subsection \<open>Properties\<close>

text \<open>
  C30: Whatever the arguments and the environment variables are, \<open>run\<close> either refuses the configuration, or
  it works with accounts unless no database is configured and an argument switches \<open>-insecure-dev\<close> on,
  and it sets cookies without Secure only if an argument switches \<open>-insecure-cookies\<close> on and it listens
  on a loopback address; this holds for a run that serves for ever as well. Wrong arguments end the
  process before anything is touched. A process that ends leaves no pool open, and its status is 0 only
  for help or after a clean run.
\<close>
theorem insecure_only_on_request:
  "case parseConfig_gateway lib getenv args of
     Inl e \<Rightarrow> gateway_process lib getenv libs wd env args db = Some (if e = HelpWanted then 0 else 2, [], db)
   | Inr cfg \<Rightarrow>
       (let ran = run libs (wd\<lparr>wd_open := fst (Open env)\<rparr>) cfg db in
        ((\<exists>e. ran = Some (Some (ConfigError e), db)) \<or>
           (op_AccountStore (server_options cfg) \<or>
              cfg_databaseURL cfg = [] \<and> (\<exists>a \<in> set args. switches_on ''insecure-dev'' a)) \<and>
           (\<not> op_InsecureCookies (server_options cfg) \<or>
              (\<exists>a \<in> set args. switches_on ''insecure-cookies'' a) \<and>
              list_ex (hasPrefix (cfg_addr cfg)) [''127.0.0.1:'', ''localhost:'', ''[::1]:''])) \<and>
        (case gateway_process lib getenv libs wd env args db of
           None \<Rightarrow> ran = None
         | Some (status, actions, db') \<Rightarrow>
             actions \<in> {[], [NewPool, ClosePool]} \<and> (status = 0 \<longleftrightarrow> ran = Some (None, db'))))"
proof (cases "parseConfig_gateway lib getenv args")
  case (Inl e)
  then show ?thesis by (simp add: gateway_process_def)
next
  case (Inr cfg)
  let ?ran = "run libs (wd\<lparr>wd_open := fst (Open env)\<rparr>) cfg db"
  note on = insecure_switched [OF Inr]
  have config: "(\<exists>e. ?ran = Some (Some (ConfigError e), db)) \<or>
           (op_AccountStore (server_options cfg) \<or>
              cfg_databaseURL cfg = [] \<and> (\<exists>a \<in> set args. switches_on ''insecure-dev'' a)) \<and>
           (\<not> op_InsecureCookies (server_options cfg) \<or>
              (\<exists>a \<in> set args. switches_on ''insecure-cookies'' a) \<and>
              list_ex (hasPrefix (cfg_addr cfg)) [''127.0.0.1:'', ''localhost:'', ''[::1]:''])"
  proof (cases "validate (sl_parse libs) cfg")
    case None
    then have "op_AccountStore (server_options cfg) \<or> cfg_databaseURL cfg = [] \<and> cfg_insecureDev cfg"
      and "\<not> op_InsecureCookies (server_options cfg) \<or>
        cfg_insecureCookies cfg \<and> list_ex (hasPrefix (cfg_addr cfg)) [''127.0.0.1:'', ''localhost:'', ''[::1]:'']"
      by (auto simp: validate_def server_options_def split: if_splits)
    with on show ?thesis by blast
  next
    case (Some e)
    then have "?ran = Some (Some (ConfigError e), db)" by (simp add: run_def)
    then show ?thesis by blast
  qed
  have process: "case gateway_process lib getenv libs wd env args db of
           None \<Rightarrow> ?ran = None
         | Some (status, actions, db') \<Rightarrow>
             actions \<in> {[], [NewPool, ClosePool]} \<and> (status = 0 \<longleftrightarrow> ?ran = Some (None, db'))"
    using Inr run_actions_closed [of libs wd env cfg db]
    by (cases ?ran) (auto simp: gateway_process_def split: if_splits)
  show ?thesis unfolding Inr sum.case Let_def using config process by blast
qed

text \<open>Development mode over one model: the arguments ask for it, and nothing else is configured.\<close>

definition demo_flag_lib :: flag_lib where
  "demo_flag_lib = \<lparr>fl_int = (\<lambda>_. None), fl_duration = (\<lambda>_. None)\<rparr>"

definition demo_dev_config :: config where
  "demo_dev_config = \<lparr>cfg_addr = '':8080'', cfg_registry = ''models.json'', cfg_metricsAddr = ''127.0.0.1:9091'',
     cfg_databaseURL = [], cfg_insecureDev = True, cfg_backendAPIKey = [], cfg_maxInflight = 32,
     cfg_webDir = [], cfg_insecureCookies = False, cfg_portalOrigin = []\<rparr>"

lemma demo_dev_parsed: "parseConfig_gateway demo_flag_lib (\<lambda>_. []) [''-insecure-dev''] = Inr demo_dev_config"
  by code_simp

lemma demo_dev_runs: "run demo_libs demo_world demo_dev_config db = Some (None, db)"
proof -
  let ?opts = "server_options demo_dev_config"
  let ?env = "gateway_env demo_libs ?opts"
  have load: "loadModels (ge_parse ?env) (ge_decode ?env) (Some []) = Inr [demo_model ''q'' ''HTTP://a'']"
    using demo_registries_valid(1) by (intro loads_valid) (simp_all add: gateway_env_def demo_libs_def demo_one_def)
  have "parser_law (ge_parse ?env)" by (simp add: gateway_env_def demo_libs_def demo_parser_law)
  from NewServer_ok [OF this load] obtain g where "NewServer ?env (Some []) = Some (Inr g)" .
  then have "NewServerWithOptions demo_libs ?opts (wd_file demo_world) = Some (Inr g)"
    by (simp add: NewServerWithOptions_def demo_world_def)
  moreover have "map_option fst (Run demo_run) = Some None" by code_simp
  then obtain as where "Run demo_run = Some (None, as)" by auto
  ultimately have "serve_gateway demo_libs demo_world ?opts db = Some (None, db)"
    by (simp add: serve_gateway_def demo_world_def server_options_def demo_dev_config_def)
  then show ?thesis by (simp add: run_def validate_def demo_dev_config_def)
qed

lemma demo_dev_process:
  "gateway_process demo_flag_lib (\<lambda>_. []) demo_libs demo_world \<lparr>po_parse = True, po_new = True, po_ping = True\<rparr>
      [''-insecure-dev''] \<lparr>vs_versions = None, vs_data = empty_db\<rparr> = Some (0, [], \<lparr>vs_versions = None, vs_data = empty_db\<rparr>)"
proof -
  let ?db = "\<lparr>vs_versions = None, vs_data = empty_db\<rparr>" and ?pool = "\<lparr>po_parse = True, po_new = True, po_ping = True\<rparr>"
  have "demo_world\<lparr>wd_open := fst (Open ?pool)\<rparr> = demo_world" by (simp add: Open_def demo_world_def)
  then show ?thesis
    unfolding gateway_process_def demo_dev_parsed sum.case
    by (simp add: demo_dev_runs run_actions_def) (simp add: demo_dev_config_def)
qed

theorem insecure_only_on_request_witness:
  "gateway_process demo_flag_lib (\<lambda>_. []) demo_libs demo_world \<lparr>po_parse = True, po_new = True, po_ping = True\<rparr>
      [''-insecure-dev''] \<lparr>vs_versions = None, vs_data = empty_db\<rparr> = Some (0, [], \<lparr>vs_versions = None, vs_data = empty_db\<rparr>) \<and>
    list_ex (switches_on ''insecure-dev'') [''-insecure-dev'']"
proof
  let ?db = "\<lparr>vs_versions = None, vs_data = empty_db\<rparr>" and ?pool = "\<lparr>po_parse = True, po_new = True, po_ping = True\<rparr>"
  show "gateway_process demo_flag_lib (\<lambda>_. []) demo_libs demo_world ?pool [''-insecure-dev''] ?db = Some (0, [], ?db)"
    by (rule demo_dev_process)
  have "demo_world\<lparr>wd_open := fst (Open ?pool)\<rparr> = demo_world" by (simp add: Open_def demo_world_def)
  then have ran: "run demo_libs (demo_world\<lparr>wd_open := fst (Open ?pool)\<rparr>) demo_dev_config ?db = Some (None, ?db)"
    by (simp only: demo_dev_runs)
  have "\<not> op_AccountStore (server_options demo_dev_config)"
    by (simp add: server_options_def demo_dev_config_def)
  with insecure_only_on_request [where lib = demo_flag_lib and getenv = "\<lambda>_. []"
      and args = "[''-insecure-dev'']" and libs = demo_libs and wd = demo_world and env = ?pool and db = ?db]
  show "list_ex (switches_on ''insecure-dev'') [''-insecure-dev'']"
    unfolding demo_dev_parsed sum.case Let_def ran by (simp add: list_ex_iff)
qed

text \<open>Switching the flag off asks for nothing, and the gateway refuses to start.\<close>

lemma demo_switched_off:
  "\<not> switches_on ''insecure-dev'' ''-insecure-dev=false''"
  "map_option fst (gateway_process demo_flag_lib (\<lambda>_. []) demo_libs demo_world \<lparr>po_parse = True, po_new = True, po_ping = True\<rparr>
      [''-insecure-dev=false''] \<lparr>vs_versions = None, vs_data = empty_db\<rparr>) = Some 1"
  by code_simp+

end
