(* ===== verification/Spec2Isabelle.thy ===== *)
theory Spec2Isabelle
  imports Endpoint Portal_Flows Gateway_Main Account_Sessions Account_Ledger Migration Fake_VLLM Telemetry Watchers Inflight_Gauge Startup
begin

text \<open>
  Vire is an HTTP gateway in front of inference backends. Clients send chat completions with an API
  key; the gateway picks a backend of the requested model, streams the answer through, reads
  the token counts from it and keeps a ledger of usage in a database. A portal in the browser
  lets people sign up, sign in, look at their usage and chat. These theories model the gateway and
  its database code as functions and step relations, and prove what they are relied on for.

  \<^bold>\<open>The parts and their theories.\<close> \<open>Prelude\<close> and \<open>Go_Strings\<close> hold the byte strings, words and the
  parts of Go's \<open>strings\<close>, \<open>unicode/utf8\<close> and \<open>slices\<close> in use, \<open>Codec\<close> base64, hexadecimal and
  ULIDs, \<open>Http\<close> headers, replies and \<open>writeAPIError\<close>.

  \<^item> \<open>Usage_Capture\<close> (\<open>gateway/usage_capture.go\<close>): \<open>usageCapture\<close> with \<open>body_read\<close>, \<open>observe\<close>, \<open>tail\<close>,
    \<open>result\<close>, \<open>streamUsage\<close>, and the ring buffer as a bounded tail (locale \<open>tail_buffer\<close>).
  \<^item> \<open>Registry\<close> (\<open>gateway/server.go\<close>, \<open>membership.go\<close>): \<open>loadModels\<close> with every check, \<open>sameCatalog\<close>,
    \<open>PricedModels\<close>, \<open>membershipFingerprint\<close>.
  \<^item> \<open>Observability\<close> (\<open>gateway/observability.go\<close>): the metrics, the response writer and the end of a
    request (\<open>finish_request\<close>); a histogram is kept as its number of observations.
  \<^item> \<open>Routing\<close> (\<open>gateway/proxy.go\<close>, \<open>modelRoute\<close>): affinity over the hash ring, round robin, failover,
    and the routing of a request (\<open>route_ServeHTTP\<close>).
  \<^item> \<open>Membership\<close> (\<open>gateway/membership.go\<close>): the heap of backends, \<open>buildRouting\<close>, probes, \<open>NewServer\<close> and
    \<open>ReloadRegistry\<close>; \<open>reachable\<close> are the servers that any sequence of probes, reloads and
    requests leads to.
  \<^item> \<open>Watchers\<close> (\<open>watchRegistry\<close>, \<open>watchBackends\<close>): the two loops that reload and probe, interleaved with
    requests. \<open>Inflight_Gauge\<close>: the gauge of requests in flight over requests and reloads, and when
    it is wrong.
  \<^item> \<open>Proxy\<close> (\<open>newProxy\<close>): \<open>Rewrite\<close>, \<open>ModifyResponse\<close> and \<open>ErrorHandler\<close>, and what a backend sees.
  \<^item> \<open>Accounts\<close> (\<open>gateway/accounts.go\<close>): the store's interface and \<open>authenticate\<close>.
  \<^item> \<open>Completions\<close>, \<open>Metering\<close>, \<open>Endpoint\<close> (\<open>serveCompletions\<close> and \<open>handleCompletions\<close>): the handler; how
    a request is accounted, over any store that keeps a ledger (locale \<open>usage_ledger\<close>, interpreted
    on the database); and any number of requests interleaved (\<open>serving\<close>).
  \<^item> \<open>Telemetry\<close> (\<open>wrap\<close>): a completion request inside its observation, and how what is counted agrees
    with the ledger.
  \<^item> \<open>Account_DB\<close> (\<open>internal/accountdb/db\<close> and the schema): one function per SQL statement over a record of
    tables, with the constraints of the schema as errors.
  \<^item> \<open>Account_Store\<close>, \<open>Maintenance\<close>, \<open>Reports\<close> (\<open>internal/accountdb/store.go\<close>, \<open>maintenance.go\<close>,
    \<open>portal.go\<close>): the operations as sequences of statements, each of which may fail, or
    commit without being acknowledged (\<open>fault\<close>).
  \<^item> \<open>Account_Invariant\<close>, \<open>Account_Runs\<close>, \<open>Account_Keys\<close>, \<open>Account_Ledger\<close>, \<open>Account_Sessions\<close>: the
    invariant \<open>db_ok\<close>, the step relation of all statements, and the properties of keys,
    usage events and sessions over its runs.
  \<^item> \<open>Migration\<close> (\<open>Migrate\<close>): the schema versions, and which scripts are run in which order.
  \<^item> \<open>Cookies\<close>, \<open>Portal\<close>, \<open>Portal_Flows\<close> (\<open>gateway/portal.go\<close>, \<open>portalChatHandler\<close>): the session cookie, every
    handler, and what a browser can and cannot do through them (locales \<open>portal_sessions\<close> and
    \<open>portal_database\<close>).
  \<^item> \<open>Lifecycle\<close> (\<open>Server.Run\<close>) and \<open>Gateway_Main\<close> (\<open>cmd/gateway/main.go\<close>, \<open>NewServerWithOptions\<close>): binding,
    serving and shutting down as a list of actions; configuration, start-up, prices and exit.
  \<^item> \<open>Flags\<close> (what is used of Go's \<open>flag\<close> package) and \<open>Startup\<close> (\<open>parseConfig\<close> and \<open>main\<close> of both commands,
    \<open>Open\<close> of the store): the processes from their arguments to their exit status.
  \<^item> \<open>Fake_VLLM\<close> (\<open>cmd/fake-vllm/main.go\<close>): the inference server the gateway is tested against, and how the
    gateway meters its stream.

  \<^bold>\<open>State.\<close> \<open>gateway\<close> is the part of \<open>Server\<close> that routing and membership use; backends are references into
  a heap (\<open>routeBackend\<close> values are shared by snapshots), the routing snapshot is replaced as a
  whole. \<open>server\<close> adds the concurrency limit and the store. A handler is a function from the
  request's environment and the server to the reply and the server; \<open>None\<close> is a panic. The
  theorems show that the modelled handlers do not panic in any reachable state. For \<open>Run\<close>, \<open>run\<close> and a
  process \<open>None\<close> is also a wait for ever.

  \<^bold>\<open>What the lemmas show.\<close> The invariants: \<open>gw_ok\<close> of the server, \<open>db_ok\<close> of the database, one row per
  request in flight. The refinements: the ring buffer against the unbounded stream, the
  single-pass scan against the declarative reading of its lines, the life of a usage event
  against pending, finished and rolled up. The equivalences: phases against the handler, chunked
  against whole reads, a restarted gateway against the old one. Security: what a key, a
  cookie or a foreign page can reach. Specifications that are not code are predicates of their own:
  \<open>recorded_as\<close> (what an exchange has to be recorded with), \<open>row_matches\<close> (a request's row in each
  phase), \<open>own_report\<close> (what a usage report of an account has to be), \<open>missing_scripts\<close> and \<open>upgraded\<close>
  (what a migration has to do), \<open>switches_on\<close> (an argument that asks for a mode).

  \<^bold>\<open>Bounds and fuel.\<close> Sizes are those of the code (1 MiB bodies, a 64 KiB tail, batches of 1000 and
  5000 rows, five attempts in fifteen minutes, seven days). \<open>run_alone\<close> has fuel for the
  four phases a request has; the maintenance loops recurse over a measure of the rows that
  are left. \<open>maintainAccounts\<close> has a number of rounds, since the goroutine ends with the process only.

  \<^bold>\<open>Parameters.\<close> The JSON decoder, \<open>url.Parse\<close>, \<open>mail.ParseAddress\<close>, \<open>strings.ToLower\<close> on non-ASCII text,
  SHA-256, Argon2id, number and duration parsing of flags, the re-encoding of a query that cannot be
  parsed, random bytes, the clock and the consistent-hash ring are arguments; what is
  assumed of them is named where it is used (\<open>parser_law\<close>, \<open>ring_law\<close>). Postgres statements are
  atomic; their interleavings are the runs of \<open>Account_Runs\<close>.

  \<^bold>\<open>Grain.\<close> In \<open>serving\<close> the authentication and admission of a request are one step, and its exchange with
  the backend is one step; chats of the portal, which share the limit, are not among the interleaved
  requests. A run of \<open>Maintain\<close> meets other replicas only through the rows they hold; other writers
  between its statements are covered by the step relation of \<open>Account_Runs\<close>, not by the theorems about
  whole runs. A server's goroutine in \<open>Run\<close> ends when its server fails or was told to stop.

  \<^bold>\<open>Not modelled.\<close> The attributes of a cookie as a browser reads them (Path, Max-Age), the generated plumbing of \<open>db.go\<close>, the
  registration and exposition of metrics, the values a histogram observes (its observations are
  counted), log lines other than the warnings of \<open>watchRegistry\<close>, the texts of numbers and
  durations in flags, the matching of the mux and static files, protocol upgrades and trailers in answers, timeouts other than as
  failures, and the unused struct of \<open>worker.go\<close>. These are the work of libraries or generated
  code, or have no effect that another part depends on.
\<close>

end
